(* ===== verification/Prelude.thy ===== *)
theory Prelude
  imports Main "HOL-Library.Word"
begin

text \<open>
  The vocabulary shared by every component theory: the machine types of the C++ code, the few
  conversions between them that the code relies on, the parts of \<^verbatim>\<open>std::string\<close> it calls, and
  the generic list and word lemmas the component proofs use. Undefined behaviour of the source
  (an out-of-range read, an oversized shift, a read of an uninitialised variable) is the value
  \<open>None\<close> of an \<open>option\<close>; an exception is the left summand of a sum.
\<close>

unbundle bit_operations_syntax

section \<open>Collections of facts\<close>

named_theorems str_simps \<open>evaluation rules for the string library\<close>
named_theorems codec_simps \<open>read-back rules of the byte codec\<close>
named_theorems flow_simps \<open>facts on the throughput counter\<close>
named_theorems json_simps \<open>evaluation of the configuration readers\<close>

section \<open>Machine types\<close>

type_synonym u8 = "8 word"
type_synonym u16 = "16 word"
type_synonym i32 = "32 word"
type_synonym u32 = "32 word"
type_synonym u64 = "64 word"

text \<open>
  An \<^verbatim>\<open>int16_t\<close> is kept as an \<open>int\<close> and wrapped on every assignment, which is what gcc does
  for the conversion back to sixteen bits.
\<close>

definition wrap16 :: "int \<Rightarrow> int" where
  "wrap16 x = (x + 32768) mod 65536 - 32768"

lemma wrap16_id [simp]: "-32768 \<le> x \<Longrightarrow> x < 32768 \<Longrightarrow> wrap16 x = x"
  by (simp add: wrap16_def)

lemma wrap16_bounds: "-32768 \<le> wrap16 x" "wrap16 x < 32768"
  by (simp_all add: wrap16_def)

text \<open>An \<^verbatim>\<open>int\<close> that may overflow in an atomic increment wraps around in the same way.\<close>

definition wrap32 :: "int \<Rightarrow> int" where
  "wrap32 x = (x + 2 ^ 31) mod 2 ^ 32 - 2 ^ 31"

lemma wrap32_id [simp]: "- (2 ^ 31) \<le> x \<Longrightarrow> x < 2 ^ 31 \<Longrightarrow> wrap32 x = x"
  by (simp add: wrap32_def)

text \<open>The usual arithmetic conversions turn a negative \<^verbatim>\<open>int\<close> into a huge \<^verbatim>\<open>size_t\<close>.\<close>

definition to_size :: "int \<Rightarrow> int" where
  "to_size x = x mod 2 ^ 64"

lemma to_size_nonneg [simp]: "0 \<le> x \<Longrightarrow> x < 2 ^ 63 \<Longrightarrow> to_size x = x"
  by (simp add: to_size_def)

definition to_u32 :: "int \<Rightarrow> int" where
  "to_u32 x = x mod 2 ^ 32"

lemma to_u32_nonneg [simp]: "0 \<le> x \<Longrightarrow> x < 2 ^ 32 \<Longrightarrow> to_u32 x = x"
  by (simp add: to_u32_def)

section \<open>Characters and bytes\<close>

definition byte_of :: "char \<Rightarrow> u8" where
  "byte_of c = of_nat (of_char c)"

definition char_of_byte :: "u8 \<Rightarrow> char" where
  "char_of_byte w = char_of (unat w)"

lemma unat_byte_of [simp]: "unat (byte_of c) = of_char c"
proof -
  have "(of_char c :: nat) < 256"
    using range_nat_of_char by auto
  then show ?thesis
    by (simp add: byte_of_def unat_of_nat)
qed

lemma char_of_byte_of [simp]: "char_of_byte (byte_of c) = c"
  by (simp add: char_of_byte_def)

lemma byte_of_inj [simp]: "byte_of c = byte_of d \<longleftrightarrow> c = d"
  by (metis char_of_byte_of)

text \<open>\<^verbatim>\<open>isspace\<close> in the C locale.\<close>

definition is_space :: "char \<Rightarrow> bool" where
  "is_space c \<longleftrightarrow> (let n = of_char c :: nat in n = 32 \<or> (9 \<le> n \<and> n \<le> 13))"

section \<open>The string library\<close>

text \<open>
  \<^verbatim>\<open>std::string::find\<close> of one character: the first position at or after \<open>start\<close>, \<open>None\<close> for
  \<^verbatim>\<open>npos\<close>.
\<close>

fun find_char :: "char \<Rightarrow> string \<Rightarrow> nat option" where
  "find_char c [] = None"
| "find_char c (x # xs) = (if x = c then Some 0 else map_option Suc (find_char c xs))"

text \<open>\<^verbatim>\<open>std::string::find\<close> of a string, from the beginning.\<close>

fun find_sub :: "string \<Rightarrow> string \<Rightarrow> nat option" where
  "find_sub pat [] = (if pat = [] then Some 0 else None)"
| "find_sub pat (x # xs) =
     (if take (length pat) (x # xs) = pat then Some 0 else map_option Suc (find_sub pat xs))"

text \<open>\<^verbatim>\<open>std::string::find_last_of\<close>: the last position of a character of the set.\<close>

definition find_last_of :: "char list \<Rightarrow> string \<Rightarrow> nat option" where
  "find_last_of cs s =
     (case filter (\<lambda>i. s ! i \<in> set cs) [0..<length s] of [] \<Rightarrow> None | is \<Rightarrow> Some (last is))"

text \<open>
  \<^verbatim>\<open>std::string::substr\<close>: at most \<open>n\<close> characters from \<open>pos\<close>. The call raises
  \<^verbatim>\<open>std::out_of_range\<close> when \<open>pos\<close> is beyond the end; the callers of this development guard it.
\<close>

definition substr :: "string \<Rightarrow> nat \<Rightarrow> nat \<Rightarrow> string" where
  "substr s pos n = take n (drop pos s)"

lemma find_char_None_iff: "find_char c s = None \<longleftrightarrow> c \<notin> set s"
  by (induction s) auto

lemma find_char_append: "c \<notin> set xs \<Longrightarrow> find_char c (xs @ c # ys) = Some (length xs)"
  by (induction xs) auto

lemma find_char_Some: "find_char c s = Some i \<Longrightarrow> i < length s \<and> s ! i = c \<and> c \<notin> set (take i s)"
proof (induction s arbitrary: i)
  case (Cons x xs)
  then show ?case
    by (cases i) (auto split: if_splits)
qed simp

lemma find_sub_bound: "find_sub pat s = Some i \<Longrightarrow> i + length pat \<le> length s"
proof (induction s arbitrary: i)
  case (Cons x xs)
  show ?case
  proof (cases "take (length pat) (x # xs) = pat")
    case True
    then have "length pat \<le> length (x # xs)"
      by (metis length_take min.cobounded1)
    with True Cons.prems show ?thesis by simp
  next
    case False
    with Cons show ?thesis by auto
  qed
qed (auto split: if_splits)

lemmas [str_simps] = find_char.simps find_sub.simps substr_def

section \<open>Lists\<close>

lemma nth_drop_take_split:
  "i < length xs \<Longrightarrow> xs = take i xs @ xs ! i # drop (Suc i) xs"
  by (simp add: id_take_nth_drop)

lemma sum_list_filter_split:
  "sum_list (map f (filter P xs)) + sum_list (map f (filter (\<lambda>x. \<not> P x) xs))
     = (sum_list (map f xs) :: 'b::comm_monoid_add)"
  by (induction xs) (auto simp: add.assoc add.left_commute)

lemma sum_list_upt_cong:
  "(\<And>i. i < n \<Longrightarrow> f i = g i) \<Longrightarrow> sum_list (map f [0..<n]) = sum_list (map g [0..<n])"
  by (rule arg_cong [where f = sum_list]) simp

lemma foldl_plus_sum_list: "foldl (+) a xs = a + sum_list xs" for a :: "'a::comm_monoid_add"
  by (induction xs arbitrary: a) (simp_all add: add.assoc)

lemma upto_int_upt: "[int m..int n - 1] = map int [m..<n]"
proof (induction n)
  case (Suc n)
  show ?case
  proof (cases "m \<le> n")
    case True
    then have "[int m..int n] = [int m..int n - 1] @ [int n]" by (intro upto_rec2) simp
    with Suc True show ?thesis by simp
  qed simp
qed simp

section \<open>Bits of words\<close>

lemma bit_unat_ge: "bit w n \<Longrightarrow> 2 ^ n \<le> unat w"
proof (rule ccontr)
  assume b: "bit w n" and "\<not> 2 ^ n \<le> unat w"
  then have "unat w div 2 ^ n = 0" by simp
  then have "\<not> bit (unat w) n" by (simp add: bit_iff_odd)
  with b show False by (simp add: bit_unsigned_iff)
qed

lemma bit_lt:
  assumes "unat w < 2 ^ k" and "bit w n"
  shows "n < k"
proof -
  have "(2 :: nat) ^ n < 2 ^ k" using bit_unat_ge [OF assms(2)] assms(1) by (rule le_less_trans)
  then show ?thesis by simp
qed

lemma unat_lt_bits:
  assumes "\<And>n. bit w n \<Longrightarrow> n < k"
  shows "unat w < 2 ^ k"
proof -
  have "w = take_bit k w"
    by (intro bit_word_eqI) (auto simp: bit_simps dest: assms)
  then have "unat w = take_bit k (unat w)"
    by (metis unsigned_take_bit_eq)
  then show ?thesis
    by (metis take_bit_nat_less_exp)
qed

lemma high_bit_iff: "(b :: u8) AND 0x80 \<noteq> 0 \<longleftrightarrow> 128 \<le> unat b"
proof -
  have "b AND 2 ^ 7 = 0 \<longleftrightarrow> \<not> bit b 7"
    by (rule and_exp_eq_0_iff_not_bit)
  moreover have "bit b 7 \<longleftrightarrow> bit (unat b) 7"
    by (simp add: bit_unsigned_iff)
  moreover have "bit (unat b) 7 \<longleftrightarrow> 128 \<le> unat b"
  proof -
    have "unat b < 256" using unsigned_less [where 'a = nat, of b] by simp
    then have "unat b div 128 = (if 128 \<le> unat b then 1 else 0)" by auto
    then show ?thesis by (simp add: bit_iff_odd)
  qed
  ultimately show ?thesis by simp
qed

lemma ucast_byte_id: "len \<le> 0xFF \<Longrightarrow> ucast (ucast len :: u8) = (len :: u32)"
proof -
  assume "len \<le> 0xFF"
  then have "unat len < 2 ^ 8" by (simp add: word_le_nat_alt)
  then have "bit len n \<Longrightarrow> n < 8" for n
    by (rule bit_lt)
  then show ?thesis
    by (intro bit_word_eqI) (auto simp: bit_simps)
qed

lemma ucast_two_bytes:
  assumes "len \<le> 0xFFFF"
  shows "push_bit 8 (ucast (ucast (drop_bit 8 len AND 0xFF) :: u8))
     OR ucast (ucast (len AND 0xFF) :: u8) = (len :: u32)"
proof -
  have "unat len < 2 ^ 16" using assms by (simp add: word_le_nat_alt)
  then have b: "bit len n \<Longrightarrow> n < 16" for n
    by (rule bit_lt)
  have m: "(0xFF :: u32) = mask 8" by (simp add: mask_eq_exp_minus_1)
  show ?thesis unfolding m
    by (intro bit_word_eqI) (auto simp: bit_simps dest: b)
qed

section \<open>Step relations\<close>

text \<open>An invariant of a step relation holds after any number of steps.\<close>

locale kept_invariant =
  fixes step :: "'s \<Rightarrow> 's \<Rightarrow> bool" and inv :: "'s \<Rightarrow> bool"
  assumes step_keeps: "step s t \<Longrightarrow> inv s \<Longrightarrow> inv t"
begin

lemma reach_keeps: "step\<^sup>*\<^sup>* s t \<Longrightarrow> inv s \<Longrightarrow> inv t"
  by (induction rule: rtranclp_induct) (blast intro: step_keeps)+

lemma run_keeps: "(step ^^ n) s t \<Longrightarrow> inv s \<Longrightarrow> inv t"
  by (blast intro: reach_keeps relpowp_imp_rtranclp)

end

end
