(* ===== verification/Errors.thy ===== *)
theory Errors
  imports Prelude
begin

text \<open>
  The error codes of the program (\<^verbatim>\<open>src/src/error_codes.h\<close>, the category in \<^verbatim>\<open>src/src/applutil.cpp\<close>)
  and the outcome of an operation that may raise: an \<open>option\<close> for undefined behaviour around a sum
  with the exceptions on the left.
\<close>

datatype error_t =
    success | certificate_invalid | certificate_name_invalid | certificate_name_unknown
  | certificate_names_mismatch | connection_name_unknown | connection_name_invalid
  | certificate_not_found | url_unknown | parse_file_failed | logon_username_password_invalid
  | logon_account_blocked | logon_failed | logon_no_response | thread_already_running
  | socket_invalid | file_failed_copy | unknown_error

text \<open>The table the header expands to; the message of the last entry is the null pointer.\<close>

definition ecp :: "(error_t \<times> string option) list" where
  "ecp =
     [(success, Some ''''),
      (certificate_invalid, Some ''invalid certificate''),
      (certificate_name_invalid, Some ''certificate name invalid''),
      (certificate_name_unknown, Some ''certificate name unknown''),
      (certificate_names_mismatch, Some ''certificate names mismatch''),
      (connection_name_unknown, Some ''connection name unknown''),
      (connection_name_invalid, Some ''connection name invalid''),
      (certificate_not_found, Some ''certificate not found''),
      (url_unknown, Some ''unknown URL''),
      (parse_file_failed, Some ''parse file failed''),
      (logon_username_password_invalid, Some ''username or password invalid''),
      (logon_account_blocked, Some ''account blocked''),
      (logon_failed, Some ''logon failed''),
      (logon_no_response, Some ''no response''),
      (thread_already_running, Some ''thread already running''),
      (socket_invalid, Some ''invalid socket''),
      (file_failed_copy, Some ''failed to copy file''),
      (unknown_error, None)]"

text \<open>The value of an enumerator is its position in the list of enumerators.\<close>

fun position :: "'a \<Rightarrow> 'a list \<Rightarrow> nat" where
  "position x [] = 0"
| "position x (y # ys) = (if x = y then 0 else Suc (position x ys))"

definition error_value :: "error_t \<Rightarrow> int" where
  "error_value e = int (position e (map fst ecp))"

text \<open>The loop of \<^verbatim>\<open>category_impl::message\<close>.\<close>

fun message_loop :: "(error_t \<times> string option) list \<Rightarrow> int \<Rightarrow> string" where
  "message_loop ((e, Some msg) # es) ev = (if error_value e = ev then msg else message_loop es ev)"
| "message_loop _ ev = ''unknown error''"

definition category_message :: "int \<Rightarrow> string" where
  "category_message ev = message_loop ecp ev"

section \<open>Exceptions\<close>

text \<open>
  The exceptions the code raises or lets pass. \<open>bad_value_cast\<close> is raised by the JSON library,
  \<open>bad_lexical_cast\<close> by boost, \<open>asio_error\<close> by a socket operation.
\<close>

datatype exn =
    runtime_error string | system_error error_t string | bad_value_cast | bad_lexical_cast
  | asio_error string | interrupt_exception | reload_exception

type_synonym 'a outcome = "(exn + 'a) option"

definition ret :: "'a \<Rightarrow> 'a outcome" where
  "ret x = Some (Inr x)"

definition raise :: "exn \<Rightarrow> 'a outcome" where
  "raise e = Some (Inl e)"

text \<open>Sequencing: an exception or undefined behaviour ends the computation.\<close>

definition after :: "'a outcome \<Rightarrow> ('a \<Rightarrow> 'b outcome) \<Rightarrow> 'b outcome" where
  "after r f = (case r of None \<Rightarrow> None | Some (Inl e) \<Rightarrow> Some (Inl e) | Some (Inr x) \<Rightarrow> f x)"

lemma after_simps [simp]:
  "after (ret x) f = f x" "after (raise e) f = raise e" "after None f = None"
  by (simp_all add: after_def ret_def raise_def)

lemma after_ret [simp]: "after r ret = r"
  by (simp add: after_def ret_def split: option.splits sum.splits)

lemma after_assoc: "after (after r f) g = after r (\<lambda>x. after (f x) g)"
  by (simp add: after_def split: option.splits sum.splits)

lemma after_cong [cong]: "r = r' \<Longrightarrow> (\<And>x. r' = ret x \<Longrightarrow> f x = g x) \<Longrightarrow> after r f = after r' g"
  by (simp add: after_def ret_def split: option.splits sum.splits)

lemma ret_raise [simp]: "ret x = ret y \<longleftrightarrow> x = y" "ret x \<noteq> raise e" "raise e \<noteq> ret x"
  "raise e = raise e' \<longleftrightarrow> e = e'" "ret x \<noteq> None" "raise e \<noteq> None" "None \<noteq> ret x" "None \<noteq> raise e"
  by (simp_all add: ret_def raise_def)

lemma after_eq_ret: "after r f = ret y \<longleftrightarrow> (\<exists>x. r = ret x \<and> f x = ret y)"
  by (auto simp: after_def ret_def split: option.splits sum.splits)

text \<open>
  Every error of the program has its own text: the message of a code is the one its table entry
  gives, and a number that is no code, like the closing entry, has the text \<^verbatim>\<open>unknown error\<close>.
\<close>

theorem category_message_correct:
  "((e, Some msg) \<in> set ecp \<longrightarrow> category_message (error_value e) = msg)
   \<and> (ev \<notin> error_value ` (UNIV - {unknown_error}) \<longrightarrow> category_message ev = ''unknown error'')"
proof (intro conjI impI)
  show "(e, Some msg) \<in> set ecp \<Longrightarrow> category_message (error_value e) = msg"
    by (auto simp: ecp_def category_message_def error_value_def)
  assume no: "ev \<notin> error_value ` (UNIV - {unknown_error})"
  have "message_loop (butlast ecp @ [(unknown_error, None)]) ev = ''unknown error''"
  proof -
    have "(\<forall>e \<in> set (map fst es). e \<noteq> unknown_error) \<Longrightarrow>
        message_loop (es @ [(unknown_error, None)]) ev = ''unknown error''" for es
      using no by (induction es ev rule: message_loop.induct) auto
    moreover have "\<forall>e \<in> set (map fst (butlast ecp)). e \<noteq> unknown_error" by (simp add: ecp_def)
    ultimately show ?thesis by blast
  qed
  moreover have "butlast ecp @ [(unknown_error, None)] = ecp" by (simp add: ecp_def)
  ultimately show "category_message ev = ''unknown error''" by (simp add: category_message_def)
qed

theorem category_message_correct_witness:
  "category_message (error_value logon_failed) = ''logon failed''"
  using category_message_correct [of logon_failed "''logon failed''" 0] by (simp add: ecp_def)

end
