(* ===== verification/AsnCodec.thy ===== *)
theory AsnCodec
  imports Errors
begin

text \<open>
  The byte codec of the GateHouse messages, \<^verbatim>\<open>src/libs/gatehouse/pghpinternalbase.h\<close> and
  \<^verbatim>\<open>src/libs/gatehouse/pghpinternalbase.cpp\<close>: tag-length-value items in the style of ASN.1 inside a
  byte vector, and the hexadecimal text form the vector travels in. Build operations append to
  the vector. Parse operations take the vector and the \<^verbatim>\<open>int16_t\<close> read offset and return the
  success flag and the new values of their reference parameters; \<open>None\<close> is undefined behaviour
  (a read outside the vector, a shift by the width of \<^verbatim>\<open>int\<close> or more).
\<close>

section \<open>Tags and message types\<close>

abbreviation ASN_INTEGER :: u8 where "ASN_INTEGER \<equiv> 0x02"
abbreviation ASN_DOUBLE :: u8 where "ASN_DOUBLE \<equiv> 0x03"
abbreviation ASN_STR :: u8 where "ASN_STR \<equiv> 0x06"
abbreviation ASN_DATETIME :: u8 where "ASN_DATETIME \<equiv> 0x07"
abbreviation ASN_LONG_LEN :: u8 where "ASN_LONG_LEN \<equiv> 0x80"

text \<open>
  The enumeration of message types. The code casts any decoded \<^verbatim>\<open>int32_t\<close> to it; \<open>AISMESGINT_cast\<close>
  stands for a value that is not one of the enumerators.
\<close>

datatype AisMesgInternalType =
    AISMESGINT_UNKNOWN | AISMESGINT_LOGON_REQUEST | AISMESGINT_LOGON_REPLY
  | AISMESGINT_LOGOFF_REQUEST | AISMESGINT_STARTDATA_REQUEST | AISMESGINT_STOPDATA_REQUEST
  | AISMESGINT_UPDATE_INTERVAL | AISMESGINT_DROP_SSL_CONNECTION | AISMESGINT_ADD_SERVER
  | AISMESGINT_CLEAR_SERVERLIST | AISMESGINT_STATUS_SET_OBJECT_STATE
  | AISMESGINT_STATUS_REMOVE_OBJECT | AISMESGINT_STATUS_ADD_TEXTMSG
  | AISMESGINT_STATUS_REMOVE_TEXTMSG | AISMESGINT_CHANGE_PASSWORD_REQUEST
  | AISMESGINT_CHANGE_PASSWORD_REPLY | AISMESGINT_CHANGE_PASSWORD_COMMAND
  | AISMESGINT_HTMLSTAT_REPORT | AISMESGINT_LSSUSER_STATUS | AISMESGINT_LSS_STATUS
  | AISMESGINT_INTERNAL_CONNECTION | AISMESGINT_HTMLSTAT_CLIENTSTATE | AISMESGINT_PROXY_FILTER
  | AISMESGINT_PROXY_ACCESS_RIGHTS | AISMESGINT_AREA_LIST | AISMESGINT_LB_COMMAND
  | AISMESGINT_MOVE_PROXY | AISMESGINT_GAD_ACCESS_RIGHTS | AISMESGINT_GAD_PARAMETERS
  | AISMESGINT_WDOG_DATA | AISMESGINT_WDOG_CONTROL | AISMESGINT_ADD_SERVER_LIST
  | AISMESGINT_STATUS_MESSAGE | AISMESGINT_GAD_SEND_INFO | AISMESGINT_CLOCK_SYNC
  | AISMESGINT_CLOCK_SYNC_INTERVAL | AISMESGINT_TIME_STAMP_METHOD
  | AISMESGINT_DOWNSAMPLE_INTERVAL | AISMESGINT_MAPSERVER_STATUS | AISMESGINT_RADAR_HEADER
  | AISMESGINT_TRACK | AISMESGINT_cast i32

definition internal_types :: "AisMesgInternalType list" where
  "internal_types =
     [AISMESGINT_UNKNOWN, AISMESGINT_LOGON_REQUEST, AISMESGINT_LOGON_REPLY,
      AISMESGINT_LOGOFF_REQUEST, AISMESGINT_STARTDATA_REQUEST, AISMESGINT_STOPDATA_REQUEST,
      AISMESGINT_UPDATE_INTERVAL, AISMESGINT_DROP_SSL_CONNECTION, AISMESGINT_ADD_SERVER,
      AISMESGINT_CLEAR_SERVERLIST, AISMESGINT_STATUS_SET_OBJECT_STATE,
      AISMESGINT_STATUS_REMOVE_OBJECT, AISMESGINT_STATUS_ADD_TEXTMSG,
      AISMESGINT_STATUS_REMOVE_TEXTMSG, AISMESGINT_CHANGE_PASSWORD_REQUEST,
      AISMESGINT_CHANGE_PASSWORD_REPLY, AISMESGINT_CHANGE_PASSWORD_COMMAND,
      AISMESGINT_HTMLSTAT_REPORT, AISMESGINT_LSSUSER_STATUS, AISMESGINT_LSS_STATUS,
      AISMESGINT_INTERNAL_CONNECTION, AISMESGINT_HTMLSTAT_CLIENTSTATE, AISMESGINT_PROXY_FILTER,
      AISMESGINT_PROXY_ACCESS_RIGHTS, AISMESGINT_AREA_LIST, AISMESGINT_LB_COMMAND,
      AISMESGINT_MOVE_PROXY, AISMESGINT_GAD_ACCESS_RIGHTS, AISMESGINT_GAD_PARAMETERS,
      AISMESGINT_WDOG_DATA, AISMESGINT_WDOG_CONTROL, AISMESGINT_ADD_SERVER_LIST,
      AISMESGINT_STATUS_MESSAGE, AISMESGINT_GAD_SEND_INFO, AISMESGINT_CLOCK_SYNC,
      AISMESGINT_CLOCK_SYNC_INTERVAL, AISMESGINT_TIME_STAMP_METHOD,
      AISMESGINT_DOWNSAMPLE_INTERVAL, AISMESGINT_MAPSERVER_STATUS, AISMESGINT_RADAR_HEADER,
      AISMESGINT_TRACK]"

definition type_code :: "AisMesgInternalType \<Rightarrow> i32" where
  "type_code t = (case t of AISMESGINT_cast c \<Rightarrow> c | _ \<Rightarrow> of_nat (position t internal_types))"

definition type_of_code :: "i32 \<Rightarrow> AisMesgInternalType" where
  "type_of_code c =
     (if unat c < length internal_types then internal_types ! unat c else AISMESGINT_cast c)"

section \<open>Building items\<close>

definition BuildLength :: "u8 list \<Rightarrow> u32 \<Rightarrow> u8 list" where
  "BuildLength d len =
     (if len < 0x80 then d @ [ucast len]
      else if len \<le> 0xFF then d @ [0x01 OR ASN_LONG_LEN] @ [ucast len]
      else d @ [0x02 OR ASN_LONG_LEN] @ [ucast (drop_bit 8 len AND 0xFF)]
             @ [ucast (len AND 0xFF)])"

definition BuildHeader :: "u8 list \<Rightarrow> u8 \<Rightarrow> u32 \<Rightarrow> u8 list" where
  "BuildHeader d typ len = BuildLength (d @ [typ]) len"

definition BuildString :: "u8 list \<Rightarrow> u8 \<Rightarrow> string \<Rightarrow> u8 list" where
  "BuildString d typ s = BuildHeader d typ (of_nat (length s)) @ map byte_of s"

text \<open>
  \<^verbatim>\<open>BuildInt\<close> first strips leading bytes (the first loop), then writes the header and emits the
  remaining bytes from the top (the second loop).
\<close>

abbreviation strip_mask :: u32 where "strip_mask \<equiv> 0xFF800000"
abbreviation top_mask :: u32 where "top_mask \<equiv> 0xFF000000"

fun strip_loop :: "i32 \<Rightarrow> nat \<Rightarrow> i32 \<times> nat" where
  "strip_loop res sz =
     (if (res AND strip_mask = 0 \<or> res AND strip_mask = strip_mask) \<and> sz > 1
      then strip_loop (push_bit 8 (res AND NOT strip_mask)) (sz - 1)
      else (res, sz))"

fun emit_loop :: "nat \<Rightarrow> i32 \<Rightarrow> u8 list \<Rightarrow> u8 list" where
  "emit_loop 0 res d = d"
| "emit_loop (Suc n) res d =
     emit_loop n (push_bit 8 (res AND NOT top_mask)) (d @ [ucast (drop_bit 24 (res AND top_mask))])"

declare strip_loop.simps [simp del]

definition BuildInt :: "u8 list \<Rightarrow> u8 \<Rightarrow> i32 \<Rightarrow> u8 list" where
  "BuildInt d typ x =
     (case strip_loop x 4 of (res, sz) \<Rightarrow> emit_loop sz res (BuildHeader d typ (of_nat sz)))"

text \<open>
  \<^verbatim>\<open>BuildDouble\<close> copies the eight bytes of the object representation, lowest address first; the
  representation is the argument.
\<close>

definition BuildDouble :: "u8 list \<Rightarrow> u8 \<Rightarrow> u64 \<Rightarrow> u8 list" where
  "BuildDouble d typ v = (d @ [typ]) @ map (\<lambda>i. ucast (drop_bit (8 * i) v)) [0..<8]"

section \<open>Parsing items\<close>

text \<open>Reading one byte of the vector.\<close>

definition rd :: "u8 list \<Rightarrow> int \<Rightarrow> u8 option" where
  "rd d off = (if to_size off < int (length d) then Some (d ! nat off) else None)"

fun len_loop :: "u8 list \<Rightarrow> int \<Rightarrow> nat \<Rightarrow> nat \<Rightarrow> u32 \<Rightarrow> u32 option" where
  "len_loop d off 0 cnt len = Some len"
| "len_loop d off (Suc i) cnt len =
     (if 32 \<le> 8 * cnt then None
      else case rd d (off + 1 + int i) of None \<Rightarrow> None
           | Some b \<Rightarrow> len_loop d off i (Suc cnt) (len OR push_bit (8 * cnt) (ucast b)))"

definition ParseLength :: "u8 list \<Rightarrow> int \<Rightarrow> u32 \<Rightarrow> (bool \<times> int \<times> u32) option" where
  "ParseLength d off len =
     (if int (length d) \<le> to_size off then Some (False, off, len)
      else
        let b = d ! nat off in
        if b AND ASN_LONG_LEN \<noteq> 0 then
          let n = unat (b AND NOT ASN_LONG_LEN) in
          if n = 0 then Some (False, off, len)
          else if n > 8 then Some (False, off, len)
          else if int (length d) \<le> to_size (off + int n) then Some (False, off, len)
          else map_option (\<lambda>l. (True, wrap16 (off + int n + 1), l)) (len_loop d off n 0 0)
        else Some (True, wrap16 (off + 1), ucast b))"

definition ParseHeader :: "u8 list \<Rightarrow> int \<Rightarrow> u8 \<Rightarrow> u32 \<Rightarrow> (bool \<times> int \<times> u8 \<times> u32) option" where
  "ParseHeader d off typ len =
     (if int (length d) \<le> to_size off then Some (False, off, typ, len)
      else map_option (\<lambda>(ok, off', len'). (ok, off', d ! nat off, len'))
             (ParseLength d (wrap16 (off + 1)) len))"

text \<open>The copying loop of \<^verbatim>\<open>ParseString\<close>: \<open>n\<close> bytes are appended to the string.\<close>

function read_chars :: "u8 list \<Rightarrow> int \<Rightarrow> nat \<Rightarrow> string \<Rightarrow> (int \<times> string) option" where
  "read_chars d off n s =
     (if n = 0 then Some (off, s)
      else case rd d off of None \<Rightarrow> None
           | Some b \<Rightarrow> read_chars d (wrap16 (off + 1)) (n - 1) (s @ [char_of_byte b]))"
  by pat_completeness auto
termination by (relation "measure (\<lambda>(d, off, n, s). n)") auto

declare read_chars.simps [simp del]

definition ParseString :: "u8 list \<Rightarrow> int \<Rightarrow> u8 \<Rightarrow> string \<Rightarrow> (bool \<times> int \<times> u8 \<times> string) option" where
  "ParseString d off typ s =
     (if int (length d) \<le> to_size off then Some (False, off, typ, s)
      else
        let typ' = d ! nat off in
        case ParseLength d (wrap16 (off + 1)) 0 of
          None \<Rightarrow> None
        | Some (False, off', _) \<Rightarrow> Some (False, off', typ', s)
        | Some (True, off', len) \<Rightarrow>
            if int (length d) < to_u32 (off' + uint len) then Some (False, off', typ', s)
            else map_option (\<lambda>(off2, s'). (True, off2, typ', s')) (read_chars d off' (unat len) s))"

text \<open>The shifting loop of \<^verbatim>\<open>ParseInt\<close>.\<close>

fun int_loop :: "u8 list \<Rightarrow> int \<Rightarrow> nat \<Rightarrow> i32 \<Rightarrow> (int \<times> i32) option" where
  "int_loop d off 0 x = Some (off, x)"
| "int_loop d off (Suc n) x =
     (case rd d off of None \<Rightarrow> None
      | Some b \<Rightarrow> int_loop d (wrap16 (off + 1)) n (push_bit 8 x OR ucast b))"

definition ParseInt :: "u8 list \<Rightarrow> int \<Rightarrow> u8 \<Rightarrow> i32 \<Rightarrow> (bool \<times> int \<times> u8 \<times> i32) option" where
  "ParseInt d off typ x =
     (if int (length d) \<le> to_size off then Some (False, off, typ, x)
      else
        let typ' = d ! nat off in
        case ParseLength d (wrap16 (off + 1)) 0 of
          None \<Rightarrow> None
        | Some (False, off', _) \<Rightarrow> Some (False, off', typ', x)
        | Some (True, off', len) \<Rightarrow>
            if len = 0 \<or> len > 4 then Some (False, off', typ', x)
            else if int (length d) < to_u32 (off' + uint len) then Some (False, off', typ', x)
            else
              case rd d off' of None \<Rightarrow> None
              | Some b \<Rightarrow>
                  map_option (\<lambda>(off2, x'). (True, off2, typ', x'))
                    (int_loop d off' (unat len) (if b AND 0x80 \<noteq> 0 then -1 else 0)))"

definition ParseDouble :: "u8 list \<Rightarrow> int \<Rightarrow> u8 \<Rightarrow> u64 \<Rightarrow> (bool \<times> int \<times> u8 \<times> u64) option" where
  "ParseDouble d off typ v =
     (if int (length d) \<le> to_size off then Some (False, off, typ, v)
      else
        let typ' = d ! nat off; off' = wrap16 (off + 1) in
        if int (length d) < to_u32 (off' + 8) then Some (False, off', typ', v)
        else if to_size off' + 8 \<le> int (length d) then
          Some (True, wrap16 (off' + 8), typ',
            foldr (\<lambda>i acc. push_bit 8 acc OR ucast (d ! (nat off' + i))) [0..<8] 0)
        else None)"

section \<open>The named fields of a message\<close>

definition EncodeString :: "u8 list \<Rightarrow> string \<Rightarrow> string \<Rightarrow> u8 list" where
  "EncodeString d name s = BuildString (BuildString d ASN_STR name) ASN_STR s"

definition EncodeInteger :: "u8 list \<Rightarrow> string \<Rightarrow> i32 \<Rightarrow> u8 list" where
  "EncodeInteger d name x = BuildInt (BuildString d ASN_STR name) ASN_INTEGER x"

text \<open>The space-optimised variants carry no name.\<close>

definition EncodeInteger_short :: "u8 list \<Rightarrow> i32 \<Rightarrow> u8 list" where
  "EncodeInteger_short d x = BuildInt d ASN_INTEGER x"

definition EncodeDouble :: "u8 list \<Rightarrow> u64 \<Rightarrow> u8 list" where
  "EncodeDouble d v = BuildDouble d ASN_DOUBLE v"

text \<open>
  \<^verbatim>\<open>EncodeDateTime\<close> writes the fields of a \<^verbatim>\<open>ptime\<close>; the arguments are the values its accessors
  return.
\<close>

definition EncodeDateTime ::
    "u8 list \<Rightarrow> string \<Rightarrow> i32 \<Rightarrow> i32 \<Rightarrow> i32 \<Rightarrow> i32 \<Rightarrow> i32 \<Rightarrow> i32 \<Rightarrow> u8 list" where
  "EncodeDateTime d name year month day hours minutes seconds =
     foldl (\<lambda>d x. BuildInt d ASN_INTEGER x) (BuildString d ASN_DATETIME name)
       [year, month, day, hours, minutes, seconds, 0]"

definition EncodeHeader :: "u8 list \<Rightarrow> AisMesgInternalType \<Rightarrow> u8 list" where
  "EncodeHeader d t = BuildInt d ASN_INTEGER (type_code t)"

text \<open>
  The decoders ignore the success flags of the parsers they call and keep the values the parsers
  left behind. The name of an integer field is read and dropped; the name of a string field is
  compared, but a difference is only logged.
\<close>

definition DecodeInteger :: "u8 list \<Rightarrow> int \<Rightarrow> i32 \<Rightarrow> (int \<times> i32) option" where
  "DecodeInteger d off x =
     (case ParseString d off 0 [] of None \<Rightarrow> None
      | Some (_, off1, typ1, _) \<Rightarrow>
          map_option (\<lambda>(_, off2, _, x'). (off2, x')) (ParseInt d off1 typ1 x))"

definition DecodeInteger_short :: "u8 list \<Rightarrow> int \<Rightarrow> i32 \<Rightarrow> (int \<times> i32) option" where
  "DecodeInteger_short d off x =
     map_option (\<lambda>(_, off2, _, x'). (off2, x')) (ParseInt d off 0 x)"

definition DecodeDouble :: "u8 list \<Rightarrow> int \<Rightarrow> u64 \<Rightarrow> (int \<times> u64) option" where
  "DecodeDouble d off v =
     map_option (\<lambda>(_, off2, _, v'). (off2, v')) (ParseDouble d off 0 v)"

definition DecodeString :: "u8 list \<Rightarrow> int \<Rightarrow> string \<Rightarrow> (int \<times> string) option" where
  "DecodeString d off s =
     (case ParseString d off 0 [] of None \<Rightarrow> None
      | Some (_, off1, typ1, _) \<Rightarrow>
          map_option (\<lambda>(_, off2, _, s'). (off2, s')) (ParseString d off1 typ1 s))"

definition DecodeHeader ::
    "u8 list \<Rightarrow> int \<Rightarrow> AisMesgInternalType \<Rightarrow> (int \<times> AisMesgInternalType) option" where
  "DecodeHeader d off t =
     map_option (\<lambda>(_, off2, _, x). (off2, if t = AISMESGINT_UNKNOWN then type_of_code x else t))
       (ParseInt d off 0 0)"

section \<open>The hexadecimal text form\<close>

text \<open>\<^verbatim>\<open>sprintf("%02X")\<close> of a byte.\<close>

definition hex_digit :: "nat \<Rightarrow> char" where
  "hex_digit n = ''0123456789ABCDEF'' ! n"

definition hex2 :: "u8 \<Rightarrow> string" where
  "hex2 b = [hex_digit (unat b div 16), hex_digit (unat b mod 16)]"

definition Byte2Ascii :: "u8 list \<Rightarrow> string \<Rightarrow> string" where
  "Byte2Ascii d s = foldl (\<lambda>s b. s @ hex2 b) s d"

definition hex_value :: "char \<Rightarrow> int option" where
  "hex_value c =
     (let n = of_char c :: int in
      if 48 \<le> n \<and> n \<le> 57 then Some (n - 48)
      else if 65 \<le> n \<and> n \<le> 70 then Some (n - 55)
      else if 97 \<le> n \<and> n \<le> 102 then Some (n - 87)
      else None)"

text \<open>
  \<^verbatim>\<open>sscanf("%02X")\<close> on a buffer of two characters, the target initialised with zero: leading white
  space is skipped, a sign may come first, then up to the remaining width of hexadecimal digits.
  A failed conversion leaves the zero; a bare \<^verbatim>\<open>0x\<close> gives zero as well.
\<close>

definition scan_hex2 :: "char \<Rightarrow> char \<Rightarrow> int" where
  "scan_hex2 a b =
     (let one = (\<lambda>c. case hex_value c of None \<Rightarrow> 0 | Some v \<Rightarrow> v) in
      if is_space a then one b
      else if a = CHR ''+'' then one b
      else if a = CHR ''-'' then - one b
      else case hex_value a of
             None \<Rightarrow> 0
           | Some v \<Rightarrow> (case hex_value b of None \<Rightarrow> v | Some w \<Rightarrow> 16 * v + w))"

text \<open>Pairs of characters; past the end of an odd string \<^verbatim>\<open>operator[]\<close> reads the terminating zero.\<close>

fun Ascii2Byte :: "u8 list \<Rightarrow> string \<Rightarrow> u8 list" where
  "Ascii2Byte d [] = d"
| "Ascii2Byte d [a] = d @ [of_int (scan_hex2 a (CHR 0x00))]"
| "Ascii2Byte d (a # b # s) = Ascii2Byte (d @ [of_int (scan_hex2 a b)]) s"

text \<open>The base class: \<^verbatim>\<open>Decode\<close> reads the header only, \<^verbatim>\<open>Encode\<close> does nothing and returns false.\<close>

definition InternalBase_Decode :: "AisMesgInternalType \<Rightarrow> string \<Rightarrow> AisMesgInternalType option" where
  "InternalBase_Decode t s = map_option snd (DecodeHeader (Ascii2Byte [] s) 0 t)"

section \<open>Items as appended byte strings\<close>

text \<open>Every build operation appends; the appended bytes do not depend on what is there.\<close>

lemma BuildLength_append: "BuildLength d len = d @ BuildLength [] len"
  by (simp add: BuildLength_def)

lemma BuildHeader_append: "BuildHeader d typ len = d @ typ # BuildLength [] len"
  by (simp add: BuildHeader_def BuildLength_append [of "d @ [typ]"])

lemma BuildString_append:
  "BuildString d typ s = d @ typ # BuildLength [] (of_nat (length s)) @ map byte_of s"
  by (simp add: BuildString_def BuildHeader_append)

lemma emit_loop_append: "emit_loop n res d = d @ emit_loop n res []"
proof (induction n arbitrary: res d)
  case (Suc n)
  show ?case
    by (simp add: Suc [of _ "d @ _"] Suc [of _ "[_]"])
qed simp

lemma BuildInt_append: "BuildInt d typ x = d @ BuildInt [] typ x"
  by (simp add: BuildInt_def split: prod.split)
     (metis BuildHeader_append append.assoc append_Nil emit_loop_append)

section \<open>Reading an item back\<close>

text \<open>
  \<open>at d off rest\<close>: the offset is a proper position of the vector, the bytes from there on are
  \<open>rest\<close>, and the vector is short enough for a sixteen-bit offset.
\<close>

definition at :: "u8 list \<Rightarrow> int \<Rightarrow> u8 list \<Rightarrow> bool" where
  "at d off rest \<longleftrightarrow> 0 \<le> off \<and> nat off \<le> length d \<and> drop (nat off) d = rest \<and> length d < 32768"

lemma at_start: "length d < 32768 \<Longrightarrow> at d 0 d"
  by (simp add: at_def)

lemma at_off: "at d off rest \<Longrightarrow> off = int (length d) - int (length rest)"
  by (auto simp: at_def)

lemma at_bounds:
  "at d off rest \<Longrightarrow> 0 \<le> off \<and> off + int (length rest) = int (length d) \<and> int (length d) < 32768"
  by (auto simp: at_def)

lemma at_advance: "at d off (e @ rest) \<Longrightarrow> at d (off + int (length e)) rest"
proof -
  assume a: "at d off (e @ rest)"
  then have "nat (off + int (length e)) = nat off + length e"
    by (auto simp: at_def nat_add_distrib)
  moreover have "drop (nat off + length e) d = rest"
    using a by (metis add.commute append_eq_conv_conj at_def drop_drop)
  moreover have "nat off + length e \<le> length d"
    using a at_bounds [OF a] by auto
  ultimately show ?thesis
    using a by (simp add: at_def)
qed

lemma at_Cons: "at d off (b # rest) \<Longrightarrow> at d (off + 1) rest"
  using at_advance [of d off "[b]" rest] by simp

lemma at_nth: "at d off rest \<Longrightarrow> i < length rest \<Longrightarrow> d ! (nat off + i) = rest ! i"
  by (auto simp: at_def)

lemma at_rd:
  assumes "at d off rest" "i < length rest"
  shows "rd d (off + int i) = Some (rest ! i)"
proof -
  have "off + int i < int (length d)" "0 \<le> off" "int (length d) < 32768"
    using at_bounds [OF assms(1)] assms by (auto simp: at_def)
  then show ?thesis
    using at_nth [OF assms] by (simp add: rd_def nat_add_distrib)
qed

lemma at_hd: "at d off (b # rest) \<Longrightarrow> to_size off < int (length d) \<and> d ! nat off = b \<and> wrap16 (off + 1) = off + 1"
  using at_bounds [of d off "b # rest"] at_nth [of d off "b # rest" 0] by (auto simp: at_def)

lemma at_rd0: "at d off (b # rest) \<Longrightarrow> rd d off = Some b"
  using at_rd [of d off "b # rest" 0] by simp

lemma length_BuildLength: "length (BuildLength [] len) = (if len < 0x80 then 1 else if len \<le> 0xFF then 2 else 3)"
  by (simp add: BuildLength_def)

lemma ParseLength_short:
  assumes a: "at d off (ucast len # rest)" and l: "len < 0x80"
  shows "ParseLength d off l0 = Some (True, off + 1, len)"
proof -
  have id: "ucast (ucast len :: u8) = len"
    using l by (intro ucast_byte_id) (simp add: word_le_nat_alt word_less_nat_alt)
  have "unat (ucast len :: u8) < 128"
    using l by (simp add: unsigned_ucast_eq unsigned_take_bit_eq word_less_nat_alt take_bit_eq_mod)
  then have nb: "(ucast len :: u8) AND 0x80 = 0" using high_bit_iff [of "ucast len"] by simp
  with id at_hd [OF a] show ?thesis
    by (simp add: ParseLength_def Let_def)
qed

lemma ParseLength_long1:
  assumes a: "at d off (0x81 # b # rest)"
  shows "ParseLength d off l0 = Some (True, off + 2, ucast b)"
proof -
  have "to_size (off + 1) = off + 1" "off + 1 < int (length d)" "wrap16 (2 + off) = off + 2" "wrap16 (off + 2) = off + 2"
    using at_bounds [OF a] by auto
  moreover have "rd d (off + 1) = Some b" using at_rd [OF a, of 1] by simp
  moreover have "len_loop d off 1 0 0 = Some (ucast b)"
    using calculation by simp
  ultimately show ?thesis
    using at_hd [OF a] by (simp add: ParseLength_def Let_def)
qed

lemma ParseLength_long2:
  assumes a: "at d off (0x82 # b # c # rest)"
  shows "ParseLength d off l0 = Some (True, off + 3, push_bit 8 (ucast b) OR ucast c)"
proof -
  have "to_size (off + 2) = off + 2" "off + 2 < int (length d)" "wrap16 (3 + off) = off + 3" "wrap16 (off + 3) = off + 3"
    using at_bounds [OF a] by auto
  moreover have "rd d (off + 1) = Some b" "rd d (2 + off) = Some c" "rd d (off + 2) = Some c"
    using at_rd [OF a, of 1] at_rd [OF a, of 2] by (simp_all add: add.commute)
  moreover have "len_loop d off 2 0 0 = Some (push_bit 8 (ucast b) OR ucast c)"
    using calculation by (simp add: numeral_2_eq_2 or.commute)
  ultimately show ?thesis
    using at_hd [OF a] by (simp add: ParseLength_def Let_def)
qed

lemma ParseLength_Build:
  assumes a: "at d off (BuildLength [] len @ rest)" and l: "len \<le> 0xFFFF"
  shows "ParseLength d off l0 = Some (True, off + int (length (BuildLength [] len)), len)"
proof -
  consider "len < 0x80" | "\<not> len < 0x80" "len \<le> 0xFF" | "\<not> len < 0x80" "\<not> len \<le> 0xFF"
    by blast
  then show ?thesis
  proof cases
    case 1
    with a ParseLength_short [of d off len rest] show ?thesis by (simp add: BuildLength_def)
  next
    case 2
    with a ParseLength_long1 [of d off "ucast len" rest] ucast_byte_id show ?thesis
      by (simp add: BuildLength_def)
  next
    case 3
    with a l ParseLength_long2 [of d off _ _ rest] ucast_two_bytes [OF l] show ?thesis
      by (simp add: BuildLength_def)
  qed
qed

lemma read_chars_map:
  assumes "at d off (map byte_of t @ rest)"
  shows "read_chars d off (length t) s = Some (off + int (length t), s @ t)"
  using assms
proof (induction t arbitrary: off s)
  case Nil
  then show ?case by (subst read_chars.simps) simp
next
  case (Cons c t)
  have "at d (off + 1) (map byte_of t @ rest)" using Cons.prems by (auto dest: at_Cons)
  then have "read_chars d (off + 1) (length t) (s @ [c]) = Some (off + 1 + int (length t), s @ [c] @ t)"
    using Cons.IH by simp
  moreover have "rd d off = Some (byte_of c)" "wrap16 (off + 1) = off + 1"
    using Cons.prems at_rd0 at_hd by fastforce+
  ultimately show ?case by (subst read_chars.simps) (simp add: add.assoc)
qed

lemma ParseString_Build:
  assumes a: "at d off (BuildString [] typ t @ rest)"
  shows "ParseString d off typ0 s
     = Some (True, off + int (length (BuildString [] typ t)), typ, s @ t)"
proof -
  let ?len = "of_nat (length t) :: u32"
  let ?L = "BuildLength [] ?len"
  have a': "at d off (typ # ?L @ map byte_of t @ rest)"
    using a by (simp add: BuildString_append)
  have bnd: "length t < 32768"
    using at_bounds [OF a'] by auto
  then have u: "unat ?len = length t" by (simp add: unat_of_nat)
  then have len: "?len \<le> 0xFFFF" using bnd by (simp add: word_le_nat_alt)
  have a1: "at d (off + 1) (?L @ map byte_of t @ rest)" by (rule at_Cons [OF a'])
  have a2: "at d (off + 1 + int (length ?L)) (map byte_of t @ rest)" by (rule at_advance [OF a1])
  have "off + 1 + int (length ?L) + uint ?len \<le> int (length d)"
    using at_bounds [OF a2] u by (simp add: uint_nat)
  moreover have "0 \<le> off" "int (length d) < 32768" using at_bounds [OF a'] by auto
  moreover have "0 \<le> uint ?len" by simp
  ultimately have guard: "\<not> int (length d) < to_u32 (off + 1 + int (length ?L) + uint ?len)"
    by simp
  show ?thesis
    using at_hd [OF a'] ParseLength_Build [OF a1 len, of 0] read_chars_map [OF a2, of s] guard
    by (simp add: ParseString_def Let_def u BuildString_append add.assoc)
qed

abbreviation shift_in :: "i32 \<Rightarrow> u8 list \<Rightarrow> i32" where
  "shift_in \<equiv> foldl (\<lambda>x b. push_bit 8 x OR ucast b)"

lemma int_loop_bytes:
  "at d off (bs @ rest) \<Longrightarrow> int_loop d off (length bs) x = Some (off + int (length bs), shift_in x bs)"
proof (induction bs arbitrary: off x)
  case (Cons b bs)
  have "at d (off + 1) (bs @ rest)" using Cons.prems by (auto dest: at_Cons)
  moreover have "rd d off = Some b" "wrap16 (off + 1) = off + 1"
    using Cons.prems at_rd0 at_hd by fastforce+
  ultimately show ?case using Cons.IH by (simp add: add.assoc)
qed simp

lemma length_emit_loop [simp]: "length (emit_loop n r d) = length d + n"
  by (induction n r d rule: emit_loop.induct) auto

lemma top_mask_eq: "top_mask = NOT (mask 24)"
  by (simp add: mask_eq_exp_minus_1 not_eq_complement)

lemma strip_mask_eq: "strip_mask = NOT (mask 23)"
  by (simp add: mask_eq_exp_minus_1 not_eq_complement)

lemma sign_byte: "(ucast (drop_bit 24 (r AND top_mask)) :: u8) AND 0x80 \<noteq> 0 \<longleftrightarrow> bit (r :: u32) 31"
proof -
  have "(ucast (drop_bit 24 (r AND top_mask)) :: u8) AND 2 ^ 7 = 0
     \<longleftrightarrow> \<not> bit (ucast (drop_bit 24 (r AND top_mask)) :: u8) 7"
    by (rule and_exp_eq_0_iff_not_bit)
  then show ?thesis
    unfolding top_mask_eq by (simp add: bit_simps)
qed

lemma emit_loop_eq:
  assumes "n \<le> 4"
  shows "emit_loop n r [] = map (\<lambda>k. ucast (drop_bit (24 - 8 * k) r)) [0..<n]"
  using assms
proof (induction n arbitrary: r)
  case (Suc n)
  let ?r = "push_bit 8 (r AND NOT top_mask)"
  have hd: "ucast (drop_bit 24 (r AND top_mask)) = (ucast (drop_bit 24 r) :: u8)"
    unfolding top_mask_eq by (intro bit_word_eqI) (auto simp: bit_simps)
  have tl: "ucast (drop_bit (24 - 8 * k) ?r) = (ucast (drop_bit (24 - 8 * Suc k) r) :: u8)"
    if "k < n" for k
  proof (intro bit_word_eqI)
    fix i assume "i < LENGTH(8)"
    moreover have "24 - 8 * k = 8 + (24 - 8 * Suc k)" "k < 3" using that Suc.prems by auto
    ultimately show "bit (ucast (drop_bit (24 - 8 * k) ?r) :: u8) i
        = bit (ucast (drop_bit (24 - 8 * Suc k) r) :: u8) i"
      unfolding top_mask_eq by (auto simp: bit_simps)
  qed
  have "emit_loop (Suc n) r [] = ucast (drop_bit 24 r) # emit_loop n ?r []"
    by (simp only: emit_loop.simps emit_loop_append [of n ?r "[] @ _"] hd) simp
  also have "emit_loop n ?r [] = map (\<lambda>k. ucast (drop_bit (24 - 8 * Suc k) r)) [0..<n]"
    using Suc tl by simp
  finally show ?case
    by (simp add: upt_conv_Cons map_Suc_upt [symmetric] del: upt_Suc)
qed simp

lemma idx: "16 \<le> i \<Longrightarrow> 24 + (i - 16) = 8 + i" for i :: nat
  by simp

lemma shift_in_emit:
  assumes n: "n \<in> {1, 2, 3, 4}"
  shows "shift_in (if bit r 31 then -1 else 0) (emit_loop n r []) = signed_drop_bit (32 - 8 * n) r"
proof -
  have upts: "[0..<1] = [0]" "[0..<2] = [0, 1]" "[0..<3] = [0, 1, 2]" "[0..<4] = [0, 1, 2, 3 :: nat]"
    by (simp_all add: upt_rec)
  have e: "emit_loop n r [] = map (\<lambda>k. ucast (drop_bit (24 - 8 * k) r)) [0..<n]"
    using n by (intro emit_loop_eq) auto
  show ?thesis
    using n unfolding e
    by (elim insertE; (simp only: upts list.map foldl.simps)?; intro bit_word_eqI)
       (auto simp: bit_simps not_less, (rule ccontr, simp add: not_less idx)+)
qed

lemma signed_drop_push:
  fixes y :: i32
  assumes "unat y < 2 ^ (31 - m)" "m \<le> 31"
  shows "signed_drop_bit m (push_bit m y) = y"
proof (intro bit_word_eqI)
  fix i assume i: "i < LENGTH(32)"
  have "bit y j \<Longrightarrow> j < 31 - m" for j by (rule bit_lt [OF assms(1)])
  from this [of i] this [of "31 - m"] show "bit (signed_drop_bit m (push_bit m y)) i = bit y i"
    using i assms(2) by (auto simp: bit_simps)
qed

lemma strip_loop_small:
  assumes "unat y < 2 ^ (31 - 8 * k)" "k \<le> 3"
  shows "\<exists>r n. strip_loop (push_bit (8 * k) y) (4 - k) = (r, n) \<and> n \<in> {1, 2, 3, 4}
    \<and> signed_drop_bit (32 - 8 * n) r = y"
  using assms
proof (induction "3 - k" arbitrary: k)
  case 0
  then have "k = 3" by simp
  have "strip_loop (push_bit 24 y) 1 = (push_bit 24 y, 1)" by (subst strip_loop.simps) simp
  with signed_drop_push [of y 24] 0 \<open>k = 3\<close> show ?case by simp
next
  case (Suc m)
  let ?r = "push_bit (8 * k) y"
  have k: "k < 3" using Suc by simp
  have yb: "bit y j \<Longrightarrow> j < 31 - 8 * k" for j by (rule bit_lt [OF Suc.prems(1)])
  have "\<not> bit ?r 31" using yb [of "31 - 8 * k"] by (auto simp: bit_simps)
  then have "bit (?r AND strip_mask) 31 \<noteq> bit strip_mask 31"
    unfolding strip_mask_eq by (simp add: bit_simps)
  then have "?r AND strip_mask \<noteq> strip_mask" by metis
  show ?case
  proof (cases "?r AND strip_mask = 0")
    case False
    with \<open>?r AND strip_mask \<noteq> strip_mask\<close> have "strip_loop ?r (4 - k) = (?r, 4 - k)"
      by (subst strip_loop.simps) simp
    moreover have "32 - 8 * (4 - k) = 8 * k" "4 - k \<in> {1, 2, 3, 4}" using k by auto
    ultimately show ?thesis using signed_drop_push [of y "8 * k"] Suc.prems by auto
  next
    case True
    have low: "j < 23" if "bit ?r j" for j
    proof (rule ccontr)
      assume "\<not> j < 23"
      moreover have "j < 32" using bit_imp_le_length [OF that] by simp
      ultimately have "bit (?r AND strip_mask) j"
        using that unfolding strip_mask_eq by (simp add: bit_simps)
      with True show False by simp
    qed
    have next_r: "push_bit 8 (?r AND NOT strip_mask) = push_bit (8 * Suc k) y"
      unfolding strip_mask_eq
    proof (intro bit_word_eqI)
      fix i assume "i < LENGTH(32)"
      moreover have "bit ?r (i - 8) \<longrightarrow> i - 8 < 23" using low by blast
      ultimately show "bit (push_bit 8 (?r AND NOT (NOT (mask 23)))) i = bit (push_bit (8 * Suc k) y) i"
        by (auto simp: bit_simps)
    qed
    have ylt: "unat y < 2 ^ (31 - 8 * Suc k)"
    proof (rule unat_lt_bits)
      fix j assume "bit y j"
      with yb have "bit ?r (8 * k + j)" by (fastforce simp: bit_simps)
      with low show "j < 31 - 8 * Suc k" by fastforce
    qed
    have "strip_loop ?r (4 - k) = strip_loop (push_bit 8 (?r AND NOT strip_mask)) (4 - k - 1)"
    proof -
      have "4 - k > 1" using k by simp
      with True show ?thesis by (subst strip_loop.simps) (simp only: simp_thms if_True)
    qed
    also have "\<dots> = strip_loop (push_bit (8 * Suc k) y) (4 - Suc k)"
      unfolding next_r by simp
    finally show ?thesis using Suc.hyps(1) [of "Suc k"] Suc.hyps(2) ylt k by simp
  qed
qed


text \<open>What the two loops of \<^verbatim>\<open>BuildInt\<close> and the loop of \<^verbatim>\<open>ParseInt\<close> make of a value.\<close>

definition int_image :: "i32 \<Rightarrow> i32" where
  "int_image x = (if x AND strip_mask = strip_mask then x AND NOT strip_mask else x)"

lemma strip_loop_image:
  obtains r n where "strip_loop x 4 = (r, n)" "n \<in> {1, 2, 3, 4}"
    "signed_drop_bit (32 - 8 * n) r = int_image x"
proof -
  have "\<exists>r n. strip_loop x 4 = (r, n) \<and> n \<in> {1, 2, 3, 4} \<and> signed_drop_bit (32 - 8 * n) r = int_image x"
  proof (cases "x AND strip_mask = strip_mask")
    case True
    let ?y = "x AND NOT strip_mask"
    have "unat ?y < 2 ^ (31 - 8 * 1)"
      by (rule unat_lt_bits) (simp add: strip_mask_eq bit_simps)
    moreover have "strip_loop x 4 = strip_loop (push_bit (8 * 1) ?y) (4 - 1)"
      using True by (subst strip_loop.simps) simp
    ultimately show ?thesis using strip_loop_small [of ?y 1] True by (simp add: int_image_def)
  next
    case ne: False
    show ?thesis
    proof (cases "x AND strip_mask = 0")
      case True
      have "unat x < 2 ^ (31 - 8 * 0)"
      proof (rule unat_lt_bits)
        fix n assume b: "bit x n"
        show "n < 31 - 8 * 0"
        proof (rule ccontr)
          assume "\<not> n < 31 - 8 * 0"
          with b have "bit (x AND strip_mask) n" using bit_imp_le_length [OF b]
            unfolding strip_mask_eq by (simp add: bit_simps)
          with True show False by simp
        qed
      qed
      from strip_loop_small [OF this] ne show ?thesis by (simp add: int_image_def)
    next
      case False
      with ne have "strip_loop x 4 = (x, 4)" by (subst strip_loop.simps) simp
      with ne show ?thesis by (simp add: int_image_def)
    qed
  qed
  then show ?thesis using that by blast
qed

lemma ParseInt_Build:
  assumes a: "at d off (BuildInt [] typ x @ rest)"
  shows "ParseInt d off typ0 x0 = Some (True, off + int (length (BuildInt [] typ x)), typ, int_image x)"
proof -
  obtain r n where s: "strip_loop x 4 = (r, n)" and n: "n \<in> {1, 2, 3, 4}"
    and im: "signed_drop_bit (32 - 8 * n) r = int_image x"
    by (rule strip_loop_image)
  let ?len = "of_nat n :: u32" and ?bs = "emit_loop n r []"
  have L: "BuildLength [] ?len = [of_nat n]" using n by (auto simp: BuildLength_def)
  have enc: "BuildInt [] typ x = typ # of_nat n # ?bs"
    by (simp add: BuildInt_def s BuildHeader_append L emit_loop_append [of n r "[typ, of_nat n]"])
  have a': "at d off (typ # of_nat n # ?bs @ rest)" using a by (simp add: enc)
  have a1: "at d (off + 1) (BuildLength [] ?len @ ?bs @ rest)" using at_Cons [OF a'] by (simp add: L)
  have a2: "at d (off + 2) (?bs @ rest)" using at_advance [OF a1] by (simp add: L add.commute)
  have "length ?bs \<noteq> 0" using n by (simp only: length_emit_loop) auto
  then obtain b bs where bs: "?bs = b # bs" by (cases ?bs) auto
  have "b = ucast (drop_bit 24 (r AND top_mask))"
    using n bs by (cases n) (auto simp: emit_loop_append [of _ _ "[_]"])
  then have sb: "b AND 0x80 \<noteq> 0 \<longleftrightarrow> bit r 31" using sign_byte by simp
  have u: "unat ?len = n" "uint ?len = int n" "?len \<noteq> 0" "\<not> ?len > 4" using n by auto
  have "?len \<le> 0xFFFF" using n by auto
  note pl = ParseLength_Build [OF a1 this, of 0]
  have g: "\<not> int (length d) < to_u32 (off + 2 + int n)" using at_bounds [OF a2] by simp
  have loop: "int_loop d (off + 2) n (if b AND 0x80 \<noteq> 0 then -1 else 0)
      = Some (off + 2 + int n, int_image x)"
    using int_loop_bytes [OF a2] shift_in_emit [OF n, of r] unfolding sb by (simp add: im)
  have "rd d (off + 2) = Some b" using a2 at_rd0 bs by simp
  with pl at_hd [OF a'] g loop u show ?thesis
    by (simp add: ParseInt_def Let_def L enc add.assoc)
qed

section \<open>Named fields\<close>

text \<open>
  The contract the message classes rely on: a field is appended, and the decoder started at the
  field returns its value (combined with the previous contents of the target) and leaves the
  offset behind the field.
\<close>

locale field_codec =
  fixes enc :: "u8 list \<Rightarrow> string \<Rightarrow> 'a \<Rightarrow> u8 list"
    and dec :: "u8 list \<Rightarrow> int \<Rightarrow> 'a \<Rightarrow> (int \<times> 'a) option"
    and img :: "'a \<Rightarrow> 'a \<Rightarrow> 'a"
  assumes enc_append: "enc d name x = d @ enc [] name x"
    and dec_enc: "at d off (enc [] name x @ rest) \<Longrightarrow>
      dec d off old = Some (off + int (length (enc [] name x)), img old x)"
begin

lemma dec_step:
  assumes "at d off (enc [] name x @ rest)"
  obtains off' where "dec d off old = Some (off', img old x)" "at d off' rest"
  using dec_enc [OF assms] at_advance [OF assms] by blast

end

lemma EncodeInteger_append: "EncodeInteger d name x = d @ EncodeInteger [] name x"
  by (simp add: EncodeInteger_def BuildString_append [of d] BuildString_append [of "[]"]
      BuildInt_append [of "d @ _"] BuildInt_append [of "ASN_STR # _"])

lemma EncodeString_append: "EncodeString d name x = d @ EncodeString [] name x"
  by (simp add: EncodeString_def BuildString_append)

lemma DecodeInteger_Encode:
  assumes "at d off (EncodeInteger [] name x @ rest)"
  shows "DecodeInteger d off old = Some (off + int (length (EncodeInteger [] name x)), int_image x)"
proof -
  have e: "EncodeInteger [] name x = BuildString [] ASN_STR name @ BuildInt [] ASN_INTEGER x"
    by (simp add: EncodeInteger_def BuildInt_append [of "BuildString [] ASN_STR name"])
  have a: "at d off (BuildString [] ASN_STR name @ BuildInt [] ASN_INTEGER x @ rest)"
    using assms by (simp add: e)
  show ?thesis
    using ParseString_Build [OF a, of 0 "[]"] ParseInt_Build [OF at_advance [OF a]]
    by (simp add: DecodeInteger_def e add.assoc)
qed

lemma DecodeString_Encode:
  assumes "at d off (EncodeString [] name x @ rest)"
  shows "DecodeString d off old = Some (off + int (length (EncodeString [] name x)), old @ x)"
proof -
  have e: "EncodeString [] name x = BuildString [] ASN_STR name @ BuildString [] ASN_STR x"
    by (simp add: EncodeString_def BuildString_append)
  have a: "at d off (BuildString [] ASN_STR name @ BuildString [] ASN_STR x @ rest)"
    using assms by (simp add: e)
  show ?thesis
    using ParseString_Build [OF a, of 0 "[]"] ParseString_Build [OF at_advance [OF a], of ASN_STR old]
    by (simp add: DecodeString_def e add.assoc)
qed

interpretation int_field: field_codec EncodeInteger DecodeInteger "\<lambda>_. int_image"
  by unfold_locales (rule EncodeInteger_append, rule DecodeInteger_Encode)

interpretation str_field: field_codec EncodeString DecodeString "(@)"
  by unfold_locales (rule EncodeString_append, rule DecodeString_Encode)

lemma type_of_code_inverse: "t \<in> set internal_types \<Longrightarrow> type_of_code (type_code t) = t"
  by (auto simp: internal_types_def type_code_def type_of_code_def)

lemma int_image_type_code: "t \<in> set internal_types \<Longrightarrow> int_image (type_code t) = type_code t"
  by (auto simp: internal_types_def type_code_def int_image_def)

lemma DecodeHeader_Encode:
  assumes a: "at d off (EncodeHeader [] t @ rest)" and t: "t \<in> set internal_types"
  shows "DecodeHeader d off t0 = Some (off + int (length (EncodeHeader [] t)),
    if t0 = AISMESGINT_UNKNOWN then t else t0)"
  using ParseInt_Build [of d off ASN_INTEGER "type_code t" rest 0 0] a
    type_of_code_inverse [OF t] int_image_type_code [OF t]
  by (simp add: DecodeHeader_def EncodeHeader_def)

section \<open>Signed values\<close>

lemma sint_if: "sint (x :: i32) = (if uint x < 2 ^ 31 then uint x else uint x - 2 ^ 32)"
proof -
  have "uint x < 2 ^ 32" using uint_lt2p [of x] by simp
  then have "bit (uint x) 31 \<longleftrightarrow> 2 ^ 31 \<le> uint x"
  proof -
    have "uint x div 2 ^ 31 = (if 2 ^ 31 \<le> uint x then 1 else 0)"
      using \<open>uint x < 2 ^ 32\<close> by auto
    then show ?thesis by (simp add: bit_iff_odd)
  qed
  with \<open>uint x < 2 ^ 32\<close> show ?thesis
    by (auto simp: sint_uint signed_take_bit_eq_take_bit_minus take_bit_int_eq_self)
qed

lemma strip_high_iff: "x AND strip_mask = strip_mask \<longleftrightarrow> 2 ^ 32 - 2 ^ 23 \<le> uint (x :: i32)"
proof -
  have lt: "uint x < 2 ^ 32" using uint_lt2p [of x] by simp
  have "x AND strip_mask = strip_mask \<longleftrightarrow> (\<forall>i. 23 \<le> i \<and> i < 32 \<longrightarrow> bit x i)"
    unfolding strip_mask_eq by (auto simp: bit_eq_iff bit_simps)
  also have "\<dots> \<longleftrightarrow> (\<forall>j < 9. bit x (23 + j))"
  proof safe
    fix i :: nat assume "\<forall>j < 9. bit x (23 + j)" "23 \<le> i" "i < 32"
    then show "bit x i" by (auto dest: spec [of _ "i - 23"])
  qed simp
  also have "\<dots> \<longleftrightarrow> drop_bit 23 x = mask 9"
  proof
    assume "drop_bit 23 x = mask 9"
    then have "bit (drop_bit 23 x) j = bit (mask 9 :: i32) j" for j by simp
    then show "\<forall>j < 9. bit x (23 + j)" by (auto simp: bit_simps)
  next
    assume b: "\<forall>j < 9. bit x (23 + j)"
    show "drop_bit 23 x = mask 9"
      by (rule bit_word_eqI) (use b bit_imp_le_length [of x] in \<open>auto simp: bit_simps\<close>, fastforce)
  qed
  also have "\<dots> \<longleftrightarrow> uint x div 2 ^ 23 = 511"
    by (simp add: word_uint_eq_iff drop_bit_eq_div mask_eq_exp_minus_1 uint_div)
  also have "\<dots> \<longleftrightarrow> 2 ^ 32 - 2 ^ 23 \<le> uint x" using lt by auto
  finally show ?thesis .
qed

lemma sint_int_image:
  "sint (int_image x) = (if - (2 ^ 23) \<le> sint x \<and> sint x < 0 then sint x + 2 ^ 23 else sint x)"
proof (cases "x AND strip_mask = strip_mask")
  case True
  then have ge: "2 ^ 32 - 2 ^ 23 \<le> uint x" by (simp add: strip_high_iff)
  have lt: "uint x < 2 ^ 32" using uint_lt2p [of x] by simp
  have "x AND NOT strip_mask = take_bit 23 x" unfolding strip_mask_eq by (simp add: take_bit_eq_mask)
  then have "uint (int_image x) = uint x mod 2 ^ 23"
    using True by (simp add: int_image_def take_bit_eq_mod uint_mod)
  also have "\<dots> = (uint x - (2 ^ 32 - 2 ^ 23) + 511 * 2 ^ 23) mod 2 ^ 23" by simp
  also have "\<dots> = uint x - (2 ^ 32 - 2 ^ 23)"
    unfolding mod_mult_self1 using ge lt by (intro mod_pos_pos_trivial) auto
  finally show ?thesis using ge lt by (simp add: sint_if)
next
  case False
  then have "uint x < 2 ^ 32 - 2 ^ 23" by (simp add: strip_high_iff)
  with False show ?thesis by (auto simp: int_image_def sint_if)
qed

section \<open>Memory safety of the parsers\<close>

text \<open>
  A length field of at most three bytes keeps the parsers inside the vector. \<open>short_len d off\<close>
  says that the byte at \<open>off\<close>, where there is one, does not announce four bytes or more.
\<close>

definition short_len :: "u8 list \<Rightarrow> int \<Rightarrow> bool" where
  "short_len d off \<longleftrightarrow> (off < int (length d) \<longrightarrow> d ! nat off < 0x84)"

lemma len_loop_short:
  assumes "0 \<le> off" "off + int n < int (length d)" "int (length d) < 32768" "cnt + n \<le> 3" "unat len < 2 ^ (8 * cnt)"
  shows "\<exists>l. len_loop d off n cnt len = Some l \<and> unat l < 2 ^ 24"
  using assms
proof (induction n arbitrary: cnt len)
  case 0
  then have "(2 :: nat) ^ (8 * cnt) \<le> 2 ^ 24" by (intro power_increasing) auto
  with 0 show ?case by simp
next
  case (Suc n)
  let ?b = "d ! nat (off + 1 + int n)"
  let ?l = "len OR push_bit (8 * cnt) (ucast ?b)"
  have "rd d (off + 1 + int n) = Some ?b" using Suc.prems by (simp add: rd_def)
  moreover have "unat ?l < 2 ^ (8 * Suc cnt)"
  proof (rule unat_lt_bits)
    fix i assume "bit ?l i"
    then consider "bit len i" | "8 * cnt \<le> i" "bit ?b (i - 8 * cnt)" by (auto simp: bit_simps)
    then show "i < 8 * Suc cnt"
      by cases (use bit_lt [OF Suc.prems(5)] bit_imp_le_length [of ?b "i - 8 * cnt"] in fastforce)+
  qed
  ultimately show ?case using Suc.IH [of "Suc cnt" ?l] Suc.prems by simp
qed

lemma ParseLength_safe:
  assumes off: "0 \<le> off" "off < 32768" and len: "int (length d) < 32760" and s: "short_len d off"
  shows "\<exists>ok off' l. ParseLength d off l0 = Some (ok, off', l)
    \<and> (ok \<longrightarrow> 0 \<le> off' \<and> off' \<le> int (length d) \<and> unat l < 2 ^ 24)"
proof (cases "off < int (length d)")
  case False
  with off show ?thesis by (auto simp: ParseLength_def)
next
  case True
  define b n where "b = d ! nat off" and "n = unat (b AND NOT ASN_LONG_LEN)"
  show ?thesis
  proof (cases "b AND ASN_LONG_LEN \<noteq> 0")
    case False
    have "unat b < 256" using unsigned_less [where 'a = nat, of b] by simp
    then have "unat (ucast b :: u32) < 2 ^ 24" by (simp add: unsigned_ucast_eq unsigned_take_bit_eq take_bit_eq_mod)
    with False True off len show ?thesis
      by (auto simp: ParseLength_def Let_def b_def)
  next
    case long: True
    have "b < 0x84" using s True by (simp add: short_len_def b_def)
    then have "unat b < 132" by (simp add: word_less_nat_alt)
    moreover have "128 \<le> unat b" using long high_bit_iff by simp
    ultimately have "unat b \<in> {128, 129, 130, 131}" by auto
    then have "b \<in> {128, 129, 130, 131}" by (auto simp: word_unat_eq_iff)
    then have n: "n \<le> 3" by (auto simp: n_def)
    show ?thesis
    proof (cases "n = 0 \<or> int (length d) \<le> off + int n")
      case True
      with \<open>off < int (length d)\<close> off n long show ?thesis
        unfolding ParseLength_def Let_def b_def [symmetric] n_def [symmetric] by auto
    next
      case False
      with len_loop_short [of off n d 0 0] off len n obtain l
        where "len_loop d off n 0 0 = Some l" "unat l < 2 ^ 24" by auto
      with False \<open>off < int (length d)\<close> off n long len show ?thesis
        unfolding ParseLength_def Let_def b_def [symmetric] n_def [symmetric] by auto
    qed
  qed
qed

lemma read_chars_total:
  "0 \<le> off \<Longrightarrow> off + int n \<le> int (length d) \<Longrightarrow> int (length d) < 32768 \<Longrightarrow> \<exists>r. read_chars d off n s = Some r"
proof (induction n arbitrary: off s)
  case (Suc n)
  then show ?case by (subst read_chars.simps) (simp add: rd_def)
qed (subst read_chars.simps, simp)

lemma int_loop_total:
  "0 \<le> off \<Longrightarrow> off + int n \<le> int (length d) \<Longrightarrow> int (length d) < 32768 \<Longrightarrow> \<exists>r. int_loop d off n x = Some r"
  by (induction n arbitrary: off x) (simp_all add: rd_def)

text \<open>
  C39: on a vector that a sixteen-bit offset can address and whose next item does not announce a
  length of four bytes or more, reading an integer and reading a string stay inside the vector:
  whatever the bytes are, the calls return (with success or with failure) and no byte outside is
  read.
\<close>

theorem parse_memory_safe:
  assumes "0 \<le> off" "off < 32767" "int (length d) < 32760" "short_len d (off + 1)"
  shows "ParseInt d off typ x \<noteq> None \<and> ParseString d off typ str \<noteq> None"
proof -
  obtain ok off' l where pl: "ParseLength d (off + 1) 0 = Some (ok, off', l)"
    and in_d: "ok \<Longrightarrow> 0 \<le> off' \<and> off' \<le> int (length d) \<and> unat l < 2 ^ 24"
    using ParseLength_safe [of "off + 1" d 0] assms by auto
  have w: "wrap16 (off + 1) = off + 1" using assms by simp
  have fits: "off' + int (unat l) \<le> int (length d)"
    if "ok" "\<not> int (length d) < to_u32 (off' + uint l)"
  proof -
    have "unat l < 16777216" using in_d [OF that(1)] by simp
    then have "int (unat l) < int 16777216" by (simp only: of_nat_less_iff)
    then have "uint l < 16777216" by (simp only: uint_nat of_nat_numeral)
    then have "to_u32 (off' + uint l) = off' + uint l"
      using in_d [OF that(1)] assms(3) by (intro to_u32_nonneg) auto
    with that show ?thesis by (simp only: uint_nat)
  qed
  have "ParseString d off typ str \<noteq> None"
  proof -
    have "read_chars d off' (unat l) str \<noteq> None" if "ok" "\<not> int (length d) < to_u32 (off' + uint l)"
      using read_chars_total [of off' "unat l" d str] fits [OF that] in_d [OF that(1)] assms(3) by auto
    then show ?thesis by (cases ok) (auto simp: ParseString_def Let_def w pl)
  qed
  moreover have "ParseInt d off typ x \<noteq> None"
  proof -
    have "int_loop d off' (unat l) y \<noteq> None \<and> rd d off' \<noteq> None"
      if "ok" "\<not> int (length d) < to_u32 (off' + uint l)" "l \<noteq> 0" for y
    proof -
      have "0 < unat l" using that(3) by (simp add: unat_gt_0)
      then have "0 < uint l" by (simp only: uint_nat of_nat_0_less_iff)
      with \<open>0 < unat l\<close> show ?thesis
        using int_loop_total [of off' "unat l" d y] fits [OF that(1,2)] in_d [OF that(1)] assms(3)
        by (auto simp: rd_def)
    qed
    then show ?thesis by (cases ok) (auto simp: ParseInt_def Let_def w pl split: option.split)
  qed
  ultimately show ?thesis by simp
qed

theorem parse_memory_safe_witness:
  "short_len [0x06, 0x05, 0x41] (0 + 1) \<and>
   ParseInt [0x06, 0x05, 0x41] 0 0 0 \<noteq> None \<and> ParseString [0x06, 0x05, 0x41] 0 0 [] \<noteq> None"
  using parse_memory_safe [of 0 "[0x06, 0x05, 0x41]" 0 0 "[]"] by (simp add: short_len_def)


section \<open>Round trips\<close>

lemma at_middle:
  assumes "length (d @ e @ rest) < 32768"
  shows "at (d @ e @ rest) (int (length d)) (e @ rest)"
  using assms by (simp add: at_def)

lemma length_BuildInt: "length (BuildInt d typ x) \<le> length d + 6"
proof -
  obtain r n where "strip_loop x 4 = (r, n)" "n \<in> {1, 2, 3, 4}" by (rule strip_loop_image)
  then show ?thesis by (auto simp: BuildInt_def BuildHeader_append length_BuildLength)
qed

lemma length_BuildString: "length (BuildString d typ s) \<le> length d + length s + 4"
  by (simp add: BuildString_append length_BuildLength)

text \<open>
  An integer field read back. Whatever precedes and follows the field in a vector that a
  sixteen-bit offset can address, \<^verbatim>\<open>ParseInt\<close> started at the item that \<^verbatim>\<open>BuildInt\<close> appended
  succeeds, consumes exactly that item, and returns the value written, except that the stripping
  loop destroys the small negative numbers: a value between \<open>-2^23\<close> and \<open>-1\<close> comes back with
  \<open>2^23\<close> added.
\<close>

theorem int_item_roundtrip:
  assumes "length (BuildInt d typ x @ rest) < 32768"
  shows "\<exists>y. ParseInt (BuildInt d typ x @ rest) (int (length d)) typ0 x0
      = Some (True, int (length (BuildInt d typ x)), typ, y)
    \<and> sint y = (if - (2 ^ 23) \<le> sint x \<and> sint x < 0 then sint x + 2 ^ 23 else sint x)"
proof -
  have e: "BuildInt d typ x = d @ BuildInt [] typ x" by (rule BuildInt_append)
  have "at (d @ BuildInt [] typ x @ rest) (int (length d)) (BuildInt [] typ x @ rest)"
    using assms by (intro at_middle) (simp add: e)
  from ParseInt_Build [OF this, of typ0 x0] show ?thesis
    by (simp add: e sint_int_image)
qed

theorem int_item_roundtrip_witness:
  "length (BuildInt [0x41] 2 300 @ [0x42]) < 32768 \<and>
   (\<exists>y. ParseInt (BuildInt [0x41] 2 300 @ [0x42]) 1 0 0
      = Some (True, int (length (BuildInt [0x41] 2 300)), 2, y) \<and> sint y = 300)"
proof -
  have "length (BuildInt [0x41] 2 300 @ [0x42]) < 32768"
    using length_BuildInt [of "[0x41]" 2 300] by simp
  with int_item_roundtrip [of "[0x41]" 2 300 "[0x42]" 0 0] show ?thesis by simp
qed

text \<open>
  A string field read back: \<^verbatim>\<open>ParseString\<close> started at the item that \<^verbatim>\<open>BuildString\<close>
  appended succeeds, consumes exactly that item, returns its tag and appends exactly the string
  that was written, over all three encodings of the length.
\<close>

theorem string_item_roundtrip:
  assumes "length (BuildString d typ t @ rest) < 32768"
  shows "ParseString (BuildString d typ t @ rest) (int (length d)) typ0 s
    = Some (True, int (length (BuildString d typ t)), typ, s @ t)"
proof -
  have e: "BuildString d typ t = d @ BuildString [] typ t"
    by (simp add: BuildString_append)
  have "at (d @ BuildString [] typ t @ rest) (int (length d)) (BuildString [] typ t @ rest)"
    using assms by (intro at_middle) (simp add: e)
  from ParseString_Build [OF this, of typ0 s] show ?thesis by (simp add: e)
qed

theorem string_item_roundtrip_witness:
  "length (BuildString [0x41] 6 ''Ship'' @ [0x42]) < 32768 \<and>
   ParseString (BuildString [0x41] 6 ''Ship'' @ [0x42]) 1 0 ''>''
     = Some (True, int (length (BuildString [0x41] 6 ''Ship'')), 6, ''>Ship'')"
proof -
  have "length (BuildString [0x41] 6 ''Ship'' @ [0x42]) < 32768" by (simp add: BuildString_append length_BuildLength)
  with string_item_roundtrip [of "[0x41]" 6 "''Ship''" "[0x42]" 0 "''>''"] show ?thesis by simp
qed

section \<open>The text form read back\<close>

lemma hex_digit_value: "n < 16 \<Longrightarrow> hex_value (hex_digit n) = Some (int n)"
proof -
  assume "n < 16"
  then have "n \<in> set [0..<16]" by simp
  moreover have "\<forall>n \<in> set [0..<16]. hex_value (hex_digit n) = Some (int n)"
    by code_simp
  ultimately show ?thesis by blast
qed

lemma hex_digit_plain: "n < 16 \<Longrightarrow> \<not> is_space (hex_digit n) \<and> hex_digit n \<noteq> CHR ''+'' \<and> hex_digit n \<noteq> CHR ''-''"
proof -
  assume "n < 16"
  then have "n \<in> set [0..<16]" by simp
  moreover have "\<forall>n \<in> set [0..<16]. \<not> is_space (hex_digit n) \<and> hex_digit n \<noteq> CHR ''+'' \<and> hex_digit n \<noteq> CHR ''-''"
    by code_simp
  ultimately show ?thesis by blast
qed

lemma scan_hex2_digits:
  "of_int (scan_hex2 (hex_digit (unat b div 16)) (hex_digit (unat b mod 16))) = (b :: u8)"
proof -
  have "unat b < 256" using unsigned_less [where 'a = nat, of b] by simp
  then have d: "unat b div 16 < 16" by auto
  have "scan_hex2 (hex_digit (unat b div 16)) (hex_digit (unat b mod 16))
      = 16 * int (unat b div 16) + int (unat b mod 16)"
    using hex_digit_plain [OF d] hex_digit_value [OF d] hex_digit_value [of "unat b mod 16"]
    unfolding scan_hex2_def Let_def by (auto split: option.splits)
  also have "\<dots> = int (16 * (unat b div 16) + unat b mod 16)"
    by (simp only: of_nat_add of_nat_mult of_nat_numeral)
  also have "\<dots> = int (unat b)" by (simp only: mult_div_mod_eq)
  finally show ?thesis by simp
qed

lemma Byte2Ascii_Cons: "Byte2Ascii (b # d) s = Byte2Ascii d (s @ hex2 b)"
  by (simp add: Byte2Ascii_def)

lemma Byte2Ascii_append: "Byte2Ascii d s = s @ concat (map hex2 d)"
  by (induction d arbitrary: s) (simp_all add: Byte2Ascii_def)

lemma length_Byte2Ascii: "length (Byte2Ascii d []) = 2 * length d"
  by (simp add: Byte2Ascii_append) (induction d, simp_all add: hex2_def)

lemma Ascii2Byte_hex: "Ascii2Byte d (concat (map hex2 e)) = d @ e"
  by (induction e arbitrary: d) (simp_all add: hex2_def scan_hex2_digits)

text \<open>
  The hexadecimal text form loses nothing: the text \<^verbatim>\<open>Byte2Ascii\<close> makes of a byte vector has
  two characters per byte, all of them hexadecimal digits, and \<^verbatim>\<open>Ascii2Byte\<close> reads exactly the
  vector back.
\<close>

theorem hex_roundtrip:
  "Ascii2Byte [] (Byte2Ascii d []) = d \<and> length (Byte2Ascii d []) = 2 * length d
   \<and> list_all (\<lambda>c. hex_value c \<noteq> None) (Byte2Ascii d [])"
proof -
  have "list_all (\<lambda>c. hex_value c \<noteq> None) (hex2 b)" for b
  proof -
    have "unat b < 256" using unsigned_less [where 'a = nat, of b] by simp
    then have d: "unat b div 16 < 16" by auto
    show ?thesis using hex_digit_value [OF d] hex_digit_value [of "unat b mod 16"] by (simp add: hex2_def)
  qed
  then have "list_all (\<lambda>c. hex_value c \<noteq> None) (concat (map hex2 d))"
    by (induction d) auto
  then show ?thesis using length_Byte2Ascii [of d] by (simp add: Byte2Ascii_append Ascii2Byte_hex)
qed

end
