(* ===== verification/XmlUtil.thy ===== *)
theory XmlUtil
  imports Errors
begin

text \<open>
  The vector fields of the GateHouse messages, \<^verbatim>\<open>src/libs/gatehouse/pghpxmlutil.h\<close> and
  \<^verbatim>\<open>src/libs/gatehouse/pghpxmlutil.cpp\<close>: a vector is written as a text with \<^verbatim>\<open>;\<close> after each
  element and split again at the separators. The boost tokenizer and \<^verbatim>\<open>boost::lexical_cast\<close> are
  not part of the repository; they are the arguments \<open>tokenizer\<close> and \<open>cast\<close> (\<open>None\<close> where
  \<^verbatim>\<open>bad_lexical_cast\<close> is raised).
\<close>

section \<open>Writing and splitting\<close>

text \<open>
  \<open>shw\<close> is what \<^verbatim>\<open>operator<<\<close> writes for an element; the stream iterator writes the separator
  after every element.
\<close>

definition CreateVectorValue :: "('a \<Rightarrow> string) \<Rightarrow> 'a list \<Rightarrow> string" where
  "CreateVectorValue shw v = concat (map (\<lambda>x. shw x @ '';'') v)"

text \<open>
  The loop over the tokens that the specialisations share: the element is converted and appended,
  and \<^verbatim>\<open>lastEmpty\<close> remembers whether the token was empty.
\<close>

fun token_loop :: "(string \<Rightarrow> 'a option) \<Rightarrow> string list \<Rightarrow> 'a list \<Rightarrow> bool \<Rightarrow> exn + 'a list \<times> bool" where
  "token_loop cast [] acc lastEmpty = Inr (acc, lastEmpty)"
| "token_loop cast (item # ts) acc lastEmpty =
     (case cast item of
        None \<Rightarrow> Inl bad_lexical_cast
      | Some v \<Rightarrow> token_loop cast ts (acc @ [v]) (item = []))"

definition SplitVectorValue ::
    "(string \<Rightarrow> string list) \<Rightarrow> (string \<Rightarrow> 'a option) \<Rightarrow> string \<Rightarrow> 'a list \<Rightarrow> exn + 'a list" where
  "SplitVectorValue tokenizer cast s tokens =
     (case token_loop cast (tokenizer s) tokens False of
        Inl e \<Rightarrow> Inl e
      | Inr (acc, lastEmpty) \<Rightarrow> Inr (if lastEmpty then butlast acc else acc))"

text \<open>\<^verbatim>\<open>Tokenize\<close>, which the specialisation for strings calls: no conversion, so no error.\<close>

definition Tokenize :: "(string \<Rightarrow> string list) \<Rightarrow> string \<Rightarrow> string list \<Rightarrow> string list" where
  "Tokenize tokenizer s tokens =
     (let ts = tokenizer s in
      if ts \<noteq> [] \<and> last ts = [] then butlast (tokens @ ts) else tokens @ ts)"

section \<open>The documented tokenizer\<close>

text \<open>
  \<^verbatim>\<open>boost::char_separator\<close> with \<^verbatim>\<open>keep_empty_tokens\<close>: the pieces between the separators, the empty
  ones included, so that a text with \<open>n\<close> separators has \<open>n + 1\<close> tokens.
\<close>

fun pieces :: "char \<Rightarrow> string \<Rightarrow> string list" where
  "pieces c [] = [[]]"
| "pieces c (x # xs) =
     (if x = c then [] # pieces c xs
      else case pieces c xs of [] \<Rightarrow> [[x]] | p # ps \<Rightarrow> (x # p) # ps)"

definition keep_empty_tokens :: "(string \<Rightarrow> string list) \<Rightarrow> bool" where
  "keep_empty_tokens tokenizer \<longleftrightarrow> (\<forall>s. tokenizer s = pieces (CHR '';'') s)"

lemma pieces_not_Nil [simp]: "pieces c s \<noteq> []"
  by (induction s) (auto split: list.splits)

lemma pieces_append: "c \<notin> set x \<Longrightarrow> pieces c (x @ c # rest) = x # pieces c rest"
  by (induction x) auto

lemma pieces_Create:
  "\<forall>x \<in> set v. CHR '';'' \<notin> set (shw x) \<Longrightarrow>
     pieces (CHR '';'') (CreateVectorValue shw v) = map shw v @ [[]]"
  by (induction v) (simp_all add: CreateVectorValue_def pieces_append)

lemma pieces_Create_last:
  "\<exists>ps. pieces (CHR '';'') (CreateVectorValue shw v) = ps @ [[]]"
proof (induction v)
  case (Cons x v)
  then obtain ps where ps: "pieces (CHR '';'') (CreateVectorValue shw v) = ps @ [[]]" by blast
  have "\<exists>qs. pieces (CHR '';'') (y @ CHR '';'' # CreateVectorValue shw v) = qs @ [[]]" for y
  proof (induction y)
    case (Cons a y)
    then obtain qs where qs: "pieces (CHR '';'') (y @ CHR '';'' # CreateVectorValue shw v) = qs @ [[]]"
      by blast
    have "pieces (CHR '';'') (y @ CHR '';'' # rest) \<noteq> [[]]" for rest
      by (induction y) (auto split: list.splits)
    with qs have "qs \<noteq> []" by auto
    with qs show ?case by (cases qs) auto
  qed (use ps in auto)
  then show ?case by (simp add: CreateVectorValue_def)
qed (simp add: CreateVectorValue_def)

lemma token_loop_fails: "cast [] = None \<Longrightarrow> token_loop cast (ps @ [[]]) acc l = Inl bad_lexical_cast"
  by (induction ps arbitrary: acc l) (auto split: option.splits)

lemma number_vector_split:
  assumes "keep_empty_tokens tokenizer" and "cast [] = None"
  shows "SplitVectorValue tokenizer cast (CreateVectorValue shw v) tokens = Inl bad_lexical_cast"
proof -
  obtain ps where "tokenizer (CreateVectorValue shw v) = ps @ [[]]"
    using pieces_Create_last [of shw v] assms(1) by (auto simp: keep_empty_tokens_def)
  then show ?thesis using token_loop_fails [of cast ps, OF assms(2)] by (simp add: SplitVectorValue_def)
qed

section \<open>Properties\<close>

text \<open>
  A vector of strings survives the text form: with the tokenizer as documented, splitting what
  \<^verbatim>\<open>CreateVectorValue\<close> wrote appends exactly the elements, whatever they are, as long as none of
  them contains the separator. The trailing empty token is the one that is removed.
\<close>

theorem string_vector_roundtrip:
  assumes "keep_empty_tokens tokenizer" and "\<forall>x \<in> set v. CHR '';'' \<notin> set x"
  shows "Tokenize tokenizer (CreateVectorValue id v) tokens = tokens @ v"
  using assms pieces_Create [of v id] by (simp add: keep_empty_tokens_def Tokenize_def butlast_append)

theorem string_vector_roundtrip_witness:
  "keep_empty_tokens (pieces (CHR '';'')) \<and>
   Tokenize (pieces (CHR '';'')) (CreateVectorValue id [''a'', '''', ''bc'']) [''x''] = [''x'', ''a'', '''', ''bc'']"
  using string_vector_roundtrip [of "pieces (CHR '';'')" "[''a'', '''', ''bc'']" "[''x'']"]
  by (simp add: keep_empty_tokens_def)

end
