(* ===== verification/GhpMessages.thy ===== *)
theory GhpMessages
  imports AsnCodec XmlUtil "HOL-Library.Monad_Syntax"
begin

text \<open>
  The message classes over the byte codec: logon request, logon reply, logoff request, start data
  request and proxy filter, \<^verbatim>\<open>src/libs/gatehouse/pghplogonrequest.cpp\<close>, \<^verbatim>\<open>pghplogonreply.cpp\<close>,
  \<^verbatim>\<open>pghplogoffrequest.cpp\<close>, \<^verbatim>\<open>pghpstartdatarequest.cpp\<close> and \<^verbatim>\<open>pghpproxyfilter.cpp\<close>. A class is a record
  whose first field is the message type its constructor hands to the base class. \<open>Encode\<close> takes the
  object and the target string and returns both; \<open>Decode\<close> takes the object and the text. \<open>None\<close> is
  undefined behaviour inside the codec, as in the codec's theory. The names given to the decoders
  are only compared for the log and are left out.
\<close>

section \<open>The classes\<close>

text \<open>\<^verbatim>\<open>std::tolower\<close> in the C locale, applied by the macro \<^verbatim>\<open>to_lower\<close>.\<close>

definition tolower :: "char \<Rightarrow> char" where
  "tolower c = (let n = of_char c :: nat in if 65 \<le> n \<and> n \<le> 90 then char_of (n + 32) else c)"

definition to_lower :: "string \<Rightarrow> string" where
  "to_lower s = map tolower s"

record logon_request =
  lr_enType :: AisMesgInternalType
  lr_clName :: string
  lr_clPassword :: string
  lr_clVersionString :: string
  lr_clLocalUser :: string
  lr_iVersion :: i32
  lr_iRelogon :: i32
  lr_iProxyType :: i32
  lr_iRetryCounter :: i32

definition LogonRequest_ctor :: logon_request where
  "LogonRequest_ctor =
     \<lparr>lr_enType = AISMESGINT_LOGON_REQUEST, lr_clName = [], lr_clPassword = [],
      lr_clVersionString = [], lr_clLocalUser = [], lr_iVersion = 0, lr_iRelogon = 0,
      lr_iProxyType = 0, lr_iRetryCounter = 0\<rparr>"

definition LogonRequest_Decode :: "logon_request \<Rightarrow> string \<Rightarrow> logon_request option" where
  "LogonRequest_Decode m clData = (let d = Ascii2Byte [] clData in do {
     (off, ty) \<leftarrow> DecodeHeader d 0 (lr_enType m);
     (off, name) \<leftarrow> DecodeString d off (lr_clName m);
     (off, pwd) \<leftarrow> DecodeString d off (lr_clPassword m);
     (off, ver) \<leftarrow> DecodeInteger d off (lr_iVersion m);
     (off, rlog) \<leftarrow> DecodeInteger d off (lr_iRelogon m);
     (off, luser) \<leftarrow> DecodeString d off (lr_clLocalUser m);
     (off, verstr) \<leftarrow> DecodeString d off (lr_clVersionString m);
     (off, ptype) \<leftarrow> DecodeInteger d off (lr_iProxyType m);
     (off, retry) \<leftarrow> DecodeInteger d off (lr_iRetryCounter m);
     Some \<lparr>lr_enType = ty, lr_clName = to_lower name, lr_clPassword = pwd,
           lr_clVersionString = verstr, lr_clLocalUser = luser, lr_iVersion = ver,
           lr_iRelogon = rlog, lr_iProxyType = ptype, lr_iRetryCounter = retry\<rparr>})"

definition LogonRequest_bytes :: "logon_request \<Rightarrow> u8 list" where
  "LogonRequest_bytes m =
     (let d = EncodeHeader [] (lr_enType m);
          d = EncodeString d ''NAME'' (lr_clName m);
          d = EncodeString d ''PWD'' (lr_clPassword m);
          d = EncodeInteger d ''VER'' (lr_iVersion m);
          d = EncodeInteger d ''RLOG'' (lr_iRelogon m);
          d = EncodeString d ''LUSER'' (lr_clLocalUser m);
          d = EncodeString d ''VERSTR'' (lr_clVersionString m);
          d = EncodeInteger d ''TYPE'' (lr_iProxyType m)
      in EncodeInteger d ''RETRY'' (lr_iRetryCounter m))"

definition LogonRequest_Encode :: "logon_request \<Rightarrow> string \<Rightarrow> logon_request \<times> string" where
  "LogonRequest_Encode m clData =
     (let m = m\<lparr>lr_clName := to_lower (lr_clName m)\<rparr> in (m, Byte2Ascii (LogonRequest_bytes m) clData))"

datatype AisLogonReply =
    LOGON_REPLY_OK | LOGON_REPLY_ALLREADY_CONNECTED | LOGON_REPLY_USER_INVALID
  | LOGON_REPLY_PASSWORD_INVALID | LOGON_REPLY_PASSWORD_EXPIRED | LOGON_REPLY_LOCKED
  | LOGON_REPLY_DISABLED | LOGON_REPLY_NO_LSS_GROUP | LOGON_REPLY_LOAD_BALANCE_MOVE
  | LOGON_REPLY_SERVER_BUSY | LOGON_REPLY_cast i32

definition logon_replies :: "AisLogonReply list" where
  "logon_replies =
     [LOGON_REPLY_OK, LOGON_REPLY_ALLREADY_CONNECTED, LOGON_REPLY_USER_INVALID,
      LOGON_REPLY_PASSWORD_INVALID, LOGON_REPLY_PASSWORD_EXPIRED, LOGON_REPLY_LOCKED,
      LOGON_REPLY_DISABLED, LOGON_REPLY_NO_LSS_GROUP, LOGON_REPLY_LOAD_BALANCE_MOVE,
      LOGON_REPLY_SERVER_BUSY]"

definition reply_code :: "AisLogonReply \<Rightarrow> i32" where
  "reply_code r = (case r of LOGON_REPLY_cast c \<Rightarrow> c | _ \<Rightarrow> of_nat (position r logon_replies))"

definition reply_of_code :: "i32 \<Rightarrow> AisLogonReply" where
  "reply_of_code c =
     (if unat c < length logon_replies then logon_replies ! unat c else LOGON_REPLY_cast c)"

record logon_reply =
  rp_enType :: AisMesgInternalType
  rp_enLogonReply :: AisLogonReply
  rp_clNewHost :: string
  rp_iPort :: i32

definition LogonReply_ctor :: logon_reply where
  "LogonReply_ctor =
     \<lparr>rp_enType = AISMESGINT_LOGON_REPLY, rp_enLogonReply = LOGON_REPLY_OK, rp_clNewHost = [],
      rp_iPort = 0\<rparr>"

definition LogonReply_Decode :: "logon_reply \<Rightarrow> string \<Rightarrow> logon_reply option" where
  "LogonReply_Decode m clData = (let d = Ascii2Byte [] clData in do {
     (off, ty) \<leftarrow> DecodeHeader d 0 (rp_enType m);
     (off, tmp) \<leftarrow> DecodeInteger d off 0;
     (off, host) \<leftarrow> DecodeString d off (rp_clNewHost m);
     (off, port) \<leftarrow> DecodeInteger d off (rp_iPort m);
     Some \<lparr>rp_enType = ty, rp_enLogonReply = reply_of_code tmp, rp_clNewHost = host,
           rp_iPort = port\<rparr>})"

definition LogonReply_bytes :: "logon_reply \<Rightarrow> u8 list" where
  "LogonReply_bytes m =
     (let d = EncodeHeader [] (rp_enType m);
          d = EncodeInteger d ''RESULT'' (reply_code (rp_enLogonReply m));
          d = EncodeString d ''NEWHOST'' (rp_clNewHost m)
      in EncodeInteger d ''PORT'' (rp_iPort m))"

definition LogonReply_Encode :: "logon_reply \<Rightarrow> string \<Rightarrow> string" where
  "LogonReply_Encode m clData = Byte2Ascii (LogonReply_bytes m) clData"

record logoff_request =
  lo_enType :: AisMesgInternalType
  lo_iReason :: i32

definition LogoffRequest_ctor :: logoff_request where
  "LogoffRequest_ctor = \<lparr>lo_enType = AISMESGINT_LOGOFF_REQUEST, lo_iReason = 0\<rparr>"

definition LogoffRequest_Decode :: "logoff_request \<Rightarrow> string \<Rightarrow> logoff_request option" where
  "LogoffRequest_Decode m clData = (let d = Ascii2Byte [] clData in do {
     (off, ty) \<leftarrow> DecodeHeader d 0 (lo_enType m);
     (off, reason) \<leftarrow> DecodeInteger d off (lo_iReason m);
     Some \<lparr>lo_enType = ty, lo_iReason = reason\<rparr>})"

definition LogoffRequest_Encode :: "logoff_request \<Rightarrow> string \<Rightarrow> string" where
  "LogoffRequest_Encode m clData =
     Byte2Ascii (EncodeInteger (EncodeHeader [] (lo_enType m)) ''R'' (lo_iReason m)) clData"

text \<open>The start data request has no field of its own; the state is the type alone.\<close>

definition StartDataRequest_ctor :: AisMesgInternalType where
  "StartDataRequest_ctor = AISMESGINT_STARTDATA_REQUEST"

definition StartDataRequest_Decode :: "AisMesgInternalType \<Rightarrow> string \<Rightarrow> AisMesgInternalType option" where
  "StartDataRequest_Decode t clData = (let d = Ascii2Byte [] clData in do {
     (off, ty) \<leftarrow> DecodeHeader d 0 t;
     Some ty})"

definition StartDataRequest_Encode :: "AisMesgInternalType \<Rightarrow> string \<Rightarrow> string" where
  "StartDataRequest_Encode t clData = Byte2Ascii (EncodeHeader [] t) clData"

section \<open>The proxy filter\<close>

text \<open>
  The elements of the user defined area are of a type \<open>'d\<close>: the code only writes them with
  \<^verbatim>\<open>operator<<\<close> (the argument \<open>shw_d\<close>) and reads them with \<^verbatim>\<open>lexical_cast\<close> (the argument \<open>cast_d\<close>).
  \<open>Inl\<close> is the exception of \<^verbatim>\<open>lexical_cast\<close>, which leaves \<^verbatim>\<open>Decode\<close>.
\<close>

record 'd proxy_filter =
  pf_enType :: AisMesgInternalType
  pf_fTimeStamp :: bool
  pf_iUpdateInterval :: i32
  pf_clMessageTypes :: "i32 list"
  pf_fMessageTypesDefined :: bool
  pf_clPredefinedAreas :: "string list"
  pf_fPredefinedAreasDefined :: bool
  pf_clMMSIList :: "i32 list"
  pf_fMMSIListDefined :: bool
  pf_fIncludeMMSIListContent :: bool
  pf_clUserDefinedArea :: "'d list"
  pf_fUserDefinedAreaDefined :: bool

definition of_flag :: "bool \<Rightarrow> i32" where
  "of_flag b = (if b then 1 else 0)"

definition ProxyFilter_bytes ::
    "(i32 \<Rightarrow> string) \<Rightarrow> ('d \<Rightarrow> string) \<Rightarrow> 'd proxy_filter \<Rightarrow> u8 list" where
  "ProxyFilter_bytes shw shw_d m =
     (let d = EncodeHeader [] (pf_enType m);
          d = EncodeInteger d ''TS'' (of_flag (pf_fTimeStamp m));
          d = EncodeInteger d ''UI'' (pf_iUpdateInterval m);
          d = EncodeString d ''MSGS'' (CreateVectorValue shw (pf_clMessageTypes m));
          d = EncodeInteger d ''MESGD'' (of_flag (pf_fMessageTypesDefined m));
          d = EncodeString d ''ML'' (CreateVectorValue shw (pf_clMMSIList m));
          d = EncodeInteger d ''MLD'' (of_flag (pf_fMMSIListDefined m));
          d = EncodeInteger d ''MLC'' (of_flag (pf_fIncludeMMSIListContent m));
          d = EncodeString d ''UAREA'' (CreateVectorValue shw_d (pf_clUserDefinedArea m))
      in EncodeInteger d ''UAREAD'' (of_flag (pf_fUserDefinedAreaDefined m)))"

definition ProxyFilter_Encode ::
    "(i32 \<Rightarrow> string) \<Rightarrow> ('d \<Rightarrow> string) \<Rightarrow> 'd proxy_filter \<Rightarrow> string \<Rightarrow> string" where
  "ProxyFilter_Encode shw shw_d m clData = Byte2Ascii (ProxyFilter_bytes shw shw_d m) clData"

text \<open>One vector field of \<^verbatim>\<open>Decode\<close>: the text is read into an empty string, then split.\<close>

definition decode_vector ::
    "(string \<Rightarrow> string list) \<Rightarrow> (string \<Rightarrow> 'a option) \<Rightarrow> u8 list \<Rightarrow> int \<Rightarrow> 'a list
       \<Rightarrow> (int \<times> 'a list) outcome" where
  "decode_vector tokenizer cast d off v =
     (case DecodeString d off [] of
        None \<Rightarrow> None
      | Some (off', s) \<Rightarrow>
          (case SplitVectorValue tokenizer cast s v of Inl e \<Rightarrow> raise e | Inr v' \<Rightarrow> ret (off', v')))"

definition ProxyFilter_Decode ::
    "(string \<Rightarrow> string list) \<Rightarrow> (string \<Rightarrow> i32 option) \<Rightarrow> (string \<Rightarrow> 'd option)
       \<Rightarrow> 'd proxy_filter \<Rightarrow> string \<Rightarrow> 'd proxy_filter outcome" where
  "ProxyFilter_Decode tokenizer cast cast_d m clData = (let d = Ascii2Byte [] clData in do {
     (off, ty) \<leftarrow> DecodeHeader d 0 (pf_enType m);
     (off, ts) \<leftarrow> DecodeInteger d off 0;
     (off, ui) \<leftarrow> DecodeInteger d off (pf_iUpdateInterval m);
     after (decode_vector tokenizer cast d off (pf_clMessageTypes m)) (\<lambda>(off, msgs). do {
       (off, msgsd) \<leftarrow> DecodeInteger d off ts;
       after (decode_vector tokenizer cast d off (pf_clMMSIList m)) (\<lambda>(off, ml). do {
         (off, mld) \<leftarrow> DecodeInteger d off msgsd;
         (off, mlc) \<leftarrow> DecodeInteger d off mld;
         after (decode_vector tokenizer cast_d d off (pf_clUserDefinedArea m)) (\<lambda>(off, ua). do {
           (off, uad) \<leftarrow> DecodeInteger d off mlc;
           ret ((m\<lparr>pf_enType := ty, pf_fTimeStamp := (ts \<noteq> 0), pf_iUpdateInterval := ui,
             pf_clMessageTypes := msgs, pf_fMessageTypesDefined := (msgsd \<noteq> 0),
             pf_clMMSIList := ml, pf_fMMSIListDefined := (mld \<noteq> 0),
             pf_fIncludeMMSIListContent := (mlc \<noteq> 0), pf_clUserDefinedArea := ua,
             pf_fUserDefinedAreaDefined := (uad \<noteq> 0)\<rparr>))})})})})"

section \<open>Sizes and values\<close>

lemma length_EncodeInteger: "length (EncodeInteger [] name x) \<le> length name + 10"
  using length_BuildInt [of "BuildString [] ASN_STR name" ASN_INTEGER x] length_BuildString [of "[]" ASN_STR name]
  by (simp add: EncodeInteger_def)

lemma length_EncodeString: "length (EncodeString [] name s) \<le> length name + length s + 8"
  using length_BuildString [of "BuildString [] ASN_STR name" ASN_STR s] length_BuildString [of "[]" ASN_STR name]
  by (simp add: EncodeString_def)

lemma length_EncodeHeader: "length (EncodeHeader [] t) \<le> 6"
  using length_BuildInt [of "[]" ASN_INTEGER "type_code t"] by (simp add: EncodeHeader_def)

text \<open>The integers the codec keeps: all but the small negative ones.\<close>

definition int_kept :: "i32 \<Rightarrow> bool" where
  "int_kept x \<longleftrightarrow> 0 \<le> sint x \<or> sint x < - (2 ^ 23)"

lemma int_image_kept: "int_kept x \<Longrightarrow> int_image x = x"
  using sint_int_image [of x] by (intro signed_word_eqI) (auto simp: int_kept_def)

lemma tolower_idem [simp]: "tolower (tolower c) = tolower c"
proof -
  have "n < 256 \<Longrightarrow> of_char (char_of n :: char) = n" for n :: nat by simp
  then show ?thesis by (auto simp: tolower_def Let_def)
qed

lemma to_lower_idem [simp]: "to_lower (to_lower s) = to_lower s"
  by (simp add: to_lower_def)

lemmas append_simps = EncodeInteger_append [of "_ @ _"] EncodeString_append [of "_ @ _"]
  EncodeInteger_append [of "EncodeHeader [] _"] EncodeString_append [of "EncodeHeader [] _"]

lemma LogonRequest_bytes_eq: "LogonRequest_bytes m = EncodeHeader [] (lr_enType m)
   @ EncodeString [] ''NAME'' (lr_clName m) @ EncodeString [] ''PWD'' (lr_clPassword m)
   @ EncodeInteger [] ''VER'' (lr_iVersion m) @ EncodeInteger [] ''RLOG'' (lr_iRelogon m)
   @ EncodeString [] ''LUSER'' (lr_clLocalUser m) @ EncodeString [] ''VERSTR'' (lr_clVersionString m)
   @ EncodeInteger [] ''TYPE'' (lr_iProxyType m) @ EncodeInteger [] ''RETRY'' (lr_iRetryCounter m) @ []"
  by (simp only: LogonRequest_bytes_def Let_def append_simps append_assoc append_Nil2)

lemma LogonRequest_bytes_length:
  "length (LogonRequest_bytes m) \<le> 130 + length (lr_clName m) + length (lr_clPassword m)
     + length (lr_clLocalUser m) + length (lr_clVersionString m)"
  using length_EncodeHeader [of "lr_enType m"]
    length_EncodeString [of "''NAME''" "lr_clName m"] length_EncodeString [of "''PWD''" "lr_clPassword m"]
    length_EncodeInteger [of "''VER''" "lr_iVersion m"] length_EncodeInteger [of "''RLOG''" "lr_iRelogon m"]
    length_EncodeString [of "''LUSER''" "lr_clLocalUser m"]
    length_EncodeString [of "''VERSTR''" "lr_clVersionString m"]
    length_EncodeInteger [of "''TYPE''" "lr_iProxyType m"] length_EncodeInteger [of "''RETRY''" "lr_iRetryCounter m"]
  by (simp add: LogonRequest_bytes_eq)

text \<open>One field of a message: read at its offset, then move on.\<close>

lemma read_string_field:
  assumes "at d off (EncodeString [] name x @ rest)"
    and "\<And>off'. at d off' rest \<Longrightarrow> f off' (old @ x) = r"
  shows "DecodeString d off old \<bind> (\<lambda>(off', s). f off' s) = r"
  using DecodeString_Encode [OF assms(1)] assms(2) [OF at_advance [OF assms(1)]] by simp

lemma read_int_field:
  assumes "at d off (EncodeInteger [] name x @ rest)"
    and "\<And>off'. at d off' rest \<Longrightarrow> f off' (int_image x) = r"
  shows "DecodeInteger d off old \<bind> (\<lambda>(off', s). f off' s) = r"
  using DecodeInteger_Encode [OF assms(1)] assms(2) [OF at_advance [OF assms(1)]] by simp

lemma read_header:
  assumes "at d off (EncodeHeader [] t @ rest)" "t \<in> set internal_types"
    and "\<And>off'. at d off' rest \<Longrightarrow> f off' (if t0 = AISMESGINT_UNKNOWN then t else t0) = r"
  shows "DecodeHeader d off t0 \<bind> (\<lambda>(off', s). f off' s) = r"
  using DecodeHeader_Encode [OF assms(1,2)] assms(3) [OF at_advance [OF assms(1)]] by simp

lemmas read_fields = read_header read_string_field read_int_field

lemma Ascii2Byte_Byte2Ascii: "Ascii2Byte [] (Byte2Ascii d []) = d"
  by (simp add: Byte2Ascii_append Ascii2Byte_hex)

definition logon_request_wf :: "logon_request \<Rightarrow> bool" where
  "logon_request_wf m \<longleftrightarrow> lr_enType m = AISMESGINT_LOGON_REQUEST
     \<and> length (lr_clName m) + length (lr_clPassword m) + length (lr_clLocalUser m)
       + length (lr_clVersionString m) \<le> 32600
     \<and> int_kept (lr_iVersion m) \<and> int_kept (lr_iRelogon m) \<and> int_kept (lr_iProxyType m)
     \<and> int_kept (lr_iRetryCounter m)"

text \<open>
  A logon request arrives as it was sent. When the four texts fit the sixteen-bit offset of
  the decoder and no integer is a small negative number, decoding the text of \<^verbatim>\<open>Encode\<close> into a
  fresh object gives the sender's object back, the user name in lower case on both sides.
\<close>

theorem logon_request_roundtrip:
  assumes "logon_request_wf m"
  shows "LogonRequest_Decode LogonRequest_ctor (snd (LogonRequest_Encode m [])) = Some (fst (LogonRequest_Encode m []))"
proof -
  define m' where "m' = m\<lparr>lr_clName := to_lower (lr_clName m)\<rparr>"
  have "length (LogonRequest_bytes m') < 32768"
    using assms LogonRequest_bytes_length [of m']
    by (simp add: logon_request_wf_def m'_def to_lower_def)
  then obtain d where d: "LogonRequest_bytes m' = d" and a: "at d 0 (LogonRequest_bytes m')"
    using at_start by blast
  have kept: "int_image (lr_iVersion m') = lr_iVersion m'" "int_image (lr_iRelogon m') = lr_iRelogon m'"
    "int_image (lr_iProxyType m') = lr_iProxyType m'" "int_image (lr_iRetryCounter m') = lr_iRetryCounter m'"
    and ty: "lr_enType m' \<in> set internal_types" "lr_enType m' = AISMESGINT_LOGON_REQUEST"
    using assms int_image_kept by (simp_all add: logon_request_wf_def m'_def internal_types_def)
  show ?thesis
    unfolding LogonRequest_Decode_def LogonRequest_Encode_def Let_def snd_conv fst_conv
      m'_def [symmetric] Ascii2Byte_Byte2Ascii d
    by (rule read_header [OF a [unfolded LogonRequest_bytes_eq] ty(1)], (erule read_fields)+)
       (simp add: kept ty LogonRequest_ctor_def, rule logon_request.equality, simp_all add: ty, simp_all add: m'_def)
qed


theorem logon_request_roundtrip_witness:
  "logon_request_wf (LogonRequest_ctor\<lparr>lr_clName := ''Anna'', lr_clPassword := ''x'', lr_iVersion := 2\<rparr>) \<and>
   LogonRequest_Decode LogonRequest_ctor
     (snd (LogonRequest_Encode (LogonRequest_ctor\<lparr>lr_clName := ''Anna'', lr_clPassword := ''x'', lr_iVersion := 2\<rparr>) []))
   = Some (LogonRequest_ctor\<lparr>lr_clName := ''anna'', lr_clPassword := ''x'', lr_iVersion := 2\<rparr>)"
proof -
  have "logon_request_wf (LogonRequest_ctor\<lparr>lr_clName := ''Anna'', lr_clPassword := ''x'', lr_iVersion := 2\<rparr>)"
    by (simp add: logon_request_wf_def LogonRequest_ctor_def int_kept_def)
  moreover have "to_lower ''Anna'' = ''anna''" by code_simp
  ultimately show ?thesis
    using logon_request_roundtrip [of "LogonRequest_ctor\<lparr>lr_clName := ''Anna'', lr_clPassword := ''x'', lr_iVersion := 2\<rparr>"]
    by (simp add: LogonRequest_Encode_def LogonRequest_ctor_def Let_def)
qed

lemma LogonReply_bytes_eq: "LogonReply_bytes m = EncodeHeader [] (rp_enType m)
   @ EncodeInteger [] ''RESULT'' (reply_code (rp_enLogonReply m))
   @ EncodeString [] ''NEWHOST'' (rp_clNewHost m) @ EncodeInteger [] ''PORT'' (rp_iPort m) @ []"
  by (simp only: LogonReply_bytes_def Let_def append_simps append_assoc append_Nil2)

lemma LogonReply_bytes_length: "length (LogonReply_bytes m) \<le> 60 + length (rp_clNewHost m)"
  using length_EncodeHeader [of "rp_enType m"]
    length_EncodeInteger [of "''RESULT''" "reply_code (rp_enLogonReply m)"]
    length_EncodeString [of "''NEWHOST''" "rp_clNewHost m"] length_EncodeInteger [of "''PORT''" "rp_iPort m"]
  by (simp add: LogonReply_bytes_eq)

lemma reply_code_image: "r \<in> set logon_replies \<Longrightarrow> reply_of_code (int_image (reply_code r)) = r"
  by (auto simp: logon_replies_def reply_code_def reply_of_code_def int_image_def)

lemma LogonReply_Decode_Encode:
  assumes "rp_enType m = AISMESGINT_LOGON_REPLY" and "rp_enLogonReply m \<in> set logon_replies"
    and "length (rp_clNewHost m) \<le> 32700" and "int_kept (rp_iPort m)"
  shows "LogonReply_Decode LogonReply_ctor (LogonReply_Encode m []) = Some m"
proof -
  have "length (LogonReply_bytes m) < 32768" using assms(3) LogonReply_bytes_length [of m] by simp
  then obtain d where d: "LogonReply_bytes m = d" and a: "at d 0 (LogonReply_bytes m)"
    using at_start by blast
  have ty: "rp_enType m \<in> set internal_types" using assms(1) by (simp add: internal_types_def)
  show ?thesis
    unfolding LogonReply_Decode_def LogonReply_Encode_def Let_def Ascii2Byte_Byte2Ascii d
    by (rule read_header [OF a [unfolded LogonReply_bytes_eq] ty], (erule read_fields)+)
       (simp add: assms int_image_kept reply_code_image LogonReply_ctor_def)
qed

lemma InternalBase_LogonReply:
  assumes "rp_enType m = AISMESGINT_LOGON_REPLY" and "length (rp_clNewHost m) \<le> 32700"
  shows "InternalBase_Decode AISMESGINT_UNKNOWN (LogonReply_Encode m []) = Some AISMESGINT_LOGON_REPLY"
proof -
  have "length (LogonReply_bytes m) < 32768" using assms(2) LogonReply_bytes_length [of m] by simp
  then obtain d where d: "LogonReply_bytes m = d" and a: "at d 0 (LogonReply_bytes m)"
    using at_start by blast
  have ty: "rp_enType m \<in> set internal_types" using assms(1) by (simp add: internal_types_def)
  show ?thesis
    using DecodeHeader_Encode [OF a [unfolded LogonReply_bytes_eq] ty, of AISMESGINT_UNKNOWN]
    by (simp add: InternalBase_Decode_def LogonReply_Encode_def Ascii2Byte_Byte2Ascii d assms(1))
qed

text \<open>
  Every answer of a server reaches the client as it was meant: whichever of the ten replies was
  sent, with any host name that fits the offset and any port the codec keeps, the client decodes
  exactly the object the server encoded.
\<close>

theorem logon_reply_roundtrip:
  assumes "rp_enType m = AISMESGINT_LOGON_REPLY" and "rp_enLogonReply m \<in> set logon_replies"
    and "length (rp_clNewHost m) \<le> 32700" and "int_kept (rp_iPort m)"
  shows "LogonReply_Decode LogonReply_ctor (LogonReply_Encode m []) = Some m"
  using assms by (rule LogonReply_Decode_Encode)

theorem logon_reply_roundtrip_witness:
  "LogonReply_Decode LogonReply_ctor (LogonReply_Encode
     \<lparr>rp_enType = AISMESGINT_LOGON_REPLY, rp_enLogonReply = LOGON_REPLY_LOCKED, rp_clNewHost = ''h'', rp_iPort = 99\<rparr> [])
   = Some \<lparr>rp_enType = AISMESGINT_LOGON_REPLY, rp_enLogonReply = LOGON_REPLY_LOCKED, rp_clNewHost = ''h'', rp_iPort = 99\<rparr>"
  by (rule logon_reply_roundtrip) (simp_all add: logon_replies_def int_kept_def)

text \<open>
  The two short requests: a logoff request keeps its reason and a start data request is
  recognised, by its own class and by the base class that a receiver uses to find the type.
\<close>

theorem short_requests_roundtrip:
  assumes "int_kept (lo_iReason m)" and "lo_enType m = AISMESGINT_LOGOFF_REQUEST"
  shows "LogoffRequest_Decode LogoffRequest_ctor (LogoffRequest_Encode m []) = Some m
    \<and> InternalBase_Decode AISMESGINT_UNKNOWN (LogoffRequest_Encode m []) = Some AISMESGINT_LOGOFF_REQUEST
    \<and> InternalBase_Decode AISMESGINT_UNKNOWN (StartDataRequest_Encode StartDataRequest_ctor [])
      = Some AISMESGINT_STARTDATA_REQUEST"
proof -
  let ?b = "EncodeHeader [] (lo_enType m) @ EncodeInteger [] ''R'' (lo_iReason m) @ []"
  have e: "EncodeInteger (EncodeHeader [] (lo_enType m)) ''R'' (lo_iReason m) = ?b"
    by (simp only: append_simps append_Nil2)
  have "length ?b < 32768"
    using length_EncodeHeader [of "lo_enType m"] length_EncodeInteger [of "''R''" "lo_iReason m"] by simp
  then obtain d where d: "?b = d" and a: "at d 0 ?b" using at_start by blast
  have ty: "lo_enType m \<in> set internal_types" using assms(2) by (simp add: internal_types_def)
  have "LogoffRequest_Decode LogoffRequest_ctor (LogoffRequest_Encode m []) = Some m"
    unfolding LogoffRequest_Decode_def LogoffRequest_Encode_def Let_def Ascii2Byte_Byte2Ascii e d
    by (rule read_header [OF a ty], (erule read_fields)+)
       (simp add: assms int_image_kept LogoffRequest_ctor_def)
  moreover have "InternalBase_Decode AISMESGINT_UNKNOWN (LogoffRequest_Encode m []) = Some AISMESGINT_LOGOFF_REQUEST"
    unfolding InternalBase_Decode_def LogoffRequest_Encode_def Ascii2Byte_Byte2Ascii e d
    using DecodeHeader_Encode [OF a ty, of AISMESGINT_UNKNOWN] by (simp add: assms)
  moreover have "InternalBase_Decode AISMESGINT_UNKNOWN (StartDataRequest_Encode StartDataRequest_ctor [])
      = Some AISMESGINT_STARTDATA_REQUEST"
    using DecodeHeader_Encode [of "EncodeHeader [] AISMESGINT_STARTDATA_REQUEST" 0 AISMESGINT_STARTDATA_REQUEST "[]" AISMESGINT_UNKNOWN]
      length_EncodeHeader [of AISMESGINT_STARTDATA_REQUEST]
    by (simp add: InternalBase_Decode_def StartDataRequest_Encode_def StartDataRequest_ctor_def
        Ascii2Byte_Byte2Ascii at_start internal_types_def)
  ultimately show ?thesis by blast
qed

theorem short_requests_roundtrip_witness:
  "int_kept 1 \<and> LogoffRequest_Decode LogoffRequest_ctor (LogoffRequest_Encode \<lparr>lo_enType = AISMESGINT_LOGOFF_REQUEST, lo_iReason = 1\<rparr> [])
   = Some \<lparr>lo_enType = AISMESGINT_LOGOFF_REQUEST, lo_iReason = 1\<rparr>"
  using short_requests_roundtrip [of "\<lparr>lo_enType = AISMESGINT_LOGOFF_REQUEST, lo_iReason = 1\<rparr>"]
  by (simp add: int_kept_def)

text \<open>
  A proxy filter cannot be received: whatever filter is encoded, as long as it fits the offset,
  decoding it raises \<^verbatim>\<open>bad_lexical_cast\<close> at the first vector field, because the text of a vector
  ends with the separator.
\<close>

theorem proxy_filter_decode_throws:
  assumes "keep_empty_tokens tokenizer" and "cast [] = None"
    and "pf_enType m \<in> set internal_types" and "length (ProxyFilter_bytes shw shw_d m) < 32768"
  shows "ProxyFilter_Decode tokenizer cast cast_d m0 (ProxyFilter_Encode shw shw_d m []) = raise bad_lexical_cast"
proof -
  let ?s = "CreateVectorValue shw (pf_clMessageTypes m)"
  obtain rest where e: "ProxyFilter_bytes shw shw_d m = EncodeHeader [] (pf_enType m)
     @ EncodeInteger [] ''TS'' (of_flag (pf_fTimeStamp m)) @ EncodeInteger [] ''UI'' (pf_iUpdateInterval m)
     @ EncodeString [] ''MSGS'' ?s @ rest"
    by (simp only: ProxyFilter_bytes_def Let_def append_simps append_assoc append_Nil2)
  from assms(4) obtain d where d: "ProxyFilter_bytes shw shw_d m = d" and a: "at d 0 (ProxyFilter_bytes shw shw_d m)"
    using at_start by blast
  have split: "SplitVectorValue tokenizer cast ?s v = Inl bad_lexical_cast" for v
    using number_vector_split [of tokenizer cast] assms(1,2) by simp
  have vec: "decode_vector tokenizer cast d off v = raise bad_lexical_cast"
    if "at d off (EncodeString [] ''MSGS'' ?s @ rest)" for d off v
    using DecodeString_Encode [OF that, of "[]"] split by (simp add: decode_vector_def)
  show ?thesis
    unfolding ProxyFilter_Decode_def ProxyFilter_Encode_def Let_def Ascii2Byte_Byte2Ascii d
    by (rule read_header [OF a [unfolded e] assms(3)], (erule read_fields)+) (simp add: vec)
qed


definition sample_filter :: "nat proxy_filter" where
  "sample_filter = \<lparr>pf_enType = AISMESGINT_PROXY_FILTER, pf_fTimeStamp = True, pf_iUpdateInterval = 5,
     pf_clMessageTypes = [1], pf_fMessageTypesDefined = True, pf_clPredefinedAreas = [],
     pf_fPredefinedAreasDefined = False, pf_clMMSIList = [], pf_fMMSIListDefined = False,
     pf_fIncludeMMSIListContent = False, pf_clUserDefinedArea = [2], pf_fUserDefinedAreaDefined = True\<rparr>"

theorem proxy_filter_decode_throws_witness:
  "keep_empty_tokens (pieces (CHR '';'')) \<and>
   ProxyFilter_Decode (pieces (CHR '';'')) (\<lambda>s. if s = [] then None else Some 1) (\<lambda>s. Some (length s)) sample_filter
     (ProxyFilter_Encode (\<lambda>_. ''1'') (\<lambda>_. ''2'') sample_filter []) = raise bad_lexical_cast"
proof -
  have "length (ProxyFilter_bytes (\<lambda>_. ''1'') (\<lambda>_. ''2'') sample_filter) \<le> 200"
    by code_simp
  then show ?thesis
    using proxy_filter_decode_throws [of "pieces (CHR '';'')" "\<lambda>s. if s = [] then None else Some 1"
        sample_filter "\<lambda>_. ''1''" "\<lambda>_. ''2''" "\<lambda>s. Some (length s)" sample_filter]
    by (simp add: keep_empty_tokens_def internal_types_def sample_filter_def)
qed

end
