(* ===== verification/StrUtil.thy ===== *)
theory StrUtil
  imports Errors
begin

text \<open>
  The string helpers of \<^verbatim>\<open>src/src/applutil.cpp\<close>, \<^verbatim>\<open>src/src/applutil.h\<close> and \<^verbatim>\<open>src/src/main.cpp\<close>:
  replacing, splitting and stripping, the numbers \<^verbatim>\<open>from_string\<close> and \<^verbatim>\<open>to_string\<close> read and write
  through a \<^verbatim>\<open>std::stringstream\<close>, and the scan of the command line. A loop of the source that may
  run forever is a \<^theory_text>\<open>partial_function\<close> whose value is then \<open>None\<close>.
\<close>

section \<open>Replacing\<close>

text \<open>\<^verbatim>\<open>std::string::find(what, start)\<close>.\<close>

definition find_from :: "string \<Rightarrow> string \<Rightarrow> nat \<Rightarrow> nat option" where
  "find_from pat s start =
     (if start \<le> length s then map_option ((+) start) (find_sub pat (drop start s)) else None)"

text \<open>\<^verbatim>\<open>source.substr(start, end - start)\<close>, where \<open>end\<close> may be \<^verbatim>\<open>npos\<close>.\<close>

definition upto_end :: "string \<Rightarrow> nat \<Rightarrow> nat option \<Rightarrow> string" where
  "upto_end s start e = (case e of None \<Rightarrow> drop start s | Some i \<Rightarrow> substr s start (i - start))"

partial_function (option) replace_loop ::
    "string \<Rightarrow> string \<Rightarrow> string \<Rightarrow> string \<Rightarrow> nat option \<Rightarrow> string option" where
  "replace_loop source what wth result e =
     (case e of
        None \<Rightarrow> Some result
      | Some i \<Rightarrow>
          (let result' = result @ wth; start = i + length what in
           if length source \<le> start then Some result'
           else let e' = find_from what source start
                in replace_loop source what wth (result' @ upto_end source start e') e'))"

definition replace :: "string \<Rightarrow> string \<Rightarrow> string \<Rightarrow> string option" where
  "replace source what wth =
     (let e = find_sub what source in replace_loop source what wth (upto_end source 0 e) e)"

section \<open>File names, splitting, stripping\<close>

definition filename :: "string \<Rightarrow> string" where
  "filename p =
     (case (find_last_of [CHR 0x5C, CHR ''/''] p, find_last_of ''.'' p) of
        (Some a, Some b) \<Rightarrow> if a < b then substr p (a + 1) (b - a - 1) else []
      | _ \<Rightarrow> [])"

text \<open>
  The loop \<^verbatim>\<open>while (std::getline(ss, item, delim))\<close>: a call takes the characters up to the next
  delimiter, which it drops, and fails when nothing is left to read.
\<close>

function split :: "string \<Rightarrow> char \<Rightarrow> string list" where
  "split s delim =
     (if s = [] then []
      else takeWhile (\<lambda>c. c \<noteq> delim) s # split (drop 1 (dropWhile (\<lambda>c. c \<noteq> delim) s)) delim)"
  by pat_completeness auto
termination
proof (relation "measure (length \<circ> fst)")
  fix s :: string and delim assume "s \<noteq> []"
  moreover have "length (dropWhile (\<lambda>c. c \<noteq> delim) s) \<le> length s" by (rule length_dropWhile_le)
  ultimately show "((drop 1 (dropWhile (\<lambda>c. c \<noteq> delim) s), delim), s, delim) \<in> measure (length \<circ> fst)"
    by (cases s) auto
qed simp

declare split.simps [simp del]

fun strip_front :: "string \<Rightarrow> string \<Rightarrow> string" where
  "strip_front space [] = []"
| "strip_front space (c # s) = (if find_char c space \<noteq> None then strip_front space s else c # s)"

function strip_back :: "string \<Rightarrow> string \<Rightarrow> string" where
  "strip_back space s =
     (if s \<noteq> [] \<and> find_char (last s) space \<noteq> None then strip_back space (butlast s) else s)"
  by pat_completeness auto
termination by (relation "measure (length \<circ> snd)") auto

declare strip_back.simps [simp del]

definition strip :: "string \<Rightarrow> string \<Rightarrow> string" where
  "strip s space = strip_back space (strip_front space s)"

definition check_remove_substr :: "string \<Rightarrow> string \<Rightarrow> string \<Rightarrow> bool \<times> string" where
  "check_remove_substr input pattern output =
     (if substr input 0 (length pattern) = pattern then (True, drop (length pattern) input)
      else (False, output))"

section \<open>Numbers as text\<close>

definition is_digit :: "char \<Rightarrow> bool" where
  "is_digit c \<longleftrightarrow> (let n = of_char c :: nat in 48 \<le> n \<and> n \<le> 57)"

definition digit_value :: "char \<Rightarrow> nat" where
  "digit_value c = of_char c - 48"

definition digit_char :: "nat \<Rightarrow> char" where
  "digit_char n = char_of (48 + n)"

fun show_nat :: "nat \<Rightarrow> string" where
  "show_nat n = (if n < 10 then [digit_char n] else show_nat (n div 10) @ [digit_char (n mod 10)])"

declare show_nat.simps [simp del]

text \<open>\<^verbatim>\<open>to_string\<close> of an \<^verbatim>\<open>int\<close>: what \<^verbatim>\<open>operator<<\<close> writes.\<close>

definition show_int :: "int \<Rightarrow> string" where
  "show_int x = (if x < 0 then CHR ''-'' # show_nat (nat (- x)) else show_nat (nat x))"

definition read_digits :: "string \<Rightarrow> nat" where
  "read_digits s = foldl (\<lambda>v c. 10 * v + digit_value c) 0 s"

text \<open>
  \<^verbatim>\<open>operator>>\<close> into an \<^verbatim>\<open>int\<close>. White space is skipped; at the end of the stream the target keeps its
  value (\<open>None\<close>); a sign and decimal digits are read; without a digit the target becomes zero; a
  value outside the range of \<^verbatim>\<open>int\<close> becomes the nearest bound.
\<close>

definition clamp32 :: "int \<Rightarrow> int" where
  "clamp32 v = max (- (2 ^ 31)) (min (2 ^ 31 - 1) v)"

definition scan_int :: "string \<Rightarrow> int option" where
  "scan_int s =
     (case dropWhile is_space s of
        [] \<Rightarrow> None
      | c # cs \<Rightarrow>
          (let neg = (c = CHR ''-'');
               rest = (if c = CHR ''-'' \<or> c = CHR ''+'' then cs else c # cs);
               ds = takeWhile is_digit rest;
               v = int (read_digits ds)
           in Some (if ds = [] then 0 else clamp32 (if neg then - v else v))))"

text \<open>\<^verbatim>\<open>from_string\<close>: the target \<open>t\<close> is \<open>None\<close> while it is uninitialised.\<close>

definition from_string :: "string \<Rightarrow> int option \<Rightarrow> int option" where
  "from_string s t = (case scan_int s of None \<Rightarrow> t | Some v \<Rightarrow> Some v)"

text \<open>
  The \<^verbatim>\<open>check_int\<close> of a C string: the result variable is not initialised, so a text of white space
  only reads it (\<open>None\<close>).
\<close>

definition check_int_cstr :: "string option \<Rightarrow> int outcome" where
  "check_int_cstr input =
     (case input of
        Some sz \<Rightarrow> if length sz > 0 then (case from_string sz None of None \<Rightarrow> None | Some v \<Rightarrow> ret v)
                  else raise (runtime_error ''check_int failed'')
      | None \<Rightarrow> raise (runtime_error ''check_int failed''))"

definition check_ip4 :: "string \<Rightarrow> string outcome" where
  "check_ip4 input = (if length input > 0 then ret input else raise (runtime_error ''check_ip4 failed: ''))"

section \<open>The command line\<close>

text \<open>
  \<open>short\<close> is \<open>None\<close> for the character zero, \<open>long\<close> for the null pointer. The texts of the command
  line hold no zero character.
\<close>

fun check_arg :: "string list \<Rightarrow> char option \<Rightarrow> string option \<Rightarrow> bool" where
  "check_arg [] short long = False"
| "check_arg (a # argv) short long =
     (if (case short of None \<Rightarrow> False | Some c \<Rightarrow> ''-'' @ [c] = a) then True
      else if (case long of None \<Rightarrow> False | Some l \<Rightarrow> ''--'' @ l = a) then True
      else check_arg argv short long)"

fun check_arg_value :: "string list \<Rightarrow> char option \<Rightarrow> string option \<Rightarrow> string \<Rightarrow> bool \<times> string" where
  "check_arg_value [] short long result = (False, result)"
| "check_arg_value (a # argv) short long result =
     (if (case short of None \<Rightarrow> False | Some c \<Rightarrow> ''-'' @ [c] = a) then
        (case argv of
           [] \<Rightarrow> (False, result)
         | v # _ \<Rightarrow> if take 1 v = ''-'' then (False, result) else (True, v))
      else
        let strs = split a (CHR ''='') in
        if (case long of None \<Rightarrow> False
            | Some l \<Rightarrow> find_sub ''--'' a = Some 0 \<and> length strs \<ge> 2 \<and> ''--'' @ l = strs ! 0)
        then (True, strs ! 1)
        else check_arg_value argv short long result)"

section \<open>Replacing, as a specification\<close>

text \<open>From left to right, every occurrence that does not overlap an earlier one.\<close>

function replace_all :: "string \<Rightarrow> string \<Rightarrow> string \<Rightarrow> string" where
  "replace_all what wth s =
     (if s = [] \<or> what = [] then s
      else if take (length what) s = what then wth @ replace_all what wth (drop (length what) s)
      else hd s # replace_all what wth (tl s))"
  by pat_completeness auto
termination by (relation "measure (\<lambda>(_, _, s). length s)") auto

declare replace_all.simps [simp del]

lemma replace_all_Nil [simp]: "replace_all what wth [] = []"
  by (subst replace_all.simps) simp

lemma replace_all_None: "find_sub what s = None \<Longrightarrow> replace_all what wth s = s"
proof (induction s)
  case (Cons c s)
  then show ?case by (subst replace_all.simps) (auto split: if_splits)
qed simp

lemma replace_all_Some:
  "what \<noteq> [] \<Longrightarrow> find_sub what s = Some i \<Longrightarrow>
     replace_all what wth s = take i s @ wth @ replace_all what wth (drop (i + length what) s)"
proof (induction s arbitrary: i)
  case (Cons c s)
  show ?case
  proof (cases "take (length what) (c # s) = what")
    case True
    with Cons.prems show ?thesis by (subst replace_all.simps) auto
  next
    case False
    with Cons.prems obtain j where "i = Suc j" "find_sub what s = Some j" by auto
    with False Cons.IH [of j] Cons.prems(1) show ?thesis by (subst replace_all.simps) simp
  qed
qed simp

lemma replace_loop_correct:
  assumes "what \<noteq> []" "start \<le> length source" "e = find_from what source start"
  shows "replace_loop source what wth (result @ upto_end source start e) e
    = Some (result @ replace_all what wth (drop start source))"
  using assms
proof (induction "length source - start" arbitrary: start e result rule: less_induct)
  case less
  show ?case
  proof (cases "find_sub what (drop start source)")
    case None
    then have "e = None" using less.prems by (simp add: find_from_def)
    then show ?thesis
      by (subst replace_loop.simps) (simp add: upto_end_def replace_all_None [OF None])
  next
    case (Some i)
    let ?start = "start + i + length what" and ?seg = "take i (drop start source)"
    have e: "e = Some (start + i)" using less.prems Some by (simp add: find_from_def)
    have bound: "?start \<le> length source" using find_sub_bound [OF Some] less.prems(2) by simp
    have all: "replace_all what wth (drop start source) = ?seg @ wth @ replace_all what wth (drop ?start source)"
      using replace_all_Some [OF less.prems(1) Some] by (simp add: add.commute add.left_commute add.assoc)
    show ?thesis
    proof (cases "length source \<le> ?start")
      case True
      then show ?thesis
        by (subst replace_loop.simps) (simp add: e upto_end_def substr_def all)
    next
      case False
      have lt: "length source - ?start < length source - start" using less.prems(1) False by (cases what) auto
      have "replace_loop source what wth (result @ upto_end source start e) e
        = replace_loop source what wth ((result @ ?seg @ wth) @ upto_end source ?start (find_from what source ?start))
            (find_from what source ?start)"
        using False by (subst replace_loop.simps) (simp add: e upto_end_def substr_def Let_def)
      also have "\<dots> = Some ((result @ ?seg @ wth) @ replace_all what wth (drop ?start source))"
        using less.hyps [OF lt less.prems(1) bound refl] .
      finally show ?thesis by (simp add: all)
    qed
  qed
qed

lemma find_sub_Nil [simp]: "find_sub [] s = Some 0"
  by (cases s) auto

text \<open>
  \<^verbatim>\<open>uniproxy::replace\<close> returns, for every non-empty pattern, the source text with each
  occurrence of the pattern (from the left, not overlapping) replaced and nothing else changed.
\<close>

theorem replace_correct:
  assumes "what \<noteq> []"
  shows "replace source what wth = Some (replace_all what wth source)"
proof -
  have "find_sub what source = find_from what source 0" 
    by (cases "find_sub what source") (simp_all add: find_from_def)
  with replace_loop_correct [OF assms, of 0 source _ wth "[]"] show ?thesis
    by (simp add: replace_def Let_def)
qed

theorem replace_correct_witness:
  "''%'' \<noteq> [] \<and> replace ''a%b%'' ''%'' ''%%'' = Some ''a%%b%%''"
proof -
  have "replace_all ''%'' ''%%'' ''a%b%'' = ''a%%b%%''" by (simp add: replace_all.simps)
  then show ?thesis using replace_correct [of "''%''" "''a%b%''" "''%%''"] by simp
qed

section \<open>Stripping\<close>

lemma strip_front_spec:
  "\<exists>pre. s = pre @ strip_front space s \<and> set pre \<subseteq> set space
     \<and> (strip_front space s \<noteq> [] \<longrightarrow> hd (strip_front space s) \<notin> set space)"
proof (induction s)
  case (Cons c s)
  then obtain pre where "s = pre @ strip_front space s" "set pre \<subseteq> set space"
    "strip_front space s \<noteq> [] \<longrightarrow> hd (strip_front space s) \<notin> set space" by blast
  note pre = this
  show ?case
  proof (cases "c \<in> set space")
    case True
    then have "strip_front space (c # s) = strip_front space s"
      using find_char_None_iff [of c space] by simp
    with pre True show ?thesis by (intro exI [of _ "c # pre"]) auto
  next
    case False
    then have "strip_front space (c # s) = c # s"
      using find_char_None_iff [of c space] by simp
    with False show ?thesis by simp
  qed
qed simp

lemma strip_back_spec:
  "\<exists>post. s = strip_back space s @ post \<and> set post \<subseteq> set space
     \<and> (strip_back space s \<noteq> [] \<longrightarrow> last (strip_back space s) \<notin> set space)"
proof (induction s rule: rev_induct)
  case Nil
  show ?case by (subst (1 2 3) strip_back.simps) simp
next
  case (snoc c s)
  show ?case
  proof (cases "c \<in> set space")
    case True
    then have "strip_back space (s @ [c]) = strip_back space s"
      by (subst strip_back.simps) (simp add: find_char_None_iff)
    moreover obtain post where "s = strip_back space s @ post" "set post \<subseteq> set space"
      "strip_back space s \<noteq> [] \<longrightarrow> last (strip_back space s) \<notin> set space" using snoc by blast
    ultimately show ?thesis using True by (intro exI [of _ "post @ [c]"]) auto
  next
    case False
    then have "strip_back space (s @ [c]) = s @ [c]"
      by (subst strip_back.simps) (simp add: find_char_None_iff)
    with False show ?thesis by auto
  qed
qed

text \<open>
  \<^verbatim>\<open>mylib::strip\<close> removes exactly the blanks at both ends: the text is the result with blanks
  before and behind it, and the result is empty or begins and ends with another character.
\<close>

theorem strip_correct:
  "\<exists>pre post. s = pre @ strip s space @ post \<and> set pre \<subseteq> set space \<and> set post \<subseteq> set space
     \<and> (strip s space = [] \<or> hd (strip s space) \<notin> set space \<and> last (strip s space) \<notin> set space)"
proof -
  let ?f = "strip_front space s"
  obtain pre where f: "s = pre @ ?f" "set pre \<subseteq> set space" "?f \<noteq> [] \<longrightarrow> hd ?f \<notin> set space"
    using strip_front_spec [of s space] by blast
  obtain post where b: "?f = strip s space @ post" "set post \<subseteq> set space"
    "strip s space \<noteq> [] \<longrightarrow> last (strip s space) \<notin> set space"
    using strip_back_spec [of ?f space] unfolding strip_def by blast
  have "strip s space \<noteq> [] \<Longrightarrow> hd (strip s space) = hd ?f" using b(1) by (metis hd_append2)
  moreover have "strip s space \<noteq> [] \<Longrightarrow> ?f \<noteq> []" using b(1) by auto
  ultimately show ?thesis using f b by metis
qed

section \<open>Numbers read back\<close>

lemma digit_char: "n < 10 \<Longrightarrow> is_digit (digit_char n) \<and> digit_value (digit_char n) = n"
  by (simp add: is_digit_def digit_char_def digit_value_def Let_def)

lemma show_nat_digits: "list_all is_digit (show_nat n) \<and> show_nat n \<noteq> []"
proof (induction n rule: show_nat.induct)
  case (1 n)
  then show ?case using digit_char [of n] digit_char [of "n mod 10"] by (subst (1 2) show_nat.simps) auto
qed

lemma read_digits_append: "read_digits (xs @ [c]) = 10 * read_digits xs + digit_value c"
  by (simp add: read_digits_def)

lemma read_show_nat: "read_digits (show_nat n) = n"
proof (induction n rule: show_nat.induct)
  case (1 n)
  show ?case
  proof (cases "n < 10")
    case True
    then show ?thesis using digit_char [of n] by (subst show_nat.simps) (simp add: read_digits_def)
  next
    case False
    then have "read_digits (show_nat n) = 10 * (n div 10) + n mod 10"
      using 1 digit_char [of "n mod 10"] by (subst show_nat.simps) (simp add: read_digits_append)
    then show ?thesis by simp
  qed
qed

lemma digit_plain: "is_digit c \<Longrightarrow> \<not> is_space c \<and> c \<noteq> CHR ''-'' \<and> c \<noteq> CHR ''+''"
  by (auto simp: is_digit_def is_space_def Let_def)

lemma takeWhile_digits: "takeWhile is_digit (show_nat n) = show_nat n"
  using show_nat_digits [of n] by (simp add: takeWhile_eq_all_conv list_all_iff)

lemma scan_show_nat: "scan_int (show_nat n) = Some (clamp32 (int n))"
proof -
  obtain c cs where s: "show_nat n = c # cs" using show_nat_digits [of n] by (cases "show_nat n") auto
  then have "is_digit c" using show_nat_digits [of n] by simp
  with digit_plain [OF this] show ?thesis
    using takeWhile_digits [of n] read_show_nat [of n] by (simp add: scan_int_def s Let_def del: takeWhile_eq_all_conv)
qed

lemma scan_show_int: "scan_int (show_int x) = Some (clamp32 x)"
proof (cases "x < 0")
  case False
  then show ?thesis using scan_show_nat [of "nat x"] by (simp add: show_int_def)
next
  case True
  then show ?thesis
    using show_nat_digits [of "nat (- x)"] takeWhile_digits [of "nat (- x)"] read_show_nat [of "nat (- x)"]
    by (simp add: scan_int_def show_int_def Let_def is_space_def del: takeWhile_eq_all_conv)
qed

lemma from_show_int: "- (2 ^ 31) \<le> x \<Longrightarrow> x < 2 ^ 31 \<Longrightarrow> from_string (show_int x) t = Some x"
  by (simp add: from_string_def scan_show_int clamp32_def)

text \<open>
  \<^verbatim>\<open>from_string\<close> after \<^verbatim>\<open>to_string\<close> gives every value of the type \<^verbatim>\<open>int\<close> back, whatever the
  target held before, and a decimal text beyond the range ends at the nearest bound.
\<close>

theorem int_text_roundtrip:
  "from_string (show_int x) t = Some (clamp32 x) \<and> (x \<in> {- (2 ^ 31) ..< 2 ^ 31} \<longrightarrow> clamp32 x = x)"
  by (auto simp: from_string_def scan_show_int clamp32_def)

theorem int_text_roundtrip_witness:
  "from_string (show_int (- 407)) None = Some (- 407) \<and> from_string (show_int 3000000000) (Some 1) = Some 2147483647"
  using int_text_roundtrip [of "- 407" None] int_text_roundtrip [of 3000000000 "Some 1"]
  by (simp add: clamp32_def)

section \<open>Splitting\<close>

text \<open>The text that has the items with the delimiter between them.\<close>

fun join :: "char \<Rightarrow> string list \<Rightarrow> string" where
  "join d [] = []"
| "join d [x] = x"
| "join d (x # y # xs) = x @ d # join d (y # xs)"

lemma split_last: "d \<notin> set x \<Longrightarrow> x \<noteq> [] \<Longrightarrow> split x d = [x]"
proof -
  assume "d \<notin> set x" "x \<noteq> []"
  moreover from this have "takeWhile (\<lambda>c. c \<noteq> d) x = x" "dropWhile (\<lambda>c. c \<noteq> d) x = []"
    by (auto simp: dropWhile_eq_Nil_conv)
  moreover have "split [] d = []" by (subst split.simps) simp
  ultimately show ?thesis by (subst split.simps) (simp del: takeWhile_eq_all_conv dropWhile_eq_Nil_conv)
qed

lemma split_item: "d \<notin> set x \<Longrightarrow> split (x @ d # rest) d = x # split rest d"
proof -
  assume "d \<notin> set x"
  then have "takeWhile (\<lambda>c. c \<noteq> d) (x @ d # rest) = x" "dropWhile (\<lambda>c. c \<noteq> d) (x @ d # rest) = d # rest"
    by (induction x) auto
  then show ?thesis by (subst split.simps) simp
qed

text \<open>
  \<^verbatim>\<open>mylib::split\<close> is the inverse of joining: items without the delimiter, the last of them not
  empty, come back in order and complete. (An empty item at the end is lost, since \<^verbatim>\<open>getline\<close> fails
  when nothing is left.)
\<close>

theorem split_join:
  "items = [] \<or> last items \<noteq> [] \<Longrightarrow> \<forall>x \<in> set items. d \<notin> set x \<Longrightarrow> split (join d items) d = items"
proof (induction d items rule: join.induct)
  case (1 d)
  show ?case by (subst split.simps) simp
next
  case (2 d x)
  then show ?case by (simp add: split_last)
next
  case (3 d x y xs)
  then show ?case by (simp add: split_item)
qed

theorem split_join_witness:
  "split (join (CHR '':'') [''host'', '''', ''80'']) (CHR '':'') = [''host'', '''', ''80'']"
  by (rule split_join) simp_all

section \<open>The command line\<close>

text \<open>An argument the value scan passes over.\<close>

definition passed_over :: "char option \<Rightarrow> string option \<Rightarrow> string \<Rightarrow> bool" where
  "passed_over short long a \<longleftrightarrow> (\<forall>c. short = Some c \<longrightarrow> a \<noteq> [CHR ''-'', c])
     \<and> (\<forall>l. long = Some l \<longrightarrow> (case split a (CHR ''='') of x # y # _ \<Rightarrow> x \<noteq> ''--'' @ l | _ \<Rightarrow> True))"

lemma check_arg_value_skip:
  "\<forall>a \<in> set pre. passed_over short long a \<Longrightarrow>
     check_arg_value (pre @ argv) short long r = check_arg_value argv short long r"
proof (induction pre)
  case (Cons a pre)
  then have p: "passed_over short long a" by simp
  show ?case
  proof (cases "split a (CHR ''='')" rule: remdups_adj.cases)
    case (3 x y ys)
    with p Cons show ?thesis by (auto simp: passed_over_def Let_def split: option.splits)
  qed (use p Cons in \<open>auto simp: passed_over_def Let_def split: option.splits\<close>)
qed simp

text \<open>
  An option that carries a value is found wherever it stands: after arguments that are not this
  option, \<^verbatim>\<open>--name=value\<close> and \<^verbatim>\<open>-n value\<close> both give the value, as long as the value of the long form
  is not empty and holds no second \<^verbatim>\<open>=\<close>, and that of the short form does not look like an option.
\<close>

theorem check_arg_value_found:
  assumes "\<forall>a \<in> set pre. passed_over (Some c) (Some l) a"
  shows "(v \<noteq> [] \<and> CHR ''='' \<notin> set (l @ v) \<longrightarrow>
      check_arg_value (pre @ (''--'' @ l @ ''='' @ v) # post) (Some c) (Some l) r = (True, v))
    \<and> (take 1 v \<noteq> ''-'' \<longrightarrow>
      check_arg_value (pre @ [CHR ''-'', c] # v # post) (Some c) (Some l) r = (True, v))"
proof -
  have "split (''--'' @ l @ ''='' @ v) (CHR ''='') = [''--'' @ l, v]" if "v \<noteq> []" "CHR ''='' \<notin> set (l @ v)"
    using split_item [of "CHR ''=''" "''--'' @ l" v] split_last [of "CHR ''=''" v] that by simp
  then show ?thesis
    using check_arg_value_skip [OF assms] by (simp add: Let_def)
qed

theorem check_arg_value_found_witness:
  "passed_over (Some (CHR ''c'')) (Some ''config'') ''--log=x'' \<and>
   check_arg_value [''--log=x'', ''--config=a.json''] (Some (CHR ''c'')) (Some ''config'') [] = (True, ''a.json'')"
proof -
  have "passed_over (Some (CHR ''c'')) (Some ''config'') ''--log=x''"
    by (simp add: passed_over_def split.simps)
  then show ?thesis
    using check_arg_value_found [of "[''--log=x'']" "CHR ''c''" "''config''" "''a.json''" "[]" "[]"] by simp
qed

end
