(* ===== verification/Nmea.thy ===== *)
theory Nmea
  imports AsnCodec StrUtil
begin

text \<open>
  The NMEA sentences of \<^verbatim>\<open>src/libs/gatehouse\<close>: the checksum (\<^verbatim>\<open>pghputils.cpp\<close>), the message base class
  with its field readers, verification and segmentation (\<^verbatim>\<open>pghpnmeamsg.h\<close>, \<^verbatim>\<open>pghpnmeamsg.cpp\<close>) and the
  \<^verbatim>\<open>$PGHP,2\<close> message that carries a GateHouse mail (\<^verbatim>\<open>pghp2.cpp\<close>). The object is the record
  \<open>nmea\<close>; a method takes it and returns it with its result. Lengths are below \<open>2^31\<close>, so that the
  casts of a size to \<^verbatim>\<open>int\<close> keep the value.
\<close>

section \<open>The checksum\<close>

definition TrimNmeaString :: "string \<Rightarrow> string" where
  "TrimNmeaString s0 =
     (let s = strip s0 [CHR '' '', CHR 0x09] in
      case find_char (CHR ''@'') s of None \<Rightarrow> s | Some p \<Rightarrow> drop p s)"

fun checksum_loop :: "string \<Rightarrow> u8 \<Rightarrow> u8" where
  "checksum_loop [] acc = acc"
| "checksum_loop (c # cs) acc = (if c = CHR ''*'' then acc else checksum_loop cs (acc XOR byte_of c))"

text \<open>The size is \<open>None\<close> for a negative argument; the callers pass a position inside the text.\<close>

definition CalcNmeaCheckSum :: "string \<Rightarrow> nat option \<Rightarrow> u8" where
  "CalcNmeaCheckSum s sz =
     (let n = (case sz of None \<Rightarrow> length s | Some n \<Rightarrow> n);
          offset = (if s \<noteq> [] \<and> (hd s = CHR ''!'' \<or> hd s = CHR ''$'') then 1 else 0)
      in checksum_loop (drop offset (take n s)) 0)"

text \<open>\<^verbatim>\<open>sprintf("%02X")\<close> of an \<^verbatim>\<open>int\<close>.\<close>

fun show_hex :: "nat \<Rightarrow> string" where
  "show_hex n = (if n < 16 then [hex_digit n] else show_hex (n div 16) @ [hex_digit (n mod 16)])"

declare show_hex.simps [simp del]

definition FormatNmeaCheckSum :: "u32 \<Rightarrow> string" where
  "FormatNmeaCheckSum c = (let h = show_hex (unat c) in replicate (2 - length h) (CHR ''0'') @ h)"

section \<open>The sentence types\<close>

text \<open>The enumeration is the position in the array of its names.\<close>

type_synonym AISNMEAType = nat

definition apchAISNMEAType :: "string list" where
  "apchAISNMEAType =
     [''AISNMEATYPE_PGHP1'', ''AISNMEATYPE_PGHP2'', ''AISNMEATYPE_PGHP3'', ''AISNMEATYPE_PGHP4'',
      ''AISNMEATYPE_PGHP5'', ''AISNMEATYPE_PGHP6'', ''AISNMEATYPE_PGHP7'', ''AISNMEATYPE_PGHP8'',
      ''AISNMEATYPE_PGHP9'', ''AISNMEATYPE_PGHP10'', ''AISNMEATYPE_PGHP11'',
      ''AISNMEATYPE_PGHP12'', ''AISNMEATYPE_PGHP13'', ''AISNMEATYPE_PGHP14'',
      ''AISNMEATYPE_PGHP15'', ''AISNMEATYPE_PGHP16'', ''AISNMEATYPE_PGHP17'',
      ''AISNMEATYPE_PGHP18'', ''AISNMEATYPE_PGHP19'', ''AISNMEATYPE_PGHP20'',
      ''AISNMEATYPE_PGHP21'', ''AISNMEATYPE_PGHP22'', ''AISNMEATYPE_PGHP23'',
      ''AISNMEATYPE_PGHP24'', ''AISNMEATYPE_PGHP25'', ''AISNMEATYPE_PGHP26'',
      ''AISNMEATYPE_PGHP27'', ''AISNMEATYPE_PGHP28'', ''AISNMEATYPE_PGHP29'',
      ''AISNMEATYPE_PGHP30'', ''AISNMEATYPE_PGHP31'', ''AISNMEATYPE_PGHP32'',
      ''AISNMEATYPE_PGHP33'', ''AISNMEATYPE_PGHP34'', ''AISNMEATYPE_PGHP35'',
      ''AISNMEATYPE_PGHP36'', ''AISNMEATYPE_PGHP37'', ''AISNMEATYPE_PGHP38'',
      ''AISNMEATYPE_PGHP39'', ''AISNMEATYPE_PGHP40'', ''AISNMEATYPE_PGHP41'',
      ''AISNMEATYPE_PGHP42'', ''AISNMEATYPE_PGHP43'', ''AISNMEATYPE_PGHP44'',
      ''AISNMEATYPE_PGHP45'', ''AISNMEATYPE_PGHP46'', ''AISNMEATYPE_PGHP47'',
      ''AISNMEATYPE_PGHP48'', ''AISNMEATYPE_PGHP49'', ''AISNMEATYPE_PGHP50'',
      ''AISNMEATYPE_PGHP51'', ''AISNMEATYPE_UNDEFINED'', ''AISNMEATYPE_VDM'', ''AISNMEATYPE_VDO'',
      ''AISNMEATYPE_ABM'', ''AISNMEATYPE_BBM'', ''AISNMEATYPE_ALR'', ''AISNMEATYPE_AIR'',
      ''AISNMEATYPE_UNKNOWN'', ''AISNMEATYPE_TEXT'', ''AISNMEATYPE_VDO_DESEGMENTED'',
      ''AISNMEATYPE_VDM_DESEGMENTED'', ''AISNMEATYPE_ABM_DESEGMENTED'',
      ''AISNMEATYPE_BBM_DESEGMENTED'', ''AISNMEATYPE_PGHP2_DESEGMENTED'',
      ''AISNMEATYPE_PGHP20_DESEGMENTED'', ''AISNMEATYPE_PGHP21_DESEGMENTED'',
      ''AISNMEATYPE_PGHP36_DESEGMENTED'', ''AISNMEATYPE_PGHP48_DESEGMENTED'',
      ''AISNMEATYPE_PGHP20_COMBINED'', ''AISNMEATYPE_PGHP21_COMBINED'',
      ''AISNMEATYPE_PGHP22_COMBINED'', ''AISNMEATYPE_PGHP30_COMBINED'',
      ''AISNMEATYPE_PGHP33_COMBINED'', ''AISNMEATYPE_CAB'', ''AISNMEATYPE_CBM'',
      ''AISNMEATYPE_BCF'', ''AISNMEATYPE_DLM'', ''AISNMEATYPE_QUERY'', ''AISNMEATYPE_ABK'',
      ''AISNMEATYPE_WRONGFORMAT'', ''AISNMEATYPE_SCANTER_TRACK'',
      ''AISNMEATYPE_SCANTER_TRACK_CREATE'', ''AISNMEATYPE_XML'', ''AISNMEATYPE_XML_USER_CMD'',
      ''AISNMEATYPE_GPG_GGA'', ''AISNMEATYPE_GPG_GSA'', ''AISNMEATYPE_GPG_GSV'',
      ''AISNMEATYPE_GPG_GSV_DESEGMENTED'', ''AISNMEATYPE_GPG_RMC'', ''AISNMEATYPE_GPG_VTG'',
      ''AISNMEATYPE_PORB'', ''AISNMEATYPE_VSI'', ''AISNMEATYPE_TLB'', ''AISNMEATYPE_TLL'',
      ''AISNMEATYPE_TTM'', ''AISNMEATYPE_RSD'', ''AISNMEATYPE_OSD'',
      ''AISNMEATYPE_COMMENT_BLOCK'', ''AISNMEATYPE_ECB'', ''AISNMEATYPE_VER'',
      ''AISNMEATYPE_PSHI'']"

abbreviation AISNMEATYPE_PGHP2 :: AISNMEAType where "AISNMEATYPE_PGHP2 \<equiv> 1"
abbreviation AISNMEATYPE_UNDEFINED :: AISNMEAType where "AISNMEATYPE_UNDEFINED \<equiv> 51"

definition GetAISNMEATypeAsString :: "AISNMEAType \<Rightarrow> string" where
  "GetAISNMEATypeAsString v =
     (if v < length apchAISNMEAType then apchAISNMEAType ! v
      else ''STR_FROM_ENUM error unknown value'')"

section \<open>Field readers\<close>

text \<open>
  The static readers of the base class. They take the text with its length and the start index and
  return the flag, the new value of the data argument and the new start. Index \<open>iLen\<close> is the
  terminating zero. \<^verbatim>\<open>char\<close> is signed.
\<close>

definition schar :: "char \<Rightarrow> int" where
  "schar c = (let n = of_char c :: int in if n < 128 then n else n - 256)"

definition c_str :: "string \<Rightarrow> nat \<Rightarrow> char" where
  "c_str s i = (if i < length s then s ! i else CHR 0x00)"

definition GetSmallInt :: "int \<Rightarrow> string \<Rightarrow> nat \<Rightarrow> bool \<times> int \<times> nat" where
  "GetSmallInt iData s iStart =
     (if iStart < length s then
        if c_str s iStart \<notin> {CHR '','', CHR ''*''} then
          let d = schar (c_str s iStart) - 48 in
          if c_str s (iStart + 1) \<notin> {CHR '','', CHR ''*''} then (False, d, iStart + 1)
          else (True, d, iStart + 2)
        else (True, iData, iStart + 1)
      else (False, iData, iStart))"

definition GetChar :: "char \<Rightarrow> string \<Rightarrow> nat \<Rightarrow> bool \<times> char \<times> nat" where
  "GetChar iData s iStart =
     (if iStart < length s then
        if c_str s iStart \<notin> {CHR '','', CHR ''*''} then (True, c_str s iStart, iStart + 2)
        else (True, iData, iStart + 1)
      else (False, iData, iStart))"

text \<open>
  The scanning loop that \<^verbatim>\<open>GetString\<close>, \<^verbatim>\<open>GetInt\<close>, \<^verbatim>\<open>GetDouble\<close> and \<^verbatim>\<open>GetCheckSumWord\<close> share: the
  first index at or after \<open>i\<close> where the stop condition holds, \<open>None\<close> when the text ends first.
\<close>

function scan_to :: "(nat \<Rightarrow> char \<Rightarrow> bool) \<Rightarrow> string \<Rightarrow> nat \<Rightarrow> nat option" where
  "scan_to stop s i =
     (if i < length s then if stop i (s ! i) then Some i else scan_to stop s (i + 1) else None)"
  by pat_completeness auto
termination by (relation "measure (\<lambda>(_, s, i). length s - i)") auto

declare scan_to.simps [simp del]

definition GetString :: "string \<Rightarrow> string \<Rightarrow> nat \<Rightarrow> bool \<times> string \<times> nat" where
  "GetString clData s iStart =
     (case scan_to (\<lambda>i ch. ch \<in> {CHR '','', CHR ''*'', CHR 0x0D} \<or> i = length s - 1) s iStart of
        None \<Rightarrow> (True, clData, iStart)
      | Some i \<Rightarrow> (True, if i > iStart then substr s iStart (i - iStart) else [], i + 1))"

text \<open>\<open>None\<close> as data is an uninitialised \<^verbatim>\<open>int\<close>.\<close>

definition GetInt :: "int option \<Rightarrow> string \<Rightarrow> nat \<Rightarrow> bool \<times> int option \<times> nat" where
  "GetInt iData s iStart =
     (case scan_to (\<lambda>i ch. ch \<in> {CHR '','', CHR '':'', CHR ''G'', CHR ''*'', CHR 0x0D}) s iStart of
        None \<Rightarrow> (True, iData, iStart)
      | Some i \<Rightarrow>
          (True, if i > iStart then from_string (substr s iStart (i - iStart)) iData else iData, i + 1))"

text \<open>\<open>read\<close> is \<^verbatim>\<open>from_string\<close> into a \<^verbatim>\<open>double\<close>: the text and the old value give the new value.\<close>

definition GetDouble :: "(string \<Rightarrow> 'd \<Rightarrow> 'd) \<Rightarrow> 'd \<Rightarrow> string \<Rightarrow> nat \<Rightarrow> bool \<times> 'd \<times> nat" where
  "GetDouble read dData s iStart =
     (case scan_to (\<lambda>i ch. ch \<in> {CHR '','', CHR ''*'', CHR 0x0D}) s iStart of
        None \<Rightarrow> (True, dData, iStart)
      | Some i \<Rightarrow> (True, if i > iStart then read (substr s iStart (i - iStart)) dData else dData, i + 1))"

definition EnsureWidth :: "char \<Rightarrow> string \<Rightarrow> nat \<Rightarrow> string" where
  "EnsureWidth chFill s iLen =
     (if length s < iLen then ((#) chFill ^^ (iLen - length s)) s else s)"

section \<open>The message object\<close>

record nmea =
  m_iTotalNumberOfMessages :: int
  m_iSentenceNumber :: int
  m_iSequentialMessageIdentifier :: int
  m_aszPayload :: string
  m_clReceivedMessage :: string
  m_fReceivedMessageModified :: bool
  m_iMaxContent :: int
  m_iCheckSum :: u32
  m_enSentenceType :: AISNMEAType
  m_fSeqMesIdIsNull :: bool
  m_fHasError :: bool

definition NMEAMessage_ctor :: "AISNMEAType \<Rightarrow> nmea" where
  "NMEAMessage_ctor t =
     \<lparr>m_iTotalNumberOfMessages = 1, m_iSentenceNumber = 1, m_iSequentialMessageIdentifier = -1,
      m_aszPayload = [], m_clReceivedMessage = [], m_fReceivedMessageModified = False,
      m_iMaxContent = 0, m_iCheckSum = 0, m_enSentenceType = t, m_fSeqMesIdIsNull = False,
      m_fHasError = False\<rparr>"

definition SetPayload :: "nmea \<Rightarrow> string \<Rightarrow> bool \<Rightarrow> nmea" where
  "SetPayload m p mark =
     (let m = (if mark then m\<lparr>m_fReceivedMessageModified := True\<rparr> else m) in m\<lparr>m_aszPayload := p\<rparr>)"

definition CalcCheckSumAsString :: "nmea \<Rightarrow> string \<Rightarrow> nat option \<Rightarrow> string \<times> nmea" where
  "CalcCheckSumAsString m s sz =
     (let m = m\<lparr>m_iCheckSum := ucast (CalcNmeaCheckSum s sz)\<rparr>
      in (FormatNmeaCheckSum (m_iCheckSum m), m))"

definition CalcCheckSum :: "nmea \<Rightarrow> string \<Rightarrow> nat option \<Rightarrow> u32 \<times> nmea" where
  "CalcCheckSum m s sz =
     (let m = m\<lparr>m_iCheckSum := ucast (CalcNmeaCheckSum s sz)\<rparr>; m = m\<lparr>m_iCheckSum := 0\<rparr>
      in (m_iCheckSum m, m))"

definition VerifyCheckSum :: "nmea \<Rightarrow> string \<Rightarrow> bool \<times> nmea" where
  "VerifyCheckSum m msg =
     (case find_char (CHR ''*'') msg of
        None \<Rightarrow> (False, m)
      | Some i \<Rightarrow>
          if i = 0 then (False, m)
          else case CalcCheckSumAsString m msg (Some i) of
                 (chksum, m') \<Rightarrow> (chksum = substr msg (i + 1) 2, m'))"

definition Verify :: "nmea \<Rightarrow> string \<Rightarrow> bool \<times> nmea" where
  "Verify m msg =
     (case find_sub [CHR 0x0D, CHR 0x0A] msg of
        None \<Rightarrow> (False, m)
      | Some e \<Rightarrow>
          let at_or = (\<lambda>p. case p of Some st \<Rightarrow> if st > e then None else Some st | None \<Rightarrow> None);
              start = (case at_or (find_sub ''!'' msg) of
                         Some st \<Rightarrow> Some st | None \<Rightarrow> at_or (find_sub ''$'' msg))
          in case start of
               None \<Rightarrow> (False, m)
             | Some st \<Rightarrow> VerifyCheckSum m (substr msg st (e - st + 2)))"

definition ExtractChecksumFromMessage :: "string \<Rightarrow> string" where
  "ExtractChecksumFromMessage msg =
     (case (find_last_of ''*'' msg, find_last_of [CHR 0x0D, CHR 0x0A] msg) of
        (Some i, Some j) \<Rightarrow> if i = 0 \<or> j \<le> i then [] else substr msg (i + 1) 2
      | _ \<Rightarrow> [])"

text \<open>
  \<^verbatim>\<open>Encode\<close> cuts the payload into segments; the virtual \<^verbatim>\<open>EncodePart\<close> is the argument \<open>part\<close>. A
  maximal content of zero divides by zero (\<open>None\<close>).
\<close>

fun encode_loop :: "(nmea \<Rightarrow> string \<Rightarrow> string \<Rightarrow> nmea \<times> string) \<Rightarrow> nat \<Rightarrow> nat \<Rightarrow> nat \<Rightarrow> nmea \<Rightarrow> string
    \<Rightarrow> nmea \<times> string" where
  "encode_loop part mx i 0 m msg = (m, msg)"
| "encode_loop part mx i (Suc n) m msg =
     (case part m msg (substr (m_aszPayload m) (i * mx) mx) of
        (m, msg) \<Rightarrow> encode_loop part mx (i + 1) n (m\<lparr>m_iSentenceNumber := m_iSentenceNumber m + 1\<rparr>) msg)"

definition NMEA_Encode ::
    "(nmea \<Rightarrow> string \<Rightarrow> string \<Rightarrow> nmea \<times> string) \<Rightarrow> nmea \<Rightarrow> string \<Rightarrow> (nmea \<times> string) option" where
  "NMEA_Encode part m msg =
     (if m_iMaxContent m = 0 then None
      else
        let m = m\<lparr>m_iTotalNumberOfMessages := 0, m_iSentenceNumber := 1\<rparr>;
            iLen = length (m_aszPayload m);
            mx = nat (m_iMaxContent m);
            full = iLen div mx;
            m = m\<lparr>m_iTotalNumberOfMessages := int full + (if iLen mod mx \<noteq> 0 then 1 else 0)\<rparr>;
            m = (if m_iTotalNumberOfMessages m > 1 \<and> m_iSequentialMessageIdentifier m < 0
                 then m\<lparr>m_iSequentialMessageIdentifier := 0\<rparr> else m);
            (m, msg) = encode_loop part mx 0 full m msg
        in Some (if iLen mod mx \<noteq> 0
                 then part m msg (substr (m_aszPayload m) (full * mx) (iLen - full * mx))
                 else (m, msg)))"

section \<open>The message that carries a mail\<close>

abbreviation m_clHeader :: string where "m_clHeader \<equiv> ''$PGHP,2''"

definition PGHP2Message_ctor :: nmea where
  "PGHP2Message_ctor = (NMEAMessage_ctor AISNMEATYPE_PGHP2)\<lparr>m_iMaxContent := 512\<rparr>"

definition SetGHMail :: "nmea \<Rightarrow> string \<Rightarrow> nmea" where
  "SetGHMail m mail = SetPayload (m\<lparr>m_fReceivedMessageModified := True\<rparr>) mail True"

abbreviation GetGHMail :: "nmea \<Rightarrow> string" where "GetGHMail \<equiv> m_aszPayload"

text \<open>\<^verbatim>\<open>(char) n + '0'\<close> appended to a string.\<close>

definition number_char :: "int \<Rightarrow> char" where
  "number_char n = char_of (nat ((n + 48) mod 256))"

definition PGHP2_EncodePart :: "nmea \<Rightarrow> string \<Rightarrow> string \<Rightarrow> nmea \<times> string" where
  "PGHP2_EncodePart m msg clData =
     (let sub = m_clHeader @ '','' @ [number_char (m_iTotalNumberOfMessages m)] @ '',''
            @ [number_char (m_iSentenceNumber m)] @ '',''
            @ (if m_iSequentialMessageIdentifier m \<ge> 0
               then [number_char (m_iSequentialMessageIdentifier m)] else [])
            @ '','' @ clData @ ''*'';
          (chk, m) = CalcCheckSumAsString m sub None
      in (m, msg @ sub @ chk @ [CHR 0x0D, CHR 0x0A]))"

abbreviation PGHP2_Encode :: "nmea \<Rightarrow> string \<Rightarrow> (nmea \<times> string) option" where
  "PGHP2_Encode \<equiv> NMEA_Encode PGHP2_EncodePart"

text \<open>
  The loop of \<^verbatim>\<open>Decode\<close> over the segments. The local variables are the record \<open>decoded\<close>; \<open>None\<close> is the
  early \<^verbatim>\<open>return false\<close>.
\<close>

record decoded =
  iNewTotal :: int
  iNewSentence :: int
  iNewSeq :: int
  clNewReceived :: string
  aszNewPayload :: string

definition decode_segment :: "string \<Rightarrow> decoded \<Rightarrow> decoded option" where
  "decode_segment clMessage l =
     (if substr clMessage 0 7 = m_clHeader then
        let (_, total, iStart) = GetSmallInt (iNewTotal l) clMessage 8;
            (_, sentence, iStart) = GetSmallInt (iNewSentence l) clMessage iStart;
            (_, seq, iStart) = GetSmallInt (iNewSeq l) clMessage iStart;
            (_, payload, iStart) = GetString [] clMessage iStart
        in Some \<lparr>iNewTotal = total, iNewSentence = sentence, iNewSeq = seq,
                 clNewReceived = clNewReceived l @ clMessage,
                 aszNewPayload = aszNewPayload l @ payload\<rparr>
      else None)"

function decode_loop :: "string \<Rightarrow> nmea \<Rightarrow> decoded \<Rightarrow> decoded option \<times> nmea" where
  "decode_loop buf m l =
     (case find_char (CHR 0x0A) buf of
        None \<Rightarrow> (Some l, m)
      | Some pos \<Rightarrow>
          (let clMessage = substr buf 0 (pos + 1) in
           case VerifyCheckSum m clMessage of
             (False, m') \<Rightarrow> (None, m')
           | (True, m') \<Rightarrow>
               (case decode_segment clMessage l of
                  None \<Rightarrow> (None, m')
                | Some l' \<Rightarrow> decode_loop (drop (pos + 1) buf) m' l')))"
  by pat_completeness auto
termination
  by (relation "measure (\<lambda>(buf, _, _). length buf)") (auto dest: find_char_Some)

declare decode_loop.simps [simp del]

definition PGHP2_Decode :: "nmea \<Rightarrow> string \<Rightarrow> bool \<times> nmea" where
  "PGHP2_Decode m msg =
     (case decode_loop msg m \<lparr>iNewTotal = 0, iNewSentence = 0, iNewSeq = 0, clNewReceived = [],
                              aszNewPayload = []\<rparr> of
        (None, m') \<Rightarrow> (False, m')
      | (Some l, m') \<Rightarrow>
          (True, m'\<lparr>m_iTotalNumberOfMessages := iNewTotal l, m_iSentenceNumber := iNewSentence l,
                   m_iSequentialMessageIdentifier := iNewSeq l,
                   m_clReceivedMessage := clNewReceived l, m_aszPayload := aszNewPayload l\<rparr>))"

definition VerifyData :: "nmea \<Rightarrow> bool" where
  "VerifyData m \<longleftrightarrow>
     \<not> (m_iTotalNumberOfMessages m < 1 \<or> m_iTotalNumberOfMessages m > 9)
     \<and> \<not> (m_iSentenceNumber m < 1 \<or> m_iSentenceNumber m > 9)
     \<and> \<not> (m_iSequentialMessageIdentifier m < 0 \<or> m_iSequentialMessageIdentifier m > 9)"

section \<open>One sentence\<close>

lemma show_hex_byte: "n < 256 \<Longrightarrow> replicate (2 - length (show_hex n)) (CHR ''0'') @ show_hex n
   = [hex_digit (n div 16), hex_digit (n mod 16)]"
proof (cases "n < 16")
  case True
  then show ?thesis by (subst (1 2) show_hex.simps) (simp add: hex_digit_def)
next
  case False
  moreover assume "n < 256"
  ultimately have "show_hex (n div 16) = [hex_digit (n div 16)]" by (subst show_hex.simps) auto
  with False show ?thesis by (subst (1 2) show_hex.simps) simp
qed

lemma Format_byte: "FormatNmeaCheckSum (ucast b) = hex2 b"
proof -
  have lt: "unat b < 256" using unsigned_less [where 'a = nat, of b] by simp
  then have "unat (ucast b :: u32) = unat b"
    by (simp add: unsigned_ucast_eq unsigned_take_bit_eq take_bit_eq_mod)
  with show_hex_byte [OF lt] show ?thesis by (simp add: FormatNmeaCheckSum_def Let_def hex2_def)
qed

abbreviation xor_all :: "u8 \<Rightarrow> string \<Rightarrow> u8" where
  "xor_all \<equiv> foldl (\<lambda>a c. a XOR byte_of c)"

lemma checksum_loop_append:
  "CHR ''*'' \<notin> set xs \<Longrightarrow> checksum_loop (xs @ ys) a = checksum_loop ys (xor_all a xs)"
  by (induction xs arbitrary: a) auto

lemma CalcNmeaCheckSum_body:
  assumes "CHR ''*'' \<notin> set body" "body \<noteq> []" "hd body \<in> {CHR ''$'', CHR ''!''}"
  shows "CalcNmeaCheckSum (body @ CHR ''*'' # rest) None = xor_all 0 (tl body)"
    and "CalcNmeaCheckSum (body @ CHR ''*'' # rest) (Some (length body)) = xor_all 0 (tl body)"
proof -
  obtain c b where body: "body = c # b" using assms(2) by (cases body) auto
  then have "CHR ''*'' \<notin> set b" using assms(1) by simp
  from checksum_loop_append [OF this] have "checksum_loop (b @ CHR ''*'' # rest) 0 = xor_all 0 b"
    "checksum_loop b 0 = xor_all 0 b"
    using checksum_loop_append [OF \<open>CHR ''*'' \<notin> set b\<close>, of "[]" 0] by simp_all
  then show "CalcNmeaCheckSum (body @ CHR ''*'' # rest) None = xor_all 0 (tl body)"
    "CalcNmeaCheckSum (body @ CHR ''*'' # rest) (Some (length body)) = xor_all 0 (tl body)"
    using assms(3) by (auto simp: CalcNmeaCheckSum_def body Let_def)
qed

text \<open>A sentence: body, checksum and line end.\<close>

definition sentence :: "string \<Rightarrow> string" where
  "sentence body = body @ ''*'' @ hex2 (xor_all 0 (tl body)) @ [CHR 0x0D, CHR 0x0A]"

lemma VerifyCheckSum_body:
  assumes "CHR ''*'' \<notin> set body" "body \<noteq> []" "hd body \<in> {CHR ''$'', CHR ''!''}"
  shows "VerifyCheckSum m (body @ CHR ''*'' # rest)
    = (hex2 (xor_all 0 (tl body)) = take 2 rest, m\<lparr>m_iCheckSum := ucast (xor_all 0 (tl body))\<rparr>)"
  using CalcNmeaCheckSum_body [OF assms] find_char_append [OF assms(1)] assms(2)
  by (simp add: VerifyCheckSum_def CalcCheckSumAsString_def Let_def Format_byte substr_def)

lemma hex2_eq: "hex2 a = hex2 b \<longleftrightarrow> a = b"
proof
  assume "hex2 a = hex2 b"
  then have "Ascii2Byte [] (hex2 a) = Ascii2Byte [] (hex2 b)" by simp
  then show "a = b" using Ascii2Byte_hex [of "[]" "[a]"] Ascii2Byte_hex [of "[]" "[b]"] by simp
qed simp

lemma xor_all_start: "xor_all a s = a XOR xor_all 0 s"
proof (induction s arbitrary: a)
  case (Cons c s)
  show ?case by (simp add: Cons [of "a XOR byte_of c"] Cons [of "byte_of c"] xor.assoc)
qed simp

lemma xor_cancel: "a XOR k = b XOR k \<longleftrightarrow> a = (b :: u8)"
  by (metis xor.assoc xor_self_eq xor.right_neutral)

lemma xor_all_change: "xor_all a (p @ c # q) = xor_all a (p @ d # q) \<longleftrightarrow> c = d"
proof
  assume e: "xor_all a (p @ c # q) = xor_all a (p @ d # q)"
  have r: "xor_all a (p @ x # q) = byte_of x XOR (xor_all a p XOR xor_all 0 q)" for x
    using xor_all_start [of "xor_all a p XOR byte_of x" q] by (simp add: xor.assoc xor.left_commute)
  show "c = d" using e unfolding r xor_cancel by simp
qed simp

text \<open>
  The checksum test accepts exactly the right sum, and so catches every corruption of a single
  character: in a text that passes \<^verbatim>\<open>VerifyCheckSum\<close>, changing one character between the start
  character and the asterisk to any other character but the asterisk makes it fail.
\<close>

theorem checksum_detects_change:
  assumes "VerifyCheckSum m (s # p @ c # q @ CHR ''*'' # rest) = (True, m')"
    and "s \<in> {CHR ''$'', CHR ''!''}" and "CHR ''*'' \<notin> set (p @ c # d # q)" and "d \<noteq> c"
  shows "fst (VerifyCheckSum m (s # p @ d # q @ CHR ''*'' # rest)) = False"
proof -
  have "CHR ''*'' \<notin> set (s # p @ x # q)" if "x = c \<or> x = d" for x using assms(2,3) that by auto
  then have v: "fst (VerifyCheckSum m (s # p @ x # q @ CHR ''*'' # rest))
      = (hex2 (xor_all 0 (p @ x # q)) = take 2 rest)" if "x = c \<or> x = d" for x
    using VerifyCheckSum_body [of "s # p @ x # q" m rest] assms(2) that by simp
  have "hex2 (xor_all 0 (p @ c # q)) = take 2 rest" using v [of c] assms(1) by simp
  moreover have "hex2 (xor_all 0 (p @ c # q)) \<noteq> hex2 (xor_all 0 (p @ d # q))"
    unfolding hex2_eq xor_all_change using assms(4) by simp
  ultimately show ?thesis using v [of d] by simp
qed

theorem checksum_detects_change_witness:
  "fst (VerifyCheckSum (NMEAMessage_ctor 1) ''$AB*03'') = True \<and>
   fst (VerifyCheckSum (NMEAMessage_ctor 1) ''$AC*03'') = False"
proof -
  have v: "VerifyCheckSum (NMEAMessage_ctor 1) ''$AB*03'' = (True, NMEAMessage_ctor 1\<lparr>m_iCheckSum := 3\<rparr>)"
    by code_simp
  then show ?thesis
    using checksum_detects_change [of "NMEAMessage_ctor 1" "CHR ''$''" "''A''" "CHR ''B''" "[]" "''03''"
        "NMEAMessage_ctor 1\<lparr>m_iCheckSum := 3\<rparr>" "CHR ''C''"] by simp
qed

section \<open>A mail over several sentences\<close>

text \<open>The characters that separate fields and sentences; a mail in hexadecimal has none of them.\<close>

definition separators :: "char set" where
  "separators = {CHR '','', CHR ''*'', CHR 0x0D, CHR 0x0A}"

lemma number_char_plain: "0 \<le> n \<Longrightarrow> n < 218 \<Longrightarrow> number_char n \<notin> separators"
proof -
  assume n: "0 \<le> n" "n < 218"
  define k where "k = nat ((n + 48) mod 256)"
  have "(n + 48) mod 256 = (if n < 208 then n + 48 else n - 208)"
    using n mod_pos_pos_trivial [of "n + 48" 256] mod_add_self2 [of "n - 208" 256]
     
      mod_pos_pos_trivial [of "n - 208" 256] by (auto simp: add.commute)
  then have k: "k < 256" "k \<notin> {44, 42, 13, 10}" using n by (auto simp: k_def)
  have "of_char (char_of k :: char) = k" using k(1) by simp
  then have ne: "c \<noteq> char_of k" if "of_char c \<in> {44, 42, 13, 10 :: nat}" for c using that k(2) by auto
  show ?thesis unfolding number_char_def k_def [symmetric] separators_def
    using ne [of "CHR '',''"] ne [of "CHR ''*''"] ne [of "CHR 0x0D"] ne [of "CHR 0x0A"] by auto
qed

definition body :: "nmea \<Rightarrow> string \<Rightarrow> string" where
  "body m p = m_clHeader @ '','' @ [number_char (m_iTotalNumberOfMessages m)] @ '',''
     @ [number_char (m_iSentenceNumber m)] @ '',''
     @ (if m_iSequentialMessageIdentifier m \<ge> 0
        then [number_char (m_iSequentialMessageIdentifier m)] else []) @ '','' @ p"

definition encodable :: "nmea \<Rightarrow> bool" where
  "encodable m \<longleftrightarrow> 0 \<le> m_iTotalNumberOfMessages m \<and> m_iTotalNumberOfMessages m < 218
     \<and> 0 \<le> m_iSentenceNumber m \<and> m_iSentenceNumber m < 218
     \<and> m_iSequentialMessageIdentifier m < 218"

lemma body_plain:
  assumes "encodable m" "set p \<inter> separators = {}"
  shows "CHR ''*'' \<notin> set (body m p)" "CHR 0x0A \<notin> set (body m p)" "body m p \<noteq> []" "hd (body m p) = CHR ''$''"
  using assms number_char_plain [of "m_iTotalNumberOfMessages m"] number_char_plain [of "m_iSentenceNumber m"]
    number_char_plain [of "m_iSequentialMessageIdentifier m"]
  by (auto simp: body_def encodable_def separators_def)

lemma EncodePart_sentence:
  assumes "encodable m" "set p \<inter> separators = {}"
  shows "PGHP2_EncodePart m msg p
    = (m\<lparr>m_iCheckSum := ucast (xor_all 0 (tl (body m p)))\<rparr>, msg @ sentence (body m p))"
proof -
  have "PGHP2_EncodePart m msg p = (let (chk, m') = CalcCheckSumAsString m (body m p @ CHR ''*'' # []) None
      in (m', msg @ (body m p @ ''*'') @ chk @ [CHR 0x0D, CHR 0x0A]))"
    by (simp add: PGHP2_EncodePart_def body_def Let_def)
  then show ?thesis
    using CalcNmeaCheckSum_body(1) [OF body_plain(1,3) [OF assms], of "[]"] body_plain(4) [OF assms]
    by (simp add: CalcCheckSumAsString_def Let_def Format_byte sentence_def)
qed

lemma scan_to_found:
  assumes "i \<le> k" "k < length s" "stop k (s ! k)" "\<And>j. i \<le> j \<Longrightarrow> j < k \<Longrightarrow> \<not> stop j (s ! j)"
  shows "scan_to stop s i = Some k"
  using assms
proof (induction "k - i" arbitrary: i)
  case 0
  then show ?case by (subst scan_to.simps) simp
next
  case (Suc n)
  then have "scan_to stop s (i + 1) = Some k" by simp
  moreover have "\<not> stop i (s ! i)" "i < length s" using Suc by auto
  ultimately show ?case by (subst scan_to.simps) simp
qed

lemma GetString_field:
  assumes "set p \<inter> separators = {}" "rest \<noteq> []" and k: "k = length pre"
  shows "GetString d (pre @ p @ CHR ''*'' # rest) k = (True, p, k + length p + 1)"
proof -
  let ?s = "pre @ p @ CHR ''*'' # rest"
  have "scan_to (\<lambda>i ch. ch \<in> {CHR '','', CHR ''*'', CHR 0x0D} \<or> i = length ?s - 1) ?s (length pre)
      = Some (length pre + length p)"
  proof (rule scan_to_found)
    fix j assume j: "length pre \<le> j" "j < length pre + length p"
    then have "?s ! j = p ! (j - length pre)" "p ! (j - length pre) \<in> set p"
      by (auto simp: nth_append)
    then obtain c where c: "?s ! j = c" "c \<in> set p" by blast
    show "\<not> (?s ! j \<in> {CHR '','', CHR ''*'', CHR 0x0D} \<or> j = length ?s - 1)"
      unfolding c(1) using assms(1) c(2) j by (auto simp: separators_def)
  qed (auto simp: nth_append)
  then show ?thesis by (auto simp: GetString_def substr_def k)
qed

lemma decode_segment_body:
  assumes "encodable m" "set p \<inter> separators = {}" "rest \<noteq> []"
  shows "\<exists>l'. decode_segment (body m p @ CHR ''*'' # rest) l = Some l'
    \<and> aszNewPayload l' = aszNewPayload l @ p"
proof -
  let ?t = "number_char (m_iTotalNumberOfMessages m)" and ?n = "number_char (m_iSentenceNumber m)"
  let ?q = "number_char (m_iSequentialMessageIdentifier m)"
  have plain: "?t \<notin> separators" "?n \<notin> separators"
    and q: "m_iSequentialMessageIdentifier m \<ge> 0 \<Longrightarrow> ?q \<notin> separators"
    using assms(1) number_char_plain by (auto simp: encodable_def)
  show ?thesis
  proof (cases "m_iSequentialMessageIdentifier m \<ge> 0")
    case True
    let ?pre = "m_clHeader @ [CHR '','', ?t, CHR '','', ?n, CHR '','', ?q, CHR '','']"
    have "body m p @ CHR ''*'' # rest = ?pre @ p @ CHR ''*'' # rest" using True by (simp add: body_def)
    with plain q [OF True] GetString_field [OF assms(2,3), of 14 ?pre "[]"] show ?thesis
      by (simp add: decode_segment_def substr_def GetSmallInt_def c_str_def separators_def Let_def)
  next
    case False
    let ?pre = "m_clHeader @ [CHR '','', ?t, CHR '','', ?n, CHR '','', CHR '','']"
    have "body m p @ CHR ''*'' # rest = ?pre @ p @ CHR ''*'' # rest" using False by (simp add: body_def)
    with plain GetString_field [OF assms(2,3), of 13 ?pre "[]"] show ?thesis
      by (simp add: decode_segment_def substr_def GetSmallInt_def c_str_def separators_def Let_def)
  qed
qed

text \<open>
  A text carries a payload when the decoding loop, whatever it has collected and whatever follows,
  runs over the text and has the payload appended.
\<close>

definition carries :: "string \<Rightarrow> string \<Rightarrow> bool" where
  "carries str p \<longleftrightarrow> (\<forall>rest nm l. \<exists>nm' l'. decode_loop (str @ rest) nm l = decode_loop rest nm' l'
     \<and> aszNewPayload l' = aszNewPayload l @ p)"

lemma carries_Nil: "carries [] []"
  by (auto simp: carries_def)

lemma carries_append: "carries s p \<Longrightarrow> carries t q \<Longrightarrow> carries (s @ t) (p @ q)"
  unfolding carries_def by (metis append.assoc)

lemma hex2_no_newline: "CHR 0x0A \<notin> set (hex2 b)"
proof -
  have "unat b < 256" using unsigned_less [where 'a = nat, of b] by simp
  then have "unat b div 16 < 16" by auto
  from hex_digit_plain [OF this] hex_digit_plain [of "unat b mod 16"]
  have "\<not> is_space c" if "c \<in> set (hex2 b)" for c using that by (auto simp: hex2_def)
  then show ?thesis by (force simp: is_space_def)
qed

lemma decode_loop_line:
  assumes "encodable m" "set p \<inter> separators = {}" "CHR 0x0A \<notin> set tail"
  defines "b \<equiv> body m p"
  shows "\<exists>nm' l'. decode_loop ((b @ CHR ''*'' # hex2 (xor_all 0 (tl b)) @ tail @ [CHR 0x0A]) @ rest) nm l
      = decode_loop rest nm' l' \<and> aszNewPayload l' = aszNewPayload l @ p"
proof -
  let ?chk = "hex2 (xor_all 0 (tl b))"
  let ?s = "b @ CHR ''*'' # ?chk @ tail @ [CHR 0x0A]"
  let ?nm = "nm\<lparr>m_iCheckSum := ucast (xor_all 0 (tl b))\<rparr>"
  note plain = body_plain [OF assms(1,2), folded b_def]
  have hex: "length ?chk = 2" "CHR 0x0A \<notin> set ?chk"
    by (simp add: hex2_def, rule hex2_no_newline)
  obtain pos where pos: "Suc pos = length ?s" by simp
  have nl: "find_char (CHR 0x0A) (?s @ rest) = Some pos"
  proof -
    have "CHR 0x0A \<notin> set (b @ CHR ''*'' # ?chk @ tail)" using plain(2) hex(2) assms(3) by simp
    from find_char_append [OF this, of rest] pos show ?thesis by simp
  qed
  have parts: "substr (?s @ rest) 0 (Suc pos) = ?s" "drop (Suc pos) (?s @ rest) = rest"
    unfolding pos by (simp_all add: substr_def)
  have v: "VerifyCheckSum nm ?s = (True, ?nm)"
    using VerifyCheckSum_body [OF plain(1,3), of nm "?chk @ tail @ [CHR 0x0A]"] plain(4) hex(1) by simp
  obtain l' where l': "decode_segment ?s l = Some l'" "aszNewPayload l' = aszNewPayload l @ p"
    using decode_segment_body [OF assms(1,2), of "?chk @ tail @ [CHR 0x0A]" l] by (auto simp: b_def)
  have "decode_loop (?s @ rest) nm l = decode_loop rest ?nm l'"
    unfolding decode_loop.simps [of "?s @ rest"] by (simp only: nl parts v l' Let_def option.case prod.case bool.case Suc_eq_plus1 [symmetric])
  with l'(2) show ?thesis by blast
qed

lemma carries_sentence:
  assumes "encodable m" "set p \<inter> separators = {}"
  shows "carries (sentence (body m p)) p"
  using decode_loop_line [OF assms, of "[CHR 0x0D]"] unfolding carries_def sentence_def by simp

lemma encode_loop_carries:
  assumes "encodable m" "m_iSentenceNumber m + int n < 218" "set (m_aszPayload m) \<inter> separators = {}"
  shows "\<exists>m' str. encode_loop PGHP2_EncodePart mx i n m msg = (m', msg @ str)
    \<and> carries str (take (n * mx) (drop (i * mx) (m_aszPayload m)))
    \<and> encodable m' \<and> m_aszPayload m' = m_aszPayload m"
  using assms
proof (induction n arbitrary: m i msg)
  case 0
  then show ?case by (auto intro: carries_Nil)
next
  case (Suc n)
  let ?p = "substr (m_aszPayload m) (i * mx) mx"
  let ?m = "m\<lparr>m_iCheckSum := ucast (xor_all 0 (tl (body m ?p))), m_iSentenceNumber := m_iSentenceNumber m + 1\<rparr>"
  have sep: "set ?p \<inter> separators = {}"
    using Suc.prems(3) set_take_subset set_drop_subset by (fastforce simp: substr_def)
  have "encodable ?m" using Suc.prems by (simp add: encodable_def)
  from Suc.IH [OF this, of "i + 1" "msg @ sentence (body m ?p)"] Suc.prems obtain m' str where
    IH: "encode_loop PGHP2_EncodePart mx (i + 1) n ?m (msg @ sentence (body m ?p)) = (m', msg @ sentence (body m ?p) @ str)"
    "carries str (take (n * mx) (drop ((i + 1) * mx) (m_aszPayload m)))" "encodable m'"
    "m_aszPayload m' = m_aszPayload m" by auto
  have "encode_loop PGHP2_EncodePart mx i (Suc n) m msg = (m', msg @ sentence (body m ?p) @ str)"
    using IH(1) by (simp add: EncodePart_sentence [OF Suc.prems(1) sep])
  moreover have "take (Suc n * mx) (drop (i * mx) (m_aszPayload m))
      = ?p @ take (n * mx) (drop ((i + 1) * mx) (m_aszPayload m))"
    by (simp add: substr_def take_add add.commute)
  ultimately show ?case
    using carries_append [OF carries_sentence [OF Suc.prems(1) sep] IH(2)] IH(3,4) by auto
qed

lemma PGHP2_Encode_carries:
  assumes "m_iMaxContent m = 512" "length (m_aszPayload m) \<le> 217 * 512 - 512"
    "set (m_aszPayload m) \<inter> separators = {}" "m_iSequentialMessageIdentifier m < 218"
  shows "\<exists>m' str. PGHP2_Encode m msg = Some (m', msg @ str) \<and> carries str (m_aszPayload m)"
proof -
  let ?P = "m_aszPayload m" and ?full = "length (m_aszPayload m) div 512"
  let ?total = "int ?full + (if length ?P mod 512 \<noteq> 0 then 1 else 0)"
  define m0 where "m0 = m\<lparr>m_iSentenceNumber := 1, m_iTotalNumberOfMessages := ?total\<rparr>"
  define m1 where "m1 = (if m_iTotalNumberOfMessages m0 > 1 \<and> m_iSequentialMessageIdentifier m0 < 0
      then m0\<lparr>m_iSequentialMessageIdentifier := 0\<rparr> else m0)"
  have full: "?full \<le> 216" using assms(2) by auto
  have m1: "encodable m1" "m_iSentenceNumber m1 + int ?full < 218" "m_aszPayload m1 = ?P"
    using full assms(4) by (auto simp: m0_def m1_def encodable_def)
  obtain m2 str where loop: "encode_loop PGHP2_EncodePart 512 0 ?full m1 msg = (m2, msg @ str)"
    "carries str (take (?full * 512) ?P)" "encodable m2" "m_aszPayload m2 = ?P"
    using encode_loop_carries [OF m1(1,2), of 512 0 msg] assms(3) m1(3) by auto
  let ?p = "substr ?P (?full * 512) (length ?P - ?full * 512)"
  have p: "?p = drop (?full * 512) ?P" by (simp add: substr_def)
  have enc: "PGHP2_Encode m msg = Some (if length ?P mod 512 \<noteq> 0
      then PGHP2_EncodePart m2 (msg @ str) ?p else (m2, msg @ str))"
    proof -
    have "PGHP2_Encode m msg = (let (m', msg') = encode_loop PGHP2_EncodePart 512 0 ?full m1 msg
        in Some (if length ?P mod 512 \<noteq> 0 then PGHP2_EncodePart m' msg'
          (substr (m_aszPayload m') (?full * 512) (length ?P - ?full * 512)) else (m', msg')))"
      using assms(1) by (simp add: NMEA_Encode_def Let_def m1_def m0_def)
    then show ?thesis by (simp add: loop(1,4))
  qed
  show ?thesis
  proof (cases "length ?P mod 512 = 0")
    case True
    then have "?full * 512 = length ?P" by auto
    with loop(2) True enc show ?thesis by auto
  next
    case False
    have "set ?p \<inter> separators = {}" using assms(3) set_drop_subset unfolding p by fastforce
    note part = EncodePart_sentence [OF loop(3) this] carries_sentence [OF loop(3) this]
    have "carries (str @ sentence (body m2 ?p)) ?P"
      using carries_append [OF loop(2) part(2)] by (simp add: p)
    with False enc part(1) show ?thesis by auto
  qed
qed

text \<open>
  C38: a GateHouse mail arrives complete. For every mail of at most 110592 characters that holds no
  field or line separator (the hexadecimal text of a message never does), \<^verbatim>\<open>Encode\<close> returns, cutting
  the mail into sentences of at most 512 characters where needed, and a receiver that decodes those
  sentences accepts every checksum and holds exactly the mail.
\<close>

theorem pghp2_mail_roundtrip:
  assumes "length mail \<le> 110592" and "set mail \<inter> separators = {}"
  shows "\<exists>m msg. PGHP2_Encode (SetGHMail PGHP2Message_ctor mail) [] = Some (m, msg)
    \<and> fst (PGHP2_Decode PGHP2Message_ctor msg) = True
    \<and> GetGHMail (snd (PGHP2_Decode PGHP2Message_ctor msg)) = mail"
proof -
  obtain m msg where e: "PGHP2_Encode (SetGHMail PGHP2Message_ctor mail) [] = Some (m, msg)" "carries msg mail"
    using PGHP2_Encode_carries [of "SetGHMail PGHP2Message_ctor mail" "[]"] assms
    by (auto simp: SetGHMail_def SetPayload_def PGHP2Message_ctor_def NMEAMessage_ctor_def)
  let ?l = "\<lparr>iNewTotal = 0, iNewSentence = 0, iNewSeq = 0, clNewReceived = [], aszNewPayload = []\<rparr>"
  obtain nm l where "decode_loop (msg @ []) PGHP2Message_ctor ?l = decode_loop [] nm l"
    "aszNewPayload l = aszNewPayload ?l @ mail"
    using e(2) unfolding carries_def by blast
  then have "decode_loop msg PGHP2Message_ctor ?l = (Some l, nm)" "aszNewPayload l = mail"
    by (simp_all add: decode_loop.simps [of "[]"])
  with e(1) show ?thesis by (simp add: PGHP2_Decode_def)
qed

theorem pghp2_mail_roundtrip_witness:
  "set ''0201FF'' \<inter> separators = {} \<and>
   (\<exists>m msg. PGHP2_Encode (SetGHMail PGHP2Message_ctor ''0201FF'') [] = Some (m, msg)
     \<and> GetGHMail (snd (PGHP2_Decode PGHP2Message_ctor msg)) = ''0201FF'')"
  using pghp2_mail_roundtrip [of "''0201FF''"] by (auto simp: separators_def)

end
