(* ===== verification/JsonUtil.thy ===== *)
theory JsonUtil
  imports StrUtil
begin

text \<open>
  The readers and writers of configuration values in \<^verbatim>\<open>src/src/cppcms_util.h\<close> and the end of
  \<^verbatim>\<open>src/src/applutil.cpp\<close>. The JSON library (\<^verbatim>\<open>cppcms::json::value\<close>) is not part of the repository: its
  operations are the record \<open>json_api\<close>, an argument of every definition, and \<open>json_laws\<close> states what
  its documentation promises of them.
\<close>

section \<open>The library as a parameter\<close>

datatype json_type =
  is_undefined | is_null | is_boolean | is_number | is_string | is_object | is_array

text \<open>
  \<open>jint\<close> is \<^verbatim>\<open>get_value<int>()\<close> of a number (it may raise \<^verbatim>\<open>bad_value_cast\<close>), \<open>jset\<close> the assignment
  \<^verbatim>\<open>obj[name] = v\<close>, \<open>jadd\<close> an assignment one past the end of an array.
\<close>

record 'j json_api =
  jundef :: 'j
  jtype :: "'j \<Rightarrow> json_type"
  jfind :: "'j \<Rightarrow> string \<Rightarrow> 'j"
  jint :: "'j \<Rightarrow> exn + int"
  jstr :: "'j \<Rightarrow> string"
  jbool :: "'j \<Rightarrow> bool"
  jarray :: "'j \<Rightarrow> 'j list"
  jset :: "'j \<Rightarrow> string \<Rightarrow> 'j \<Rightarrow> 'j"
  of_string :: "string \<Rightarrow> 'j"
  of_number :: "int \<Rightarrow> 'j"
  of_boolean :: "bool \<Rightarrow> 'j"
  of_array :: "'j list \<Rightarrow> 'j"

text \<open>
  The documented behaviour the code relies on, for the names it uses, which hold no dot: a default
  constructed value is undefined and has no members; assigning a member makes an undefined value an
  object and changes that member only; a value has the type and the content it was made from.
\<close>

definition plain_name :: "string \<Rightarrow> bool" where
  "plain_name k \<longleftrightarrow> k \<noteq> [] \<and> CHR ''.'' \<notin> set k"

definition json_laws :: "'j json_api \<Rightarrow> bool" where
  "json_laws J \<longleftrightarrow>
     jtype J (jundef J) = is_undefined
   \<and> (\<forall>k. jfind J (jundef J) k = jundef J)
   \<and> (\<forall>o1 k v. plain_name k \<longrightarrow> jtype J o1 \<in> {is_undefined, is_object} \<longrightarrow>
        jtype J (jset J o1 k v) = is_object
      \<and> jfind J (jset J o1 k v) k = v
      \<and> (\<forall>k'. plain_name k' \<and> k' \<noteq> k \<longrightarrow> jfind J (jset J o1 k v) k' = jfind J o1 k'))
   \<and> (\<forall>s. jtype J (of_string J s) = is_string \<and> jstr J (of_string J s) = s)
   \<and> (\<forall>n. jtype J (of_number J n) = is_number
        \<and> (- (2 ^ 31) \<le> n \<and> n < 2 ^ 31 \<longrightarrow> jint J (of_number J n) = Inr n))
   \<and> (\<forall>b. jtype J (of_boolean J b) = is_boolean \<and> jbool J (of_boolean J b) = b)
   \<and> (\<forall>xs. jtype J (of_array J xs) = is_array \<and> jarray J (of_array J xs) = xs)"

section \<open>Reading into a variable\<close>

text \<open>
  The overloads with a reference parameter. The target is \<open>None\<close> while it is uninitialised; the
  result is the flag and the new target.
\<close>

definition check_int_ref ::
    "'j json_api \<Rightarrow> 'j \<Rightarrow> string \<Rightarrow> int option \<Rightarrow> (bool \<times> int option) outcome" where
  "check_int_ref J obj name result =
     (if length name > 0 then
        let value = jfind J obj name in
        if jtype J value = is_number then
          (case jint J value of Inl e \<Rightarrow> raise e | Inr v \<Rightarrow> ret (True, Some v))
        else if jtype J value = is_string then ret (True, from_string (jstr J value) result)
        else ret (False, result)
      else ret (False, result))"

text \<open>
  \<^verbatim>\<open>check_port\<close> hands an uninitialised variable on; when it is still uninitialised afterwards, the
  assignment reads it (\<open>None\<close>). The conversion to \<^verbatim>\<open>unsigned short\<close> keeps the low sixteen bits.
\<close>

definition check_port :: "'j json_api \<Rightarrow> 'j \<Rightarrow> string \<Rightarrow> u16 \<Rightarrow> (bool \<times> u16) outcome" where
  "check_port J obj name result =
     after (check_int_ref J obj name None)
       (\<lambda>(ok, value). if ok then case value of None \<Rightarrow> None | Some v \<Rightarrow> ret (True, of_int v)
                     else ret (False, result))"

definition check_bool_ref :: "'j json_api \<Rightarrow> 'j \<Rightarrow> string \<Rightarrow> bool \<Rightarrow> (bool \<times> bool) outcome" where
  "check_bool_ref J obj name result =
     (if length name > 0 then
        let value = jfind J obj name in
        if jtype J value = is_number then
          (case jint J value of Inl e \<Rightarrow> raise e | Inr v \<Rightarrow> ret (True, v > 0))
        else if jtype J value = is_string then
          ret (True, jstr J value = ''true'' \<or> jstr J value = ''on'')
        else if jtype J value = is_boolean then ret (True, jbool J value)
        else ret (False, result)
      else ret (False, result))"

definition check_string_ref :: "'j json_api \<Rightarrow> 'j \<Rightarrow> string \<Rightarrow> string \<Rightarrow> bool \<times> string" where
  "check_string_ref J obj name result =
     (if length name > 0 \<and> jtype J (jfind J obj name) = is_string
      then (True, jstr J (jfind J obj name)) else (False, result))"

definition check_date_ref :: "'j json_api \<Rightarrow> 'j \<Rightarrow> string \<Rightarrow> string \<Rightarrow> bool \<times> string" where
  "check_date_ref J obj name result = check_string_ref J obj name result"

section \<open>Reading with a default\<close>

definition required_error :: "string \<Rightarrow> exn" where
  "required_error name =
     runtime_error (''Failed to validate JSON input for value '' @ name @ '' which is required'')"

definition check_int :: "'j json_api \<Rightarrow> 'j \<Rightarrow> string \<Rightarrow> int \<Rightarrow> bool \<Rightarrow> int outcome" where
  "check_int J obj name dflt req =
     (if length name > 0 then
        let value = jfind J obj name in
        if jtype J value = is_number then
          (case jint J value of Inl e \<Rightarrow> raise e | Inr v \<Rightarrow> ret v)
        else if jtype J value = is_string then
          ret (case from_string (jstr J value) (Some dflt) of None \<Rightarrow> dflt | Some v \<Rightarrow> v)
        else ret dflt
      else if req then raise (required_error name)
      else ret dflt)"

definition check_bool :: "'j json_api \<Rightarrow> 'j \<Rightarrow> string \<Rightarrow> bool \<Rightarrow> bool \<Rightarrow> bool outcome" where
  "check_bool J obj name dflt req =
     (let missing = (if req
          then raise (runtime_error (''Failed to validate JSON input for bool value '' @ name
                 @ '' which is required''))
          else ret dflt) in
      if length name > 0 then
        let value = jfind J obj name in
        if jtype J value = is_boolean then ret (jbool J value)
        else if jtype J value = is_number then
          (case jint J value of Inl e \<Rightarrow> raise e | Inr v \<Rightarrow> ret (v > 0))
        else if jtype J value = is_string then
          ret (jstr J value = ''true'' \<or> jstr J value = ''on'')
        else missing
      else missing)"

definition check_string :: "'j json_api \<Rightarrow> 'j \<Rightarrow> string \<Rightarrow> string \<Rightarrow> bool \<Rightarrow> string outcome" where
  "check_string J obj name dflt req =
     (if length name > 0 then
        ret (if jtype J (jfind J obj name) = is_string then jstr J (jfind J obj name) else dflt)
      else if req then raise (required_error name)
      else ret dflt)"

section \<open>Writing\<close>

definition set_value_string :: "'j json_api \<Rightarrow> 'j \<Rightarrow> string \<Rightarrow> string \<Rightarrow> 'j" where
  "set_value_string J obj name value = (if value \<noteq> [] then jset J obj name (of_string J value) else obj)"

definition set_value_port :: "'j json_api \<Rightarrow> 'j \<Rightarrow> string \<Rightarrow> u16 \<Rightarrow> 'j" where
  "set_value_port J obj name value =
     (if value > 0 then jset J obj name (of_number J (uint value)) else obj)"

section \<open>A library that satisfies the laws\<close>

text \<open>
  Values as trees with the members of an object in an association list, for the instances at which
  the properties are applied.
\<close>

datatype tree =
  Undefined | Null | Boolean bool | Number int | String string | Object "(string \<times> tree) list"
| Array "tree list"

definition tree_api :: "tree json_api" where
  "tree_api =
     \<lparr>jundef = Undefined,
      jtype = (\<lambda>v. case v of Undefined \<Rightarrow> is_undefined | Null \<Rightarrow> is_null | Boolean _ \<Rightarrow> is_boolean
               | Number _ \<Rightarrow> is_number | String _ \<Rightarrow> is_string | Object _ \<Rightarrow> is_object | Array _ \<Rightarrow> is_array),
      jfind = (\<lambda>v k. case v of Object ms \<Rightarrow> (case map_of ms k of None \<Rightarrow> Undefined | Some w \<Rightarrow> w) | _ \<Rightarrow> Undefined),
      jint = (\<lambda>v. case v of Number n \<Rightarrow> if - (2 ^ 31) \<le> n \<and> n < 2 ^ 31 then Inr n else Inl bad_value_cast
                 | _ \<Rightarrow> Inl bad_value_cast),
      jstr = (\<lambda>v. case v of String s \<Rightarrow> s | _ \<Rightarrow> []),
      jbool = (\<lambda>v. case v of Boolean b \<Rightarrow> b | _ \<Rightarrow> False),
      jarray = (\<lambda>v. case v of Array xs \<Rightarrow> xs | _ \<Rightarrow> []),
      jset = (\<lambda>v k w. case v of Object ms \<Rightarrow> Object ((k, w) # filter (\<lambda>(k', _). k' \<noteq> k) ms)
                 | _ \<Rightarrow> Object [(k, w)]),
      of_string = String, of_number = Number, of_boolean = Boolean, of_array = Array\<rparr>"

lemma tree_api_simps [json_simps]:
  "of_number tree_api = Number" "of_string tree_api = String" "of_array tree_api = Array"
  "of_boolean tree_api = Boolean"
  "jfind tree_api (Object ms) k = (case map_of ms k of None \<Rightarrow> Undefined | Some w \<Rightarrow> w)"
  "jarray tree_api (Array xs) = xs" "jtype tree_api (Array xs) = is_array"
  "jtype tree_api (Object ms) = is_object" "jtype tree_api (String s) = is_string"
  "jtype tree_api (Number n) = is_number" "jtype tree_api Undefined = is_undefined"
  "jstr tree_api (String s) = s"
  "jint tree_api (Number n) = (if - (2 ^ 31) \<le> n \<and> n < 2 ^ 31 then Inr n else Inl bad_value_cast)"
  by (simp_all add: tree_api_def)

lemma map_of_filter_other: "k' \<noteq> k \<Longrightarrow> map_of (filter (\<lambda>(x, _). x \<noteq> k) ms) k' = map_of ms k'"
  by (induction ms) auto

lemma tree_api_laws: "json_laws tree_api"
  by (auto simp: json_laws_def tree_api_def map_of_filter_other split: tree.splits)

section \<open>What is written is read back\<close>

lemma json_set:
  assumes "json_laws J" "plain_name k" "jtype J o1 \<in> {is_undefined, is_object}"
  shows "jtype J (jset J o1 k v) = is_object" "jfind J (jset J o1 k v) k = v"
    "plain_name k' \<Longrightarrow> k' \<noteq> k \<Longrightarrow> jfind J (jset J o1 k v) k' = jfind J o1 k'"
  using assms unfolding json_laws_def by blast+

lemma json_values:
  assumes "json_laws J"
  shows "jtype J (of_string J s) = is_string" "jstr J (of_string J s) = s"
    "jtype J (of_number J n) = is_number"
    "- (2 ^ 31) \<le> n \<Longrightarrow> n < 2 ^ 31 \<Longrightarrow> jint J (of_number J n) = Inr n"
    "jtype J (of_array J xs) = is_array" "jarray J (of_array J xs) = xs"
    "jtype J (jundef J) = is_undefined" "jfind J (jundef J) k = jundef J"
    "jtype J (of_boolean J b) = is_boolean" "jbool J (of_boolean J b) = b"
  using assms unfolding json_laws_def by auto

text \<open>
  An object under construction: it is undefined until the first member is written, and it holds
  exactly the members written so far.
\<close>

definition holds :: "'j json_api \<Rightarrow> 'j \<Rightarrow> (string \<rightharpoonup> 'j) \<Rightarrow> bool" where
  "holds J obj f \<longleftrightarrow> jtype J obj = (if f = Map.empty then is_undefined else is_object)
     \<and> (\<forall>k. plain_name k \<longrightarrow> jfind J obj k = (case f k of None \<Rightarrow> jundef J | Some v \<Rightarrow> v))"

lemma holds_undef: "json_laws J \<Longrightarrow> holds J (jundef J) Map.empty"
  by (simp add: holds_def json_values)

lemma holds_set:
  assumes "json_laws J" "plain_name k" "holds J obj f"
  shows "holds J (jset J obj k v) (f(k \<mapsto> v))"
  using assms json_set [OF assms(1,2), of obj] by (auto simp: holds_def split: if_splits)

lemma holds_set_string:
  assumes "json_laws J" "plain_name k" "holds J obj f"
  shows "holds J (set_value_string J obj k s) (if s \<noteq> [] then f(k \<mapsto> of_string J s) else f)"
  using holds_set [OF assms, of "of_string J s"] assms(3) by (simp add: set_value_string_def)

lemma holds_set_port:
  assumes "json_laws J" "plain_name k" "holds J obj f"
  shows "holds J (set_value_port J obj k p) (if p > 0 then f(k \<mapsto> of_number J (uint p)) else f)"
  using holds_set [OF assms, of "of_number J (uint p)"] assms(3) by (simp add: set_value_port_def)

lemma read_string:
  assumes "json_laws J" "plain_name k" "holds J obj f"
  shows "check_string_ref J obj k r = (case f k of
      None \<Rightarrow> (False, r) | Some v \<Rightarrow> if jtype J v = is_string then (True, jstr J v) else (False, r))"
  using assms by (auto simp: check_string_ref_def holds_def plain_name_def json_values split: option.splits)

lemma uint16_bound: "- (2 ^ 31) \<le> uint (p :: u16)" "uint p < 2 ^ 31"
  using uint_lt2p [of p] by (auto intro: order_trans [of _ 0])

lemma read_port:
  assumes "json_laws J" "plain_name k" "holds J obj f" "f k \<in> {None, Some (of_number J (uint p))}"
  shows "check_port J obj k r = ret (if f k = None then (False, r) else (True, p))"
  using assms uint16_bound [of p] json_values(4) [OF assms(1), of "uint p"]
  by (auto simp: check_port_def check_int_ref_def holds_def plain_name_def json_values Let_def)

text \<open>
  A port comes from the configuration modulo \<open>2^16\<close>: whatever integer the number or the decimal
  text at the name stands for, \<^verbatim>\<open>check_port\<close> succeeds and stores its low sixteen bits, without a
  range check, so that 65536 becomes port 0.
\<close>

theorem check_port_wraps:
  assumes "json_laws J" and "plain_name k" and "jfind J obj k = of_number J n \<or> jfind J obj k = of_string J (show_int n)"
    and "- (2 ^ 31) \<le> n" and "n < 2 ^ 31"
  shows "\<exists>p. check_port J obj k r = ret (True, p) \<and> int (unat p) = n mod 65536"
proof -
  have "check_port J obj k r = ret (True, of_int n)"
    using assms from_show_int
    by (auto simp: check_port_def check_int_ref_def plain_name_def json_values Let_def)
  moreover have "int (unat (of_int n :: u16)) = n mod 65536" by (simp add: uint_word_of_int)
  ultimately show ?thesis by blast
qed


theorem check_port_wraps_witness:
  "\<exists>p. check_port tree_api (Object [(''port'', Number 65544)]) ''port'' 0 = ret (True, p) \<and> int (unat p) = 8"
  using check_port_wraps [of tree_api "''port''" "Object [(''port'', Number 65544)]" 65544 0] tree_api_laws
  by (simp add: plain_name_def json_simps)

text \<open>
  A port given as a text of blanks reads an uninitialised variable: \<^verbatim>\<open>check_port\<close> declares its
  \<^verbatim>\<open>int\<close> without a value, the stream extraction leaves it alone, and the value is used.
\<close>

theorem check_port_blank_undefined:
  assumes "json_laws J" and "plain_name k" and "jfind J obj k = of_string J s" and "list_all is_space s"
  shows "check_port J obj k r = None"
proof -
  have "dropWhile is_space s = []" using assms(4) by (simp add: dropWhile_eq_Nil_conv list_all_iff)
  then have "from_string s None = None"
    by (simp add: from_string_def scan_int_def del: dropWhile_eq_Nil_conv)
  with assms show ?thesis
    by (auto simp: check_port_def check_int_ref_def plain_name_def json_values Let_def)
qed

theorem check_port_blank_undefined_witness:
  "check_port tree_api (Object [(''port'', String [])]) ''port'' 8085 = None"
  by (rule check_port_blank_undefined [of _ _ _ "[]", OF tree_api_laws]) (simp_all add: plain_name_def json_simps)

end
