(* ===== verification/Endpoint.thy ===== *)
theory Endpoint
  imports JsonUtil
begin

text \<open>
  The configured end points of \<^verbatim>\<open>src/src/applutil.h\<close> and \<^verbatim>\<open>src/src/applutil.cpp\<close>: the local and the remote
  end point with their loading, saving and comparison, the loading of a list of them, and the
  printing of a connected address.
\<close>

section \<open>The classes\<close>

record LocalEndpoint =
  le_hostname :: string
  le_port :: u16

definition LocalEndpoint_ctor :: LocalEndpoint where
  "LocalEndpoint_ctor = \<lparr>le_hostname = [], le_port = 0\<rparr>"

definition LocalEndpoint_load :: "'j json_api \<Rightarrow> LocalEndpoint \<Rightarrow> 'j \<Rightarrow> (bool \<times> LocalEndpoint) outcome" where
  "LocalEndpoint_load J ep obj =
     (if jtype J obj = is_object then
        after (check_port J obj ''port'' (le_port ep)) (\<lambda>(_, port).
          let host = snd (check_string_ref J obj ''hostname'' (le_hostname ep))
          in ret (port > 0, \<lparr>le_hostname = host, le_port = port\<rparr>))
      else ret (False, ep))"

definition LocalEndpoint_save :: "'j json_api \<Rightarrow> LocalEndpoint \<Rightarrow> 'j" where
  "LocalEndpoint_save J ep =
     set_value_string J (set_value_port J (jundef J) ''port'' (le_port ep)) ''hostname'' (le_hostname ep)"

definition LocalEndpoint_eq :: "LocalEndpoint \<Rightarrow> LocalEndpoint \<Rightarrow> bool" where
  "LocalEndpoint_eq a b \<longleftrightarrow> le_hostname a = le_hostname b \<and> le_port a = le_port b"

definition LocalEndpoint_print :: "LocalEndpoint \<Rightarrow> string" where
  "LocalEndpoint_print ep = le_hostname ep @ '':'' @ show_nat (unat (le_port ep))"

record RemoteEndpoint =
  re_port :: u16
  re_name :: string
  re_hostname :: string
  re_username :: string
  re_password :: string

definition RemoteEndpoint_ctor :: RemoteEndpoint where
  "RemoteEndpoint_ctor =
     \<lparr>re_port = 0, re_name = [], re_hostname = [], re_username = [], re_password = []\<rparr>"

text \<open>The comparison leaves the port out.\<close>

definition RemoteEndpoint_eq :: "RemoteEndpoint \<Rightarrow> RemoteEndpoint \<Rightarrow> bool" where
  "RemoteEndpoint_eq a b \<longleftrightarrow> re_name a = re_name b \<and> re_hostname a = re_hostname b
     \<and> re_password a = re_password b \<and> re_username a = re_username b"

definition RemoteEndpoint_load :: "'j json_api \<Rightarrow> RemoteEndpoint \<Rightarrow> 'j \<Rightarrow> (bool \<times> RemoteEndpoint) outcome" where
  "RemoteEndpoint_load J ep obj =
     (if jtype J obj = is_object then
        after (check_port J obj ''port'' (re_port ep)) (\<lambda>(_, port).
          let host = snd (check_string_ref J obj ''hostname'' (re_hostname ep));
              name = snd (check_string_ref J obj ''name'' (re_name ep));
              user = snd (check_string_ref J obj ''username'' (re_username ep));
              pwd = snd (check_string_ref J obj ''password'' (re_password ep))
          in ret (name \<noteq> [], \<lparr>re_port = port, re_name = name, re_hostname = host,
                              re_username = user, re_password = pwd\<rparr>))
      else ret (False, ep))"

definition RemoteEndpoint_save :: "'j json_api \<Rightarrow> RemoteEndpoint \<Rightarrow> 'j" where
  "RemoteEndpoint_save J ep =
     (let obj = jundef J;
          obj = set_value_port J obj ''port'' (re_port ep);
          obj = set_value_string J obj ''hostname'' (re_hostname ep);
          obj = set_value_string J obj ''name'' (re_name ep);
          obj = set_value_string J obj ''username'' (re_username ep)
      in set_value_string J obj ''password'' (re_password ep))"

section \<open>Lists of end points\<close>

text \<open>
  The loop over the array, for both overloads: the loader is the argument. A failing item ends the
  loop with false; the end points before it stay in the vector.
\<close>

fun load_items :: "('j \<Rightarrow> (bool \<times> 'e) outcome) \<Rightarrow> 'j list \<Rightarrow> 'e list \<Rightarrow> bool \<Rightarrow> (bool \<times> 'e list) outcome" where
  "load_items load [] eps result = ret (result, eps)"
| "load_items load (item # items) eps result =
     after (load item) (\<lambda>(ok, ep).
       if ok then load_items load items (eps @ [ep]) True else ret (False, eps))"

definition load_endpoints ::
    "'j json_api \<Rightarrow> ('j \<Rightarrow> (bool \<times> 'e) outcome) \<Rightarrow> 'j \<Rightarrow> string \<Rightarrow> 'e list \<Rightarrow> (bool \<times> 'e list) outcome" where
  "load_endpoints J load obj key eps =
     (let o1 = jfind J obj key in
      if jtype J o1 = is_array then load_items load (jarray J o1) eps False else ret (False, eps))"

definition load_local_endpoints ::
    "'j json_api \<Rightarrow> 'j \<Rightarrow> string \<Rightarrow> LocalEndpoint list \<Rightarrow> (bool \<times> LocalEndpoint list) outcome" where
  "load_local_endpoints J = load_endpoints J (LocalEndpoint_load J LocalEndpoint_ctor)"

definition load_remote_endpoints ::
    "'j json_api \<Rightarrow> 'j \<Rightarrow> string \<Rightarrow> RemoteEndpoint list \<Rightarrow> (bool \<times> RemoteEndpoint list) outcome" where
  "load_remote_endpoints J = load_endpoints J (RemoteEndpoint_load J RemoteEndpoint_ctor)"

section \<open>Connected addresses\<close>

text \<open>
  \<open>ep\<close> is what \<^verbatim>\<open>local_endpoint(ec)\<close> or \<^verbatim>\<open>remote_endpoint(ec)\<close> of a socket gives: \<open>None\<close> with an error
  code, else the text of the address and the port.
\<close>

definition local_address_port :: "(string \<times> u16) option \<Rightarrow> string" where
  "local_address_port ep = (case ep of None \<Rightarrow> [] | Some (addr, port) \<Rightarrow> addr @ '':'' @ show_nat (unat port))"

definition remote_address_port :: "(string \<times> u16) option \<Rightarrow> string" where
  "remote_address_port ep = (case ep of None \<Rightarrow> [] | Some (addr, port) \<Rightarrow> addr @ '':'' @ show_nat (unat port))"

section \<open>Saved and loaded again\<close>

text \<open>
  The contract of a configured item: a default object, what loading demands of an item, and that
  loading a saved item into the default object gives the item.
\<close>

locale config_item =
  fixes load :: "'j json_api \<Rightarrow> 'j \<Rightarrow> (bool \<times> 'e) outcome"
    and save :: "'j json_api \<Rightarrow> 'e \<Rightarrow> 'j"
    and valid :: "'e \<Rightarrow> bool"
  assumes load_save: "json_laws J \<Longrightarrow> load J (save J ep) = ret (valid ep, ep)"
begin

lemma load_items_saved:
  "json_laws J \<Longrightarrow> list_all valid eps \<Longrightarrow>
     load_items (load J) (map (save J) eps) acc r = ret (if eps = [] then r else True, acc @ eps)"
  by (induction eps arbitrary: acc r) (simp_all add: load_save)

lemma load_items_stops:
  "json_laws J \<Longrightarrow> list_all valid eps \<Longrightarrow> \<not> valid ep \<Longrightarrow>
     load_items (load J) (map (save J) eps @ save J ep # rest) acc r = ret (False, acc @ eps)"
  by (induction eps arbitrary: acc r) (simp_all add: load_save)

text \<open>A list of items under a key: all of them, or those before the first invalid one.\<close>

lemma load_list:
  assumes "json_laws J" "jfind J obj key = of_array J (map (save J) eps)"
  shows "load_endpoints J (load J) obj key acc =
    ret (eps \<noteq> [] \<and> list_all valid eps, acc @ takeWhile valid eps)"
proof (cases "list_all valid eps")
  case True
  then have "takeWhile valid eps = eps" by (simp add: list_all_iff)
  with True assms load_items_saved [OF assms(1) True] show ?thesis
    by (auto simp: load_endpoints_def json_values Let_def simp del: takeWhile_eq_all_conv)
next
  case False
  then have "dropWhile valid eps \<noteq> []" by (auto simp: dropWhile_eq_Nil_conv list_all_iff)
  then obtain ep rest where d: "dropWhile valid eps = ep # rest" by (cases "dropWhile valid eps") auto
  then have "\<not> valid ep" using hd_dropWhile [of valid eps] by simp
  moreover have "eps = takeWhile valid eps @ ep # rest" using takeWhile_dropWhile_id [of valid eps] d by simp
  then have "map (save J) eps = map (save J) (takeWhile valid eps) @ save J ep # map (save J) rest"
    by (metis list.simps(9) map_append)
  moreover have "list_all valid (takeWhile valid eps)" using set_takeWhileD by (fastforce simp: list_all_iff)
  ultimately show ?thesis
    using False load_items_stops [OF assms(1)] assms
    by (auto simp: load_endpoints_def json_values Let_def)
qed

end

lemma names_plain [simp]:
  "plain_name ''port''" "plain_name ''hostname''" "plain_name ''name''" "plain_name ''username''" "plain_name ''password''"
  by (simp_all add: plain_name_def)

lemma LocalEndpoint_load_save:
  assumes J: "json_laws J"
  shows "LocalEndpoint_load J LocalEndpoint_ctor (LocalEndpoint_save J ep) = ret (le_port ep > 0, ep)"
proof -
  let ?o = "LocalEndpoint_save J ep"
  note h = holds_set_string [OF J names_plain(2) holds_set_port [OF J names_plain(1) holds_undef [OF J]],
      of "le_port ep" "le_hostname ep", folded LocalEndpoint_save_def]
  have ty: "jtype J ?o = (if le_hostname ep \<noteq> [] \<or> le_port ep > 0 then is_object else is_undefined)"
    using h by (auto simp: holds_def)
  have "check_port J ?o ''port'' 0 = ret (le_port ep > 0, le_port ep)"
    using read_port [OF J names_plain(1) h, of "le_port ep" 0] by (auto simp: word_gt_0)
  moreover have "check_string_ref J ?o ''hostname'' [] = (le_hostname ep \<noteq> [], le_hostname ep)"
    using read_string [OF J names_plain(2) h, of "[]"] by (auto simp: json_values [OF J])
  ultimately show ?thesis
    using ty by (auto simp: LocalEndpoint_load_def LocalEndpoint_ctor_def word_gt_0)
qed

lemma RemoteEndpoint_load_save:
  assumes J: "json_laws J"
  shows "RemoteEndpoint_load J RemoteEndpoint_ctor (RemoteEndpoint_save J ep) = ret (re_name ep \<noteq> [], ep)"
proof -
  let ?o = "RemoteEndpoint_save J ep"
  note h1 = holds_set_port [OF J names_plain(1) holds_undef [OF J], of "re_port ep"]
  note h2 = holds_set_string [OF J names_plain(2) h1, of "re_hostname ep"]
  note h3 = holds_set_string [OF J names_plain(3) h2, of "re_name ep"]
  note h4 = holds_set_string [OF J names_plain(4) h3, of "re_username ep"]
  note h5 = holds_set_string [OF J names_plain(5) h4, of "re_password ep"]
  obtain f where h: "holds J ?o f"
    and f: "f ''port'' = (if re_port ep > 0 then Some (of_number J (uint (re_port ep))) else None)"
      "f ''hostname'' = (if re_hostname ep \<noteq> [] then Some (of_string J (re_hostname ep)) else None)"
      "f ''name'' = (if re_name ep \<noteq> [] then Some (of_string J (re_name ep)) else None)"
      "f ''username'' = (if re_username ep \<noteq> [] then Some (of_string J (re_username ep)) else None)"
      "f ''password'' = (if re_password ep \<noteq> [] then Some (of_string J (re_password ep)) else None)"
      "f = Map.empty \<longleftrightarrow> ep = RemoteEndpoint_ctor"
    by (rule that [OF h5 [folded RemoteEndpoint_save_def [unfolded Let_def]]])
       (auto simp: RemoteEndpoint_ctor_def word_gt_0)
  have str: "snd (check_string_ref J ?o k []) = s"
    if "plain_name k" "f k = (if s \<noteq> [] then Some (of_string J s) else None)" for k s
    using read_string [OF J that(1) h, of "[]"] that(2) by (auto simp: json_values [OF J])
  have "check_port J ?o ''port'' 0 = ret (re_port ep > 0, re_port ep)"
    using read_port [OF J names_plain(1) h, of "re_port ep" 0] f(1) by (auto simp: word_gt_0)
  moreover have "jtype J ?o = (if ep = RemoteEndpoint_ctor then is_undefined else is_object)"
    using h f(6) by (simp add: holds_def)
  ultimately show ?thesis
    using str [OF _ f(2)] str [OF _ f(3)] str [OF _ f(4)] str [OF _ f(5)]
    by (auto simp: RemoteEndpoint_load_def RemoteEndpoint_ctor_def Let_def)
qed


interpretation local_item: config_item "\<lambda>J. LocalEndpoint_load J LocalEndpoint_ctor" LocalEndpoint_save "\<lambda>ep. le_port ep > 0"
  by unfold_locales (rule LocalEndpoint_load_save)

interpretation remote_item: config_item "\<lambda>J. RemoteEndpoint_load J RemoteEndpoint_ctor" RemoteEndpoint_save "\<lambda>ep. re_name ep \<noteq> []"
  by unfold_locales (rule RemoteEndpoint_load_save)

section \<open>Properties\<close>

text \<open>
  The end points of a configuration survive saving. With the JSON library as documented, loading
  an array of saved local end points gives exactly those up to the first without a port, and an array
  of saved remote end points those up to the first without a name; the flag is true exactly when the
  array is not empty and every item is valid.
\<close>

theorem endpoints_saved_and_loaded:
  assumes "json_laws J"
    and "jfind J obj ''locals'' = of_array J (map (LocalEndpoint_save J) ls)"
    and "jfind J obj ''remotes'' = of_array J (map (RemoteEndpoint_save J) rs)"
  shows "load_local_endpoints J obj ''locals'' [] =
      ret (ls \<noteq> [] \<and> list_all (\<lambda>ep. le_port ep > 0) ls, takeWhile (\<lambda>ep. le_port ep > 0) ls)
    \<and> load_remote_endpoints J obj ''remotes'' [] =
      ret (rs \<noteq> [] \<and> list_all (\<lambda>ep. re_name ep \<noteq> []) rs, takeWhile (\<lambda>ep. re_name ep \<noteq> []) rs)"
  using local_item.load_list [OF assms(1,2), of "[]"] remote_item.load_list [OF assms(1,3), of "[]"]
  by (simp add: load_local_endpoints_def load_remote_endpoints_def)

theorem endpoints_saved_and_loaded_witness:
  "load_local_endpoints tree_api
     (Object [(''locals'', Array (map (LocalEndpoint_save tree_api) [\<lparr>le_hostname = ''h'', le_port = 80\<rparr>])),
              (''remotes'', Array [])]) ''locals'' []
   = ret (True, [\<lparr>le_hostname = ''h'', le_port = 80\<rparr>])"
  using endpoints_saved_and_loaded [of tree_api
      "Object [(''locals'', Array (map (LocalEndpoint_save tree_api) [\<lparr>le_hostname = ''h'', le_port = 80\<rparr>])),
              (''remotes'', Array [])]" "[\<lparr>le_hostname = ''h'', le_port = 80\<rparr>]" "[]"]
  by (simp add: tree_api_laws json_simps)

end
