(* ===== verification/GhpPlugin.thy ===== *)
theory GhpPlugin
  imports GhpMessages Nmea Endpoint
begin

text \<open>
  The GateHouse logon that runs on a fresh local connection, \<^verbatim>\<open>src/libs/gatehouse/pghpplugin.cpp\<close>. The
  socket is the environment \<open>sock_env\<close>: what the \<open>n\<close>-th write accepts and what the \<open>n\<close>-th read
  delivers, each of which may raise instead. The state counts the reads and lists what was handed to
  the writes. The match of the boost regular expression \<^verbatim>\<open>\$PGHP,2,1,1,,([0-9a-fA-F]*).*\<close> is the
  argument \<open>regex\<close>: the first group, \<open>None\<close> without a match.
\<close>

section \<open>The socket\<close>

record sock_env =
  write_some :: "nat \<Rightarrow> string \<Rightarrow> exn + nat"
  read_some :: "nat \<Rightarrow> exn + string"

record sock_state =
  sent :: "string list"
  reads :: nat

text \<open>What \<^verbatim>\<open>src/release.cpp\<close> defines.\<close>

definition release :: string where "release = ''GateHouse A/S (C) Uniproxy''"
definition version :: string where "version = ''1.8.2''"

section \<open>The plugin\<close>

definition PGHPFilter_Decode :: "(string \<Rightarrow> string option) \<Rightarrow> string \<Rightarrow> string option" where
  "PGHPFilter_Decode regex input =
     (if length input > 0 then
        case regex input of None \<Rightarrow> None | Some out \<Rightarrow> if length out > 0 then Some out else None
      else None)"

definition SendPGHP2Mail :: "sock_env \<Rightarrow> sock_state \<Rightarrow> string \<Rightarrow> (bool \<times> sock_state) outcome" where
  "SendPGHP2Mail env st mail =
     (case PGHP2_Encode (SetGHMail PGHP2Message_ctor mail) [] of
        None \<Rightarrow> None
      | Some (_, enc) \<Rightarrow>
          (case write_some env (length (sent st)) enc of
             Inl e \<Rightarrow> raise e
           | Inr n \<Rightarrow> ret (n = length enc, st\<lparr>sent := sent st @ [enc]\<rparr>)))"

definition SendStartMesg :: "sock_env \<Rightarrow> sock_state \<Rightarrow> (bool \<times> sock_state) outcome" where
  "SendStartMesg env st = SendPGHP2Mail env st (StartDataRequest_Encode StartDataRequest_ctor [])"

definition logon_request_of :: "RemoteEndpoint \<Rightarrow> logon_request" where
  "logon_request_of ep =
     LogonRequest_ctor\<lparr>lr_clName := re_username ep, lr_clPassword := re_password ep,
       lr_iVersion := 2, lr_clVersionString := release @ '' - '' @ version @ '' - '' @ ''123'',
       lr_clLocalUser := ''?'', lr_iProxyType := 0, lr_iRetryCounter := 2\<rparr>"

definition SendLogonRequest :: "sock_env \<Rightarrow> sock_state \<Rightarrow> RemoteEndpoint \<Rightarrow> (bool \<times> sock_state) outcome" where
  "SendLogonRequest env st ep =
     SendPGHP2Mail env st (snd (LogonRequest_Encode (logon_request_of ep) []))"

text \<open>The text of the exception for a reply other than OK.\<close>

definition refused :: "string \<Rightarrow> string \<Rightarrow> exn" where
  "refused info txt = system_error logon_username_password_invalid (info @ txt)"

definition reply_error :: "string \<Rightarrow> AisLogonReply \<Rightarrow> exn" where
  "reply_error info r =
     (case r of
        LOGON_REPLY_USER_INVALID \<Rightarrow> refused info ''Username invalid''
      | LOGON_REPLY_PASSWORD_INVALID \<Rightarrow> refused info ''Password invalid''
      | LOGON_REPLY_NO_LSS_GROUP \<Rightarrow> refused info ''No LSS Group Assigned''
      | LOGON_REPLY_ALLREADY_CONNECTED \<Rightarrow> refused info ''Already connected''
      | LOGON_REPLY_PASSWORD_EXPIRED \<Rightarrow> refused info ''User or group expired''
      | LOGON_REPLY_LOCKED \<Rightarrow> refused info ''User or group locked''
      | LOGON_REPLY_DISABLED \<Rightarrow> refused info ''User or group disabled''
      | LOGON_REPLY_LOAD_BALANCE_MOVE \<Rightarrow> refused info ''Load balancer problem''
      | LOGON_REPLY_SERVER_BUSY \<Rightarrow> refused info ''Server Busy''
      | _ \<Rightarrow> system_error logon_failed
               (info @ ''Unknown response: '' @ show_int (sint (reply_code r))))"

text \<open>
  One line of a received chunk, the line end appended. \<open>None\<close> inside the outcome: go on with the next
  line; \<open>Some reply\<close>: a logon reply was decoded. Both decodings of the base class may leave the byte
  vector (undefined behaviour).
\<close>

definition line_reply :: "(string \<Rightarrow> string option) \<Rightarrow> string \<Rightarrow> AisLogonReply option outcome" where
  "line_reply regex line =
     (case PGHPFilter_Decode regex line of
        None \<Rightarrow> ret None
      | Some msg \<Rightarrow>
          (case InternalBase_Decode AISMESGINT_UNKNOWN msg of
             None \<Rightarrow> None
           | Some _ \<Rightarrow>
               (case PGHP2_Decode PGHP2Message_ctor line of
                  (False, _) \<Rightarrow> ret None
                | (True, pghp2) \<Rightarrow>
                    (let mail = GetGHMail pghp2 in
                     case InternalBase_Decode AISMESGINT_UNKNOWN mail of
                       None \<Rightarrow> None
                     | Some ty \<Rightarrow>
                         if ty = AISMESGINT_LOGON_REPLY then
                           (case LogonReply_Decode LogonReply_ctor mail of
                              None \<Rightarrow> None
                            | Some reply \<Rightarrow> ret (Some (rp_enLogonReply reply)))
                         else ret None))))"

text \<open>
  The loop over the lines of a chunk. \<^verbatim>\<open>while (is)\<close> tests the stream before the read, so after the
  last line the body runs once more with an empty line.
\<close>

definition chunk_lines :: "string \<Rightarrow> string list" where
  "chunk_lines chunk =
     (let text = takeWhile (\<lambda>c. c \<noteq> CHR 0x00) chunk
      in map (\<lambda>l. l @ [CHR 0x0D, CHR 0x0A]) (split text (CHR 0x0A) @ [[]]))"

fun lines_loop ::
    "(string \<Rightarrow> string option) \<Rightarrow> string \<Rightarrow> sock_env \<Rightarrow> string list \<Rightarrow> sock_state
       \<Rightarrow> (bool \<times> sock_state) outcome" where
  "lines_loop regex info env [] st = ret (False, st)"
| "lines_loop regex info env (line # ls) st =
     after (line_reply regex line) (\<lambda>r.
       case r of
         None \<Rightarrow> lines_loop regex info env ls st
       | Some LOGON_REPLY_OK \<Rightarrow> after (SendStartMesg env st) (\<lambda>(_, st). ret (True, st))
       | Some reply \<Rightarrow> raise (reply_error info reply))"

text \<open>The loop over the messages: five reads of at most 200 bytes.\<close>

fun read_loop ::
    "(string \<Rightarrow> string option) \<Rightarrow> string \<Rightarrow> sock_env \<Rightarrow> nat \<Rightarrow> sock_state \<Rightarrow> (bool \<times> sock_state) outcome" where
  "read_loop regex info env 0 st = raise (system_error logon_failed (info @ ''Unknown or missing logon response''))"
| "read_loop regex info env (Suc n) st =
     (case read_some env (reads st) of
        Inl e \<Rightarrow> raise e
      | Inr chunk \<Rightarrow>
          (let st = st\<lparr>reads := reads st + 1\<rparr> in
           if length chunk = 0 then raise (system_error logon_no_response info)
           else after (lines_loop regex info env (chunk_lines chunk) st) (\<lambda>(done, st).
                  if done then ret (True, st) else read_loop regex info env n st)))"

definition connect_handler ::
    "(string \<Rightarrow> string option) \<Rightarrow> sock_env \<Rightarrow> RemoteEndpoint \<Rightarrow> (bool \<times> sock_state) outcome" where
  "connect_handler regex env ep =
     (let info = '' certificate name: '' @ re_name ep @ '' user: '' @ re_username ep @ '' '' in
      after (SendLogonRequest env \<lparr>sent = [], reads = 0\<rparr> ep) (\<lambda>(ok, st).
        if \<not> ok then raise (system_error logon_failed (info @ ''logon request''))
        else read_loop regex info env 5 st))"

section \<open>A logon that succeeds was answered with OK\<close>

lemma SendPGHP2Mail_sent:
  "SendPGHP2Mail env st mail = ret (b, st') \<Longrightarrow>
     \<exists>m enc. PGHP2_Encode (SetGHMail PGHP2Message_ctor mail) [] = Some (m, enc)
       \<and> st' = st\<lparr>sent := sent st @ [enc]\<rparr>"
  by (auto simp: SendPGHP2Mail_def split: option.splits sum.splits)

text \<open>The text that carries a mail.\<close>

definition mail_text :: "string \<Rightarrow> string" where
  "mail_text mail = snd (the (PGHP2_Encode (SetGHMail PGHP2Message_ctor mail) []))"

lemma SendPGHP2Mail_mail_text:
  "SendPGHP2Mail env st mail = ret (b, st') \<Longrightarrow> st' = st\<lparr>sent := sent st @ [mail_text mail]\<rparr>"
  using SendPGHP2Mail_sent [of env st mail b st'] by (auto simp: mail_text_def)

lemma lines_loop_done:
  "lines_loop regex info env ls st = ret (d, st') \<Longrightarrow>
     reads st' = reads st \<and> (if d
       then (\<exists>line \<in> set ls. line_reply regex line = ret (Some LOGON_REPLY_OK))
         \<and> sent st' = sent st @ [mail_text (StartDataRequest_Encode StartDataRequest_ctor [])]
       else sent st' = sent st)"
proof (induction regex info env ls st rule: lines_loop.induct)
  case (2 regex info env line ls st)
  from 2(2) obtain r where r: "line_reply regex line = ret r" by (auto simp: after_eq_ret)
  show ?case
  proof (cases r)
    case None
    with 2(1) 2(2) r show ?thesis by auto
  next
    case (Some reply)
    show ?thesis
    proof (cases "reply = LOGON_REPLY_OK")
      case True
      with 2(2) r Some show ?thesis
        by (auto simp: after_eq_ret SendStartMesg_def dest!: SendPGHP2Mail_mail_text)
    next
      case False
      with 2(2) r Some show ?thesis by (cases reply) auto
    qed
  qed
qed simp

lemma read_loop_done:
  "read_loop regex info env n st = ret (d, st') \<Longrightarrow>
     d \<and> reads st < reads st' \<and> reads st' \<le> reads st + n
     \<and> (\<exists>chunk line. read_some env (reads st' - 1) = Inr chunk \<and> line \<in> set (chunk_lines chunk)
          \<and> line_reply regex line = ret (Some LOGON_REPLY_OK))
     \<and> sent st' = sent st @ [mail_text (StartDataRequest_Encode StartDataRequest_ctor [])]"
proof (induction n arbitrary: st)
  case (Suc n)
  from Suc.prems obtain chunk where c: "read_some env (reads st) = Inr chunk"
    by (auto split: sum.splits)
  let ?st = "st\<lparr>reads := reads st + 1\<rparr>"
  from Suc.prems c obtain b st1 where l: "lines_loop regex info env (chunk_lines chunk) ?st = ret (b, st1)"
    and k: "(if b then ret (True, st1) else read_loop regex info env n st1) = ret (d, st')"
    by (auto simp: Let_def after_eq_ret split: if_splits)
  note L = lines_loop_done [OF l]
  show ?case
  proof (cases b)
    case True
    with L k c show ?thesis by auto
  next
    case False
    with k have "read_loop regex info env n st1 = ret (d, st')" by simp
    from Suc.IH [OF this] False L show ?thesis by auto
  qed
qed simp


section \<open>A logon that the server answers\<close>

text \<open>
  What the regular expression is documented to match: after the literal prefix, the longest run of
  hexadecimal digits is the group and anything may follow.
\<close>

definition hex_char :: "char \<Rightarrow> bool" where
  "hex_char c \<longleftrightarrow> hex_value c \<noteq> None"

definition matches_pghp2 :: "(string \<Rightarrow> string option) \<Rightarrow> bool" where
  "matches_pghp2 regex \<longleftrightarrow> (\<forall>hex rest. list_all hex_char hex \<and> (rest = [] \<or> \<not> hex_char (hd rest)) \<longrightarrow>
     regex (''$PGHP,2,1,1,,'' @ hex @ rest) = Some hex)"

definition sample_regex :: "string \<Rightarrow> string option" where
  "sample_regex s = (if take 13 s = ''$PGHP,2,1,1,,'' then Some (takeWhile hex_char (drop 13 s)) else None)"

lemma takeWhile_run: "list_all P xs \<Longrightarrow> ys = [] \<or> \<not> P (hd ys) \<Longrightarrow> takeWhile P (xs @ ys) = xs"
  by (induction xs) (auto simp: takeWhile_eq_Nil_iff)

lemma sample_regex_matches: "matches_pghp2 sample_regex"
  unfolding matches_pghp2_def
proof (intro allI impI)
  fix hex rest :: string
  assume "list_all hex_char hex \<and> (rest = [] \<or> \<not> hex_char (hd rest))"
  then have "takeWhile hex_char (hex @ rest) = hex" using takeWhile_run by blast
  then show "sample_regex (''$PGHP,2,1,1,,'' @ hex @ rest) = Some hex" by (simp add: sample_regex_def)
qed

lemma hex_text_chars: "list_all hex_char (Byte2Ascii d [])"
proof -
  have "list_all hex_char (hex2 b)" for b
  proof -
    have "unat b < 256" using unsigned_less [where 'a = nat, of b] by simp
    then have "unat b div 16 < 16" by auto
    from hex_digit_value [OF this] hex_digit_value [of "unat b mod 16"] show ?thesis
      by (simp add: hex2_def hex_char_def)
  qed
  then have "list_all hex_char (concat (map hex2 d))" by (induction d) auto
  then show ?thesis by (simp add: Byte2Ascii_append)
qed

lemma hex_char_plain: "hex_char c \<Longrightarrow> c \<notin> separators \<and> c \<noteq> CHR 0x00"
  by (auto simp: hex_char_def hex_value_def separators_def Let_def split: if_splits)

lemma hex_text_plain: "list_all hex_char s \<Longrightarrow> set s \<inter> separators = {}"
  using hex_char_plain by (auto simp: list_all_iff)

lemma mail_single:
  assumes "mail \<noteq> []" "length mail < 512" "set mail \<inter> separators = {}"
  shows "\<exists>m. PGHP2_Encode (SetGHMail PGHP2Message_ctor mail) [] = Some (m, sentence (''$PGHP,2,1,1,,'' @ mail))"
proof -
  let ?m = "(SetGHMail PGHP2Message_ctor mail)\<lparr>m_iSentenceNumber := 1, m_iTotalNumberOfMessages := 1\<rparr>"
  have f: "m_iMaxContent ?m = 512" "m_aszPayload ?m = mail" "m_iSequentialMessageIdentifier ?m = -1"
    by (simp_all add: SetGHMail_def SetPayload_def PGHP2Message_ctor_def NMEAMessage_ctor_def)
  have e: "encodable ?m" using f(3) by (simp add: encodable_def)
  have "number_char 1 = CHR ''1''" by code_simp
  then have b: "body ?m mail = ''$PGHP,2,1,1,,'' @ mail" using f(3) by (simp add: body_def)
  have "PGHP2_Encode (SetGHMail PGHP2Message_ctor mail) [] = Some (PGHP2_EncodePart ?m [] mail)"
    using assms(1,2) f by (simp add: NMEA_Encode_def Let_def substr_def)
  then show ?thesis using EncodePart_sentence [OF e assms(3), of "[]"] by (simp add: b)
qed

lemma mail_some:
  assumes "length mail \<le> 110592" "set mail \<inter> separators = {}"
  shows "PGHP2_Encode (SetGHMail PGHP2Message_ctor mail) [] \<noteq> None"
  using PGHP2_Encode_carries [of "SetGHMail PGHP2Message_ctor mail" "[]"] assms
  by (auto simp: SetGHMail_def SetPayload_def PGHP2Message_ctor_def NMEAMessage_ctor_def)

lemma SendPGHP2Mail_all:
  assumes "length mail \<le> 110592" "set mail \<inter> separators = {}" "\<And>n s. write_some env n s = Inr (length s)"
  shows "SendPGHP2Mail env st mail = ret (True, st\<lparr>sent := sent st @ [mail_text mail]\<rparr>)"
  using mail_some [OF assms(1,2)] assms(3)
  by (auto simp: SendPGHP2Mail_def mail_text_def split: option.splits)

lemma mail_line_decodes:
  assumes "set mail \<inter> separators = {}"
  defines "b \<equiv> ''$PGHP,2,1,1,,'' @ mail"
  shows "\<exists>m. PGHP2_Decode PGHP2Message_ctor (b @ CHR ''*'' # hex2 (xor_all 0 (tl b)) @ [CHR 0x0D, CHR 0x0D, CHR 0x0A])
    = (True, m) \<and> GetGHMail m = mail"
proof -
  let ?m = "(SetGHMail PGHP2Message_ctor mail)\<lparr>m_iSentenceNumber := 1, m_iTotalNumberOfMessages := 1\<rparr>"
  have f: "m_iSequentialMessageIdentifier ?m = -1"
    by (simp add: SetGHMail_def SetPayload_def PGHP2Message_ctor_def NMEAMessage_ctor_def)
  have e: "encodable ?m" using f by (simp add: encodable_def)
  have "number_char 1 = CHR ''1''" by code_simp
  then have b: "body ?m mail = b" using f by (simp add: body_def b_def)
  let ?l = "\<lparr>iNewTotal = 0, iNewSentence = 0, iNewSeq = 0, clNewReceived = [], aszNewPayload = []\<rparr>"
  obtain nm l where "decode_loop (b @ CHR ''*'' # hex2 (xor_all 0 (tl b)) @ [CHR 0x0D, CHR 0x0D, CHR 0x0A]) PGHP2Message_ctor ?l
      = decode_loop [] nm l" "aszNewPayload l = mail"
    using decode_loop_line [OF e assms(1), of "[CHR 0x0D, CHR 0x0D]" "[]" PGHP2Message_ctor ?l] by (auto simp: b)
  then show ?thesis by (simp add: PGHP2_Decode_def decode_loop.simps [of "[]"])
qed

lemma chunk_lines_sentence:
  assumes "CHR 0x0A \<notin> set b" "CHR 0x00 \<notin> set b"
  shows "chunk_lines (sentence b)
    = [b @ CHR ''*'' # hex2 (xor_all 0 (tl b)) @ [CHR 0x0D, CHR 0x0D, CHR 0x0A], [CHR 0x0D, CHR 0x0A]]"
proof -
  let ?l = "b @ CHR ''*'' # hex2 (xor_all 0 (tl b)) @ [CHR 0x0D]"
  have h: "list_all hex_char (hex2 c)" for c using hex_text_chars [of "[c]"] by (simp add: Byte2Ascii_append)
  have "CHR 0x00 \<notin> set (sentence b)" using assms(2) h hex_char_plain
    by (auto simp: sentence_def list_all_iff)
  then have "takeWhile (\<lambda>c. c \<noteq> CHR 0x00) (sentence b) = sentence b" by auto
  moreover have "split (?l @ CHR 0x0A # []) (CHR 0x0A) = [?l]"
    using split_item [of "CHR 0x0A" ?l "[]"] assms(1) hex2_no_newline by (simp add: split.simps)
  ultimately show ?thesis by (simp add: chunk_lines_def sentence_def Let_def del: takeWhile_eq_all_conv)
qed


text \<open>What the client makes of the sentence a server sends for a reply.\<close>

definition reply_wf :: "logon_reply \<Rightarrow> bool" where
  "reply_wf r \<longleftrightarrow> rp_enType r = AISMESGINT_LOGON_REPLY \<and> rp_enLogonReply r \<in> set logon_replies
     \<and> length (rp_clNewHost r) \<le> 30 \<and> int_kept (rp_iPort r)"

lemma reply_mail:
  assumes "reply_wf r"
  shows "LogonReply_Encode r [] \<noteq> []" "length (LogonReply_Encode r []) \<le> 180"
    "list_all hex_char (LogonReply_Encode r [])"
proof -
  have "length (LogonReply_Encode r []) = 2 * length (LogonReply_bytes r)"
    by (simp add: LogonReply_Encode_def length_Byte2Ascii)
  moreover have "LogonReply_bytes r \<noteq> []"
    by (simp add: LogonReply_bytes_eq EncodeString_def BuildString_append)
  ultimately show "LogonReply_Encode r [] \<noteq> []" "length (LogonReply_Encode r []) \<le> 180"
    using LogonReply_bytes_length [of r] assms by (auto simp: reply_wf_def)
  show "list_all hex_char (LogonReply_Encode r [])" by (simp add: LogonReply_Encode_def hex_text_chars)
qed

lemma line_reply_sentence:
  assumes "matches_pghp2 regex" "reply_wf r"
  defines "b \<equiv> ''$PGHP,2,1,1,,'' @ LogonReply_Encode r []"
  shows "line_reply regex (b @ CHR ''*'' # hex2 (xor_all 0 (tl b)) @ [CHR 0x0D, CHR 0x0D, CHR 0x0A])
    = ret (Some (rp_enLogonReply r))"
proof -
  let ?mail = "LogonReply_Encode r []" and ?t = "CHR ''*'' # hex2 (xor_all 0 (tl b)) @ [CHR 0x0D, CHR 0x0D, CHR 0x0A]"
  note M = reply_mail [OF assms(2)]
  have wf: "rp_enType r = AISMESGINT_LOGON_REPLY" "rp_enLogonReply r \<in> set logon_replies"
    "length (rp_clNewHost r) \<le> 32700" "int_kept (rp_iPort r)" using assms(2) by (auto simp: reply_wf_def)
  have "\<not> hex_char (CHR ''*'')" by (simp add: hex_char_def hex_value_def Let_def)
  then have "regex (''$PGHP,2,1,1,,'' @ ?mail @ ?t) = Some ?mail"
    using assms(1) M(3) unfolding matches_pghp2_def by (metis list.sel(1))
  then have "regex (b @ ?t) = Some ?mail" by (simp add: b_def)
  then have dec: "PGHPFilter_Decode regex (b @ ?t) = Some ?mail"
    using M(1) by (simp add: PGHPFilter_Decode_def)
  obtain m where "PGHP2_Decode PGHP2Message_ctor (b @ ?t) = (True, m)" "GetGHMail m = ?mail"
    using mail_line_decodes [OF hex_text_plain [OF M(3)]] by (auto simp: b_def)
  then show ?thesis
    by (simp add: line_reply_def dec InternalBase_LogonReply [OF wf(1,3)] LogonReply_Decode_Encode [OF wf])
qed

lemma chunk_lines_reply:
  assumes "reply_wf r"
  defines "b \<equiv> ''$PGHP,2,1,1,,'' @ LogonReply_Encode r []"
  shows "mail_text (LogonReply_Encode r []) = sentence b"
    "chunk_lines (sentence b) = [b @ CHR ''*'' # hex2 (xor_all 0 (tl b)) @ [CHR 0x0D, CHR 0x0D, CHR 0x0A], [CHR 0x0D, CHR 0x0A]]"
proof -
  note M = reply_mail [OF assms(1)]
  show "mail_text (LogonReply_Encode r []) = sentence b"
    using mail_single [OF M(1) _ hex_text_plain [OF M(3)]] M(2) by (auto simp: mail_text_def b_def)
  have "\<forall>c \<in> set (LogonReply_Encode r []). c \<notin> separators \<and> c \<noteq> CHR 0x00"
    using M(3) hex_char_plain by (auto simp: list_all_iff)
  then show "chunk_lines (sentence b) = [b @ CHR ''*'' # hex2 (xor_all 0 (tl b)) @ [CHR 0x0D, CHR 0x0D, CHR 0x0A], [CHR 0x0D, CHR 0x0A]]"
    by (intro chunk_lines_sentence) (auto simp: b_def separators_def)
qed

text \<open>The requests of the client fit and are free of separators.\<close>

lemma logon_mail_plain:
  assumes "length (re_username ep) + length (re_password ep) \<le> 30000"
  shows "length (snd (LogonRequest_Encode (logon_request_of ep) [])) \<le> 110592"
    "set (snd (LogonRequest_Encode (logon_request_of ep) [])) \<inter> separators = {}"
proof -
  show "length (snd (LogonRequest_Encode (logon_request_of ep) [])) \<le> 110592"
    using assms LogonRequest_bytes_length [of "(logon_request_of ep)\<lparr>lr_clName := to_lower (re_username ep)\<rparr>"]
    by (simp add: LogonRequest_Encode_def Let_def length_Byte2Ascii logon_request_of_def to_lower_def release_def version_def LogonRequest_ctor_def)
  show "set (snd (LogonRequest_Encode (logon_request_of ep) [])) \<inter> separators = {}"
    using hex_text_plain [OF hex_text_chars] by (simp add: LogonRequest_Encode_def Let_def)
qed

lemma start_mail_plain:
  "length (StartDataRequest_Encode StartDataRequest_ctor []) \<le> 110592"
  "set (StartDataRequest_Encode StartDataRequest_ctor []) \<inter> separators = {}"
proof -
  show "length (StartDataRequest_Encode StartDataRequest_ctor []) \<le> 110592"
    using length_EncodeHeader [of StartDataRequest_ctor] by (simp add: StartDataRequest_Encode_def length_Byte2Ascii)
  show "set (StartDataRequest_Encode StartDataRequest_ctor []) \<inter> separators = {}"
    using hex_text_plain [OF hex_text_chars] by (simp add: StartDataRequest_Encode_def)
qed

lemma connect_handler_reply:
  assumes "matches_pghp2 regex" and "reply_wf r"
    and "\<forall>n s. write_some env n s = Inr (length s)"
    and "read_some env 0 = Inr (mail_text (LogonReply_Encode r []))"
    and "length (re_username ep) + length (re_password ep) \<le> 30000"
  shows "length (mail_text (LogonReply_Encode r [])) \<le> 200 \<and>
    connect_handler regex env ep =
     (if rp_enLogonReply r = LOGON_REPLY_OK
      then ret (True, \<lparr>sent = [mail_text (snd (LogonRequest_Encode (logon_request_of ep) [])),
                               mail_text (StartDataRequest_Encode StartDataRequest_ctor [])], reads = 1\<rparr>)
      else raise (reply_error ('' certificate name: '' @ re_name ep @ '' user: '' @ re_username ep @ '' '')
             (rp_enLogonReply r)))"
proof -
  define info where "info = '' certificate name: '' @ re_name ep @ '' user: '' @ re_username ep @ '' ''"
  let ?b = "''$PGHP,2,1,1,,'' @ LogonReply_Encode r []" and ?s1 = "mail_text (snd (LogonRequest_Encode (logon_request_of ep) []))"
  note txts = chunk_lines_reply [OF assms(2)]
  have w: "\<And>n s. write_some env n s = Inr (length s)" using assms(3) by simp
  have send: "SendLogonRequest env \<lparr>sent = [], reads = 0\<rparr> ep = ret (True, \<lparr>sent = [?s1], reads = 0\<rparr>)"
    using SendPGHP2Mail_all [OF logon_mail_plain [OF assms(5)] w] by (simp add: SendLogonRequest_def)
  have start: "SendStartMesg env \<lparr>sent = [?s1], reads = 1\<rparr>
      = ret (True, \<lparr>sent = [?s1, mail_text (StartDataRequest_Encode StartDataRequest_ctor [])], reads = 1\<rparr>)"
    using SendPGHP2Mail_all [OF start_mail_plain w] by (simp add: SendStartMesg_def)
  have lines: "lines_loop regex info env (chunk_lines (sentence ?b)) \<lparr>sent = [?s1], reads = 1\<rparr> =
      (if rp_enLogonReply r = LOGON_REPLY_OK
       then ret (True, \<lparr>sent = [?s1, mail_text (StartDataRequest_Encode StartDataRequest_ctor [])], reads = 1\<rparr>)
       else raise (reply_error info (rp_enLogonReply r)))"
    unfolding txts(2) lines_loop.simps line_reply_sentence [OF assms(1,2)] after_simps
    by (cases "rp_enLogonReply r") (simp_all add: start [simplified])
  have "connect_handler regex env ep = read_loop regex info env (Suc 4) \<lparr>sent = [?s1], reads = 0\<rparr>"
    by (simp add: connect_handler_def Let_def send info_def)
  also have "\<dots> = (if rp_enLogonReply r = LOGON_REPLY_OK
      then ret (True, \<lparr>sent = [?s1, mail_text (StartDataRequest_Encode StartDataRequest_ctor [])], reads = 1\<rparr>)
      else raise (reply_error info (rp_enLogonReply r)))"
    unfolding read_loop.simps using lines assms(4) txts(1) by (simp add: Let_def sentence_def)
  finally show ?thesis
    using reply_mail(2) [OF assms(2)] by (simp add: txts(1) sentence_def hex2_def info_def)
qed

text \<open>
  The logon runs to its end. When every write is taken, the regular expression matches as
  documented, and the first read delivers the sentence a server encodes for one of the ten replies
  (it fits the 200-byte buffer), then the reply OK makes \<^verbatim>\<open>connect_handler\<close> return true after one
  read, with logon and start request sent, and every other reply raises the error of that reply.
\<close>

theorem connect_handler_answered:
  assumes "matches_pghp2 regex" and "reply_wf r"
    and "\<forall>n s. write_some env n s = Inr (length s)"
    and "read_some env 0 = Inr (mail_text (LogonReply_Encode r []))"
    and "length (re_username ep) + length (re_password ep) \<le> 30000"
  shows "length (mail_text (LogonReply_Encode r [])) \<le> 200 \<and>
    connect_handler regex env ep =
     (if rp_enLogonReply r = LOGON_REPLY_OK
      then ret (True, \<lparr>sent = [mail_text (snd (LogonRequest_Encode (logon_request_of ep) [])),
                               mail_text (StartDataRequest_Encode StartDataRequest_ctor [])], reads = 1\<rparr>)
      else raise (reply_error ('' certificate name: '' @ re_name ep @ '' user: '' @ re_username ep @ '' '')
             (rp_enLogonReply r)))"
  using assms by (rule connect_handler_reply)

definition sample_env :: sock_env where
  "sample_env = \<lparr>write_some = (\<lambda>_ s. Inr (length s)),
     read_some = (\<lambda>_. Inr (mail_text (LogonReply_Encode LogonReply_ctor [])))\<rparr>"

theorem connect_handler_answered_witness:
  "\<exists>st. connect_handler sample_regex sample_env RemoteEndpoint_ctor = ret (True, st) \<and> reads st = 1"
  using connect_handler_answered [OF sample_regex_matches, of LogonReply_ctor sample_env RemoteEndpoint_ctor]
  by (simp add: sample_env_def reply_wf_def LogonReply_ctor_def logon_replies_def int_kept_def RemoteEndpoint_ctor_def)


end
