(* ===== verification/ProxyLog.thy ===== *)
theory ProxyLog
  imports StrUtil
begin

text \<open>
  The log the web page shows: \<^verbatim>\<open>proxy_log\<close> of \<^verbatim>\<open>src/src/applutil.cpp\<close>, the sessions of
  \<^verbatim>\<open>src/src/proxy_global.cpp\<close> that remember how far a browser has read, and the handlers
  \<^verbatim>\<open>proxy_app::logger_get\<close> and \<^verbatim>\<open>proxy_app::index\<close> of \<^verbatim>\<open>src/src/main.cpp\<close>. The time stamp of an entry
  and the write times of the log files are arguments.
\<close>

section \<open>The log\<close>

record proxy_log =
  m_log :: "(int \<times> string) list"
  m_name :: string
  m_write_index :: int
  m_log_file_index :: int
  m_logfile :: "string option"

definition proxy_log_ctor :: "string \<Rightarrow> proxy_log" where
  "proxy_log_ctor name =
     \<lparr>m_log = [], m_name = name, m_write_index = 0, m_log_file_index = 0, m_logfile = None\<rparr>"

definition proxy_log_peek :: "proxy_log \<Rightarrow> string" where
  "proxy_log_peek l = (if length (m_log l) > 0 then snd (last (m_log l)) else [])"

definition proxy_log_get :: "proxy_log \<Rightarrow> int \<Rightarrow> string" where
  "proxy_log_get l index =
     (case find (\<lambda>e. fst e = index) (m_log l) of None \<Rightarrow> [] | Some e \<Rightarrow> snd e)"

definition proxy_log_count :: "proxy_log \<Rightarrow> int" where
  "proxy_log_count l = m_write_index l"

definition proxy_log_filename :: "int \<Rightarrow> string" where
  "proxy_log_filename index = ''uniproxy'' @ show_int index @ ''.log''"

text \<open>
  The search for the oldest of the ten log files: \<open>wtimes i\<close> is \<^verbatim>\<open>last_write_time\<close> of the file of
  index \<open>i\<close>, -1 where there is none.
\<close>

fun oldest_loop :: "(int \<Rightarrow> int) \<Rightarrow> int list \<Rightarrow> int \<Rightarrow> int \<Rightarrow> int" where
  "oldest_loop wtimes [] i0 t0 = i0"
| "oldest_loop wtimes (i # is) i0 t0 =
     (if wtimes i < t0 then oldest_loop wtimes is i (wtimes i) else oldest_loop wtimes is i0 t0)"

definition oldest_file :: "(int \<Rightarrow> int) \<Rightarrow> int" where
  "oldest_file wtimes = oldest_loop wtimes [1..9] 0 (wtimes 0)"

fun trim_log :: "(int \<times> string) list \<Rightarrow> (int \<times> string) list" where
  "trim_log [] = []"
| "trim_log (e # es) = (if length (e # es) > 50 then trim_log es else e # es)"

definition proxy_log_add :: "(int \<Rightarrow> int) \<Rightarrow> string \<Rightarrow> string \<Rightarrow> proxy_log \<Rightarrow> proxy_log" where
  "proxy_log_add wtimes stamp value l =
     (if value = [] then l
      else
        let l = (if m_write_index l = 0
                 then l\<lparr>m_log_file_index := oldest_file wtimes,
                        m_logfile := Some (proxy_log_filename (oldest_file wtimes))\<rparr>
                 else l)
        in l\<lparr>m_log := trim_log (m_log l @ [(m_write_index l, stamp @ '': '' @ value)]),
             m_write_index := wrap32 (m_write_index l + 1)\<rparr>)"

text \<open>\<^verbatim>\<open>clear\<close> takes the mutex and does nothing.\<close>

definition proxy_log_clear :: "proxy_log \<Rightarrow> proxy_log" where
  "proxy_log_clear l = l"

text \<open>What \<^verbatim>\<open>do_log\<close> hands to the journal: \<open>None\<close> for an empty text.\<close>

definition do_log :: "string \<Rightarrow> string option" where
  "do_log s = (if s \<noteq> [] then map_option (\<lambda>r. ''MESSAGE='' @ r) (replace s ''%'' ''%%'') else None)"

section \<open>Sessions\<close>

record session_data =
  m_id :: int
  m_logger_read_index :: int
  m_timestamp :: int

definition session_data_ctor :: "int \<Rightarrow> int \<Rightarrow> session_data" where
  "session_data_ctor now ident = \<lparr>m_id = ident, m_logger_read_index = 0, m_timestamp = now\<rparr>"

fun session_position :: "int \<Rightarrow> session_data list \<Rightarrow> nat option" where
  "session_position ident [] = None"
| "session_position ident (d # ds) = (if m_id d = ident then Some 0 else map_option Suc (session_position ident ds))"

text \<open>
  \<^verbatim>\<open>get_session_data\<close>: \<open>stored\<close> is the identifier kept in the session of the web framework, \<open>rnd\<close> the
  value of \<^verbatim>\<open>rand()\<close>. The result is the position of the session in the vector, the vector and the
  identifier to be stored; a stored text of blanks reads an uninitialised variable (\<open>None\<close>).
\<close>

definition get_session_data ::
    "int \<Rightarrow> int \<Rightarrow> string option \<Rightarrow> session_data list \<Rightarrow> (nat \<times> session_data list \<times> string option) option" where
  "get_session_data now rnd stored ss =
     (case (case stored of Some s \<Rightarrow> from_string s None | None \<Rightarrow> Some rnd) of
        None \<Rightarrow> None
      | Some ident \<Rightarrow>
          (let stored' = (case stored of None \<Rightarrow> Some (show_int rnd) | Some s \<Rightarrow> Some s) in
           case session_position ident ss of
             Some i \<Rightarrow> Some (i, ss[i := (ss ! i)\<lparr>m_timestamp := now\<rparr>], stored')
           | None \<Rightarrow> Some (length ss, ss @ [session_data_ctor now ident], stored')))"

text \<open>\<^verbatim>\<open>proxy_app::index\<close> makes the browser read the log from the beginning.\<close>

definition index_handler :: "session_data \<Rightarrow> session_data" where
  "index_handler d = d\<lparr>m_logger_read_index := 0\<rparr>"

fun logger_loop :: "proxy_log \<Rightarrow> int list \<Rightarrow> string list" where
  "logger_loop l [] = []"
| "logger_loop l (i # is) =
     (let txt = proxy_log_get l i in if txt \<noteq> [] then txt # logger_loop l is else logger_loop l is)"

text \<open>\<^verbatim>\<open>proxy_app::logger_get\<close>: the lines written to the response.\<close>

definition logger_get :: "proxy_log \<Rightarrow> session_data \<Rightarrow> string list \<times> session_data" where
  "logger_get l d =
     (let w = proxy_log_count l
      in (logger_loop l [m_logger_read_index d..w - 1], d\<lparr>m_logger_read_index := w\<rparr>))"

section \<open>What the log holds\<close>

text \<open>
  The log after the texts \<open>es\<close> were added: the indices count from zero and the last fifty entries
  are kept.
\<close>

definition log_of :: "proxy_log \<Rightarrow> string list \<Rightarrow> bool" where
  "log_of l es \<longleftrightarrow> m_write_index l = int (length es)
     \<and> m_log l = drop (length es - 50) (zip (map int [0..<length es]) es)"

lemma trim_log_eq: "trim_log es = drop (length es - 50) es"
proof (induction es)
  case (Cons e es)
  show ?case
  proof (cases "length es \<ge> 50")
    case True
    then have "length (e # es) - 50 = Suc (length es - 50)" by simp
    with True Cons show ?thesis by (simp del: length_Cons)
  qed simp
qed simp

lemma log_of_ctor: "log_of (proxy_log_ctor name) []"
  by (simp add: log_of_def proxy_log_ctor_def)

lemma log_of_add:
  assumes "log_of l es" "value \<noteq> []" "int (length es) < 2 ^ 31 - 1"
  shows "log_of (proxy_log_add wtimes stamp value l) (es @ [stamp @ '': '' @ value])"
proof -
  let ?n = "length es" and ?e = "stamp @ '': '' @ value"
  have z: "zip (map int [0..<length (es @ [?e])]) (es @ [?e]) = zip (map int [0..<?n]) es @ [(int ?n, ?e)]"
    by simp
  have "trim_log (drop (?n - 50) (zip (map int [0..<?n]) es) @ [(int ?n, ?e)])
      = drop (Suc ?n - 50) (zip (map int [0..<?n]) es @ [(int ?n, ?e)])"
  proof -
    have "?n - (?n - 50 + 49) + (?n - 50) = ?n - 49" by (cases "50 \<le> ?n") auto
    then show ?thesis by (simp add: trim_log_eq)
  qed
  with assms show ?thesis
    unfolding log_of_def z by (simp add: proxy_log_add_def Let_def)
qed

lemma log_of_get:
  assumes "log_of l es"
  shows "proxy_log_get l (int i) = (if length es - 50 \<le> i \<and> i < length es then es ! i else [])"
proof -
  let ?k = "length es - 50" and ?z = "zip (map int [0..<length es]) es"
  have f: "find (\<lambda>e. fst e = int i) (drop k ?z) = (if k \<le> i \<and> i < length es then Some (int i, es ! i) else None)"
    if "k \<le> length es" for k
    using that
  proof (induction "length es - k" arbitrary: k)
    case (Suc n)
    then have k: "k < length es" by simp
    then have "drop k ?z = (int k, es ! k) # drop (Suc k) ?z"
      by (simp add: Cons_nth_drop_Suc [symmetric])
    with Suc(1) [of "Suc k"] Suc(2) k show ?case by auto
  qed simp
  show ?thesis
    using assms f [of ?k] by (simp add: proxy_log_get_def log_of_def)
qed


section \<open>A browser that polls\<close>

datatype log_event = LogAdd string string | Poll

text \<open>The lines all polls of one session deliver, and the texts that were added before each poll.\<close>

fun log_run :: "(int \<Rightarrow> int) \<Rightarrow> proxy_log \<Rightarrow> session_data \<Rightarrow> log_event list \<Rightarrow> string list" where
  "log_run wtimes l d [] = []"
| "log_run wtimes l d (LogAdd stamp value # ev) = log_run wtimes (proxy_log_add wtimes stamp value l) d ev"
| "log_run wtimes l d (Poll # ev) = (case logger_get l d of (out, d') \<Rightarrow> out @ log_run wtimes l d' ev)"

fun polled :: "string list \<Rightarrow> log_event list \<Rightarrow> string list" where
  "polled pend [] = []"
| "polled pend (LogAdd stamp value # ev) =
     polled (if value = [] then pend else pend @ [stamp @ '': '' @ value]) ev"
| "polled pend (Poll # ev) = pend @ polled [] ev"

fun keeps_up :: "nat \<Rightarrow> log_event list \<Rightarrow> bool" where
  "keeps_up n [] = True"
| "keeps_up n (LogAdd stamp value # ev) = (if value = [] then keeps_up n ev else n < 50 \<and> keeps_up (n + 1) ev)"
| "keeps_up n (Poll # ev) = keeps_up 0 ev"

lemma logger_loop_window:
  assumes "log_of l es" "\<forall>e \<in> set es. e \<noteq> []" "r \<le> length es" "length es - r \<le> 50"
  shows "logger_loop l [int r..int (length es) - 1] = drop r es"
proof -
  have "logger_loop l (map int [k..<length es]) = drop k es" if "r \<le> k" "k \<le> length es" for k
    using that
  proof (induction "length es - k" arbitrary: k)
    case (Suc n)
    then have k: "k < length es" by simp
    then have "proxy_log_get l (int k) = es ! k" using log_of_get [OF assms(1), of k] Suc.prems assms(4) by auto
    moreover have "es ! k \<noteq> []" using assms(2) k by auto
    ultimately show ?case
      using Suc(1) [of "Suc k"] Suc.prems Suc(2) k
      by (simp add: upt_conv_Cons Let_def Cons_nth_drop_Suc)
  qed simp
  moreover have "[int r..int (length es) - 1] = map int [r..<length es]"
    by (simp add: upto_int_upt)
  ultimately show ?thesis using assms(3) by simp
qed

lemma log_run_polled:
  assumes "log_of l es" "\<forall>e \<in> set es. e \<noteq> []" "m_logger_read_index d = int r" "r \<le> length es"
    "length es - r \<le> n" "n \<le> 50" "keeps_up n ev" "int (length es + length ev) < 2 ^ 31"
  shows "log_run wtimes l d ev = polled (drop r es) ev"
  using assms
proof (induction wtimes l d ev arbitrary: es r n rule: log_run.induct)
  case (2 wtimes l d stamp val ev)
  show ?case
  proof (cases "val = []")
    case True
    then have "proxy_log_add wtimes stamp val l = l" by (simp add: proxy_log_add_def)
    with True 2 show ?thesis by simp
  next
    case False
    then have l: "log_of (proxy_log_add wtimes stamp val l) (es @ [stamp @ '': '' @ val])"
      using 2(2,9) by (intro log_of_add) auto
    have "log_run wtimes (proxy_log_add wtimes stamp val l) d ev = polled (drop r (es @ [stamp @ '': '' @ val])) ev"
      by (rule 2(1) [OF l, of r "n + 1"]) (use 2 False in auto)
    with False 2(5) show ?thesis by simp
  qed
next
  case (3 wtimes l d ev)
  have out: "logger_get l d = (drop r es, d\<lparr>m_logger_read_index := int (length es)\<rparr>)"
    using logger_loop_window [OF 3(2,3,5)] 3
    by (simp add: logger_get_def proxy_log_count_def log_of_def Let_def)
  have "log_run wtimes l (d\<lparr>m_logger_read_index := int (length es)\<rparr>) ev = polled (drop (length es) es) ev"
    by (rule 3(1) [OF out [symmetric] 3(2,3), of "length es" 0]) (use 3 in auto)
  with out show ?case by simp
qed simp

text \<open>
  C35: the web page shows every log line exactly once and in order: for every course of additions and
  polls of one session, as long as at most fifty lines are added between two polls (and fewer than
  \<open>2^31\<close> in all), the lines the polls deliver are exactly the non-empty texts added before the last
  poll, each with its time stamp.
\<close>

theorem logger_exactly_once:
  assumes "keeps_up 0 ev" and "length ev < 2 ^ 31"
  shows "log_run wtimes (proxy_log_ctor name) (session_data_ctor now ident) ev = polled [] ev"
proof -
  have "log_run wtimes (proxy_log_ctor name) (session_data_ctor now ident) ev = polled (drop 0 []) ev"
    by (rule log_run_polled [OF log_of_ctor, of _ _ 0]) (use assms in \<open>simp_all add: session_data_ctor_def\<close>)
  then show ?thesis by simp
qed

theorem logger_exactly_once_witness:
  "log_run (\<lambda>_. 0) (proxy_log_ctor ''n'') (session_data_ctor 0 7)
     [LogAdd ''t1'' ''a'', Poll, LogAdd ''t2'' [], LogAdd ''t3'' ''b'', LogAdd ''t4'' ''c'', Poll]
   = [''t1: a'', ''t3: b'', ''t4: c'']"
  using logger_exactly_once [of "[LogAdd ''t1'' ''a'', Poll, LogAdd ''t2'' [], LogAdd ''t3'' ''b'', LogAdd ''t4'' ''c'', Poll]"]
  by simp

end
