(* ===== verification/Thread.thy ===== *)
theory Thread
  imports Prelude Errors
begin

text \<open>
  The stoppable thread \<^verbatim>\<open>mylib::thread\<close> of \<^verbatim>\<open>src/src/applutil.h\<close> that every client, host and service of
  the proxy runs in, and the guard \<^verbatim>\<open>protect_pointer\<close> by which another thread finds its sockets. Time
  counts milliseconds. A thread is stopped once, at a time or never, so the stop flag is a function
  of the clock. The loops all these threads run have one shape, \<open>worker_loop\<close>; the locale
  \<open>prompt_round\<close> says what a round of such a loop must do so that a stopped thread ends.
\<close>

section \<open>The thread object\<close>

text \<open>
  A \<^verbatim>\<open>std::thread\<close> stands for no thread, for one that runs or for one that has returned and was not
  joined. \<open>m_has_interrupt\<close> tells whether an interrupt function was given.
\<close>

datatype std_thread = No_thread | Alive | Returned

record thread =
  m_stop :: bool
  m_has_interrupt :: bool
  m_thread :: std_thread

definition thread_ctor :: "bool \<Rightarrow> thread" where
  "thread_ctor has_interrupt = \<lparr>m_stop = False, m_has_interrupt = has_interrupt, m_thread = No_thread\<rparr>"

definition joinable :: "thread \<Rightarrow> bool" where
  "joinable th \<longleftrightarrow> m_thread th \<noteq> No_thread"

definition thread_start :: "thread \<Rightarrow> exn + thread" where
  "thread_start th =
     (if joinable th then Inl (system_error thread_already_running [])
      else Inr (th\<lparr>m_stop := False, m_thread := Alive\<rparr>))"

text \<open>
  \<^verbatim>\<open>stop\<close> with the thread that calls it: joining itself raises an exception. The flag of the result
  says whether the interrupt function was called.
\<close>

definition deadlock :: exn where
  "deadlock = runtime_error ''Resource deadlock avoided''"

definition thread_stop :: "bool \<Rightarrow> bool \<Rightarrow> thread \<Rightarrow> (exn option \<times> bool) \<times> thread" where
  "thread_stop wait self th =
     (let th = th\<lparr>m_stop := True\<rparr> in
      if joinable th then
        if wait then
          if self then ((Some deadlock, m_has_interrupt th), th)
          else ((None, m_has_interrupt th), th\<lparr>m_thread := No_thread\<rparr>)
        else ((None, m_has_interrupt th), th)
      else ((None, False), th))"

definition check_run :: "bool \<Rightarrow> thread \<Rightarrow> exn + bool" where
  "check_run throws th =
     (if m_stop th \<and> throws then Inl interrupt_exception else Inr (\<not> m_stop th))"

text \<open>
  \<^verbatim>\<open>is_thread_running\<close>: \<^verbatim>\<open>pthread_kill\<close> with signal 0 on a thread that was not joined. The library may
  answer \<^verbatim>\<open>ESRCH\<close> for a thread that has returned or not: \<open>esrch\<close> is that choice.
\<close>

definition is_thread_running :: "bool \<Rightarrow> thread \<Rightarrow> bool" where
  "is_thread_running esrch th \<longleftrightarrow>
     (if joinable th then \<not> (esrch \<and> m_thread th = Returned) else False)"

text \<open>The thread function returns, by itself or by an exception that the wrapper swallows.\<close>

definition thread_returns :: "thread \<Rightarrow> thread" where
  "thread_returns th = (if m_thread th = Alive then th\<lparr>m_thread := Returned\<rparr> else th)"

section \<open>Guarded pointers\<close>

text \<open>
  \<^verbatim>\<open>protect_pointer\<close> sets a pointer for the time of a scope and leaves the null pointer behind, also
  when the scope is left by an exception. \<^verbatim>\<open>get_socket\<close> reads it under the same lock.
\<close>

definition protect_pointer :: "'p \<Rightarrow> ('p option \<Rightarrow> (exn + 'a) \<times> 'p option) \<Rightarrow> (exn + 'a) \<times> 'p option" where
  "protect_pointer ref scope = (case scope (Some ref) of (r, p) \<Rightarrow> (r, None))"

definition get_socket :: "('p \<Rightarrow> int) \<Rightarrow> 'p option \<Rightarrow> int" where
  "get_socket native_handle p = (case p of Some s \<Rightarrow> native_handle s | None \<Rightarrow> 0)"

section \<open>Sleeping\<close>

definition is_stopped :: "int option \<Rightarrow> int \<Rightarrow> bool" where
  "is_stopped stop now \<longleftrightarrow> (case stop of None \<Rightarrow> False | Some t \<Rightarrow> t \<le> now)"

lemma is_stopped_simps [simp]: "\<not> is_stopped None now" "is_stopped (Some t) now \<longleftrightarrow> t \<le> now"
  by (simp_all add: is_stopped_def)

text \<open>
  \<^verbatim>\<open>sleep\<close> takes slices of five seconds and looks at the flag before each and at the end: the result
  is whether the interrupt exception was raised and the time then.
\<close>

function sleep :: "int option \<Rightarrow> int \<Rightarrow> int \<Rightarrow> bool \<times> int" where
  "sleep stop now millisec =
     (if millisec \<ge> 5000 then
        if is_stopped stop now then (True, now) else sleep stop (now + 5000) (millisec - 5000)
      else
        let now = now + max 0 millisec in (is_stopped stop now, now))"
  by pat_completeness auto
termination
  by (relation "measure (\<lambda>(stop, now, millisec). nat millisec)") auto

declare sleep.simps [simp del]

lemma sleep_undisturbed:
  assumes "0 \<le> ms" and "\<not> is_stopped stop (now + ms)"
  shows "sleep stop now ms = (False, now + ms)"
  using assms
proof (induction stop now ms rule: sleep.induct)
  case (1 stop now ms)
  have "\<not> is_stopped stop now"
    using 1(2,3) by (cases stop) auto
  then show ?case
    using 1 by (subst sleep.simps) (auto simp: Let_def)
qed

lemma sleep_forward: "now \<le> snd (sleep stop now ms)" "0 \<le> ms \<Longrightarrow> snd (sleep stop now ms) \<le> now + ms"
proof (induction stop now ms rule: sleep.induct)
  case (1 stop now ms)
  { case 1
    show ?case
      using "1.IH"(1) by (subst sleep.simps) (force simp: Let_def) }
  { case 2
    then show ?case
      using "1.IH"(2) by (subst sleep.simps) (force simp: Let_def) }
qed

lemma sleep_flag: "0 \<le> ms \<Longrightarrow> \<not> fst (sleep stop now ms) \<Longrightarrow> snd (sleep stop now ms) = now + ms \<and> \<not> is_stopped stop (now + ms)"
proof (induction stop now ms rule: sleep.induct)
  case (1 stop now ms)
  then show ?case
    by (subst (asm) (2) sleep.simps, subst sleep.simps) (auto simp: Let_def split: if_splits)
qed

lemma sleep_caught: "fst (sleep stop now ms) \<Longrightarrow> is_stopped stop (snd (sleep stop now ms))"
proof (induction stop now ms rule: sleep.induct)
  case (1 stop now ms)
  then show ?case
    by (subst (asm) (2) sleep.simps, subst sleep.simps) (auto simp: Let_def split: if_splits)
qed

text \<open>
  A sleep that begins after the stop lasts at most the remainder of the slices, one that is caught by
  the stop at most one slice more.
\<close>

lemma sleep_stopped: "0 \<le> ms \<Longrightarrow> stop \<le> now \<Longrightarrow> sleep (Some stop) now ms = (True, if ms < 5000 then now + ms else now)"
  by (subst sleep.simps) (simp add: Let_def)

lemma sleep_prompt:
  assumes "0 \<le> ms"
  shows "snd (sleep (Some stop) now ms) \<le> max now stop + 5000 + ms mod 5000"
  using assms
proof (induction "Some stop" now ms rule: sleep.induct)
  case (1 now ms)
  have mod_slice: "(ms - 5000) mod 5000 = ms mod 5000"
    using mod_add_self2 [of "ms - 5000" 5000] by simp
  have small: "snd (sleep (Some stop) now ms) \<le> max now stop + 5000" if "ms < 5000"
    using 1(2) that by (subst sleep.simps) (simp add: Let_def)
  have late: "snd (sleep (Some stop) (now + 5000) (ms - 5000)) \<le> max now stop + 5000 + ms mod 5000"
    if "5000 \<le> ms" "now < stop"
  proof (cases "stop \<le> now + 5000")
    case True
    have "ms - 5000 < 5000 \<Longrightarrow> ms mod 5000 = ms - 5000"
      using that mod_pos_pos_trivial [of "ms - 5000" 5000] by (simp only: mod_slice)
    then show ?thesis
      using that True pos_mod_sign [of 5000 ms] by (auto simp add: sleep_stopped)
  next
    case False
    then show ?thesis
      using 1(1) that mod_slice by simp
  qed
  show ?case
  proof (cases "ms < 5000")
    case True
    then show ?thesis
      using small 1(2) by (smt (verit) pos_mod_sign)
  next
    case False
    then show ?thesis
      using late by (subst sleep.simps) (simp add: not_less Let_def)
  qed
qed

lemma sleep_bound:
  assumes "0 \<le> ms" "now \<le> limit" "stop \<le> limit"
  shows "snd (sleep (Some stop) now ms) \<le> limit + min ms (5000 + ms mod 5000)"
  using sleep_prompt [OF assms(1), of stop now] sleep_forward(2) [OF assms(1), of "Some stop" now] assms(2,3)
  by (auto simp: min_def max_def split: if_splits)

section \<open>Loops of threads\<close>

text \<open>
  The loop of a thread: the flag is looked at, a round runs, and the thread sleeps. A round gives
  whether it was left by the interrupt exception, the new state and the time. A thread that is never
  stopped may run for ever: \<open>None\<close>. A loop without a sleep at its end has the pause 0, which only
  looks at the flag.
\<close>

type_synonym 's round = "'s \<Rightarrow> int \<Rightarrow> (bool \<times> 's \<times> int) option"

partial_function (option) worker_loop :: "int option \<Rightarrow> 's round \<Rightarrow> int \<Rightarrow> 's \<Rightarrow> int \<Rightarrow> ('s \<times> int) option" where
  "worker_loop stop round pause s now =
     (if is_stopped stop now then Some (s, now)
      else Option.bind (round s now) (\<lambda>(interrupted, s, now).
        if interrupted then Some (s, now)
        else case sleep stop now pause of (interrupted, now) \<Rightarrow>
          if interrupted then Some (s, now) else worker_loop stop round pause s now))"

text \<open>
  What a loop relies on: a round that begins before the stop, in a state where \<open>I\<close> holds, ends with
  \<open>I\<close> and within \<open>delay\<close> of the stop, since the interrupt function has shut its sockets down; and the
  round or the pause takes time.
\<close>

locale prompt_round =
  fixes I :: "'s \<Rightarrow> bool" and stop :: int and round :: "'s round" and pause :: int and delay :: int
  assumes prompt: "I s \<Longrightarrow> now < stop \<Longrightarrow> \<exists>interrupted s' now'. round s now = Some (interrupted, s', now') \<and> I s'
      \<and> now \<le> now' \<and> now' \<le> stop + delay \<and> (\<not> interrupted \<longrightarrow> now < now' + pause)"
    and pause: "0 \<le> pause"
    and delay: "0 \<le> delay"
begin

text \<open>
  The thread ends, with \<open>I\<close>, at a time bounded by the stop; and it ends after the stop or where a
  round was left by the interrupt exception.
\<close>

lemma ends:
  "I s \<Longrightarrow> \<exists>s' e. worker_loop (Some stop) round pause s now = Some (s', e) \<and> I s'
     \<and> e \<le> max now (stop + delay + min pause (5000 + pause mod 5000))
     \<and> (stop \<le> e \<or> (\<exists>t n. I t \<and> round t n = Some (True, s', e)))"
proof (induction "nat (stop - now)" arbitrary: s now rule: less_induct)
  case less
  show ?case
  proof (cases "now < stop")
    case False
    then show ?thesis
      using less(2) by (subst worker_loop.simps) simp
  next
    case True
    obtain interrupted s' now' where r: "round s now = Some (interrupted, s', now')" and I': "I s'"
        and n: "now \<le> now'" "now' \<le> stop + delay" and p: "\<not> interrupted \<Longrightarrow> now < now' + pause"
      using prompt [OF less(2) True] by blast
    obtain caught now'' where sl: "sleep (Some stop) now' pause = (caught, now'')"
      by (metis prod.exhaust)
    have bound: "now'' \<le> stop + delay + min pause (5000 + pause mod 5000)"
      using sleep_bound [OF pause n(2), of stop] delay sl by simp
    have bound': "now' \<le> stop + delay + min pause (5000 + pause mod 5000)"
      using n pause pos_mod_sign [of 5000 pause] by linarith
    show ?thesis
    proof (cases "interrupted \<or> caught")
      case True
      then show ?thesis
        using r sl bound bound' I' less(2) sleep_caught [of "Some stop" now' pause] \<open>now < stop\<close>
        by (subst worker_loop.simps) auto
    next
      case False
      then have "now'' = now' + pause"
        using sleep_flag [of pause "Some stop" now'] sl pause by simp
      then have "nat (stop - now'') < nat (stop - now)"
        using p False \<open>now < stop\<close> by auto
      from less(1) [OF this I'] show ?thesis
        using False r sl bound \<open>now < stop\<close> by (subst worker_loop.simps) auto
    qed
  qed
qed

end

end
