(* ===== verification/DataFlow.thy ===== *)
theory DataFlow
  imports Prelude
begin

text \<open>
  The throughput counter \<^verbatim>\<open>data_flow\<close> of \<^verbatim>\<open>src/src/applutil.h\<close> and \<^verbatim>\<open>src/src/applutil.cpp\<close>: a
  ring of sixty one-second buckets that every connection uses for its in and out counts.
  The clock is an argument of each operation: \<open>now\<close> is the value of \<^verbatim>\<open>data_flow::timestamp()\<close>,
  the seconds of the steady clock, which counts up from boot and is never negative.
  The theory ends with the abstract counter the ring implements: a history of (second, count)
  pairs, and the sum of those that are younger than sixty seconds.
\<close>

section \<open>The ring\<close>

abbreviation data_flow_size :: nat where
  "data_flow_size \<equiv> 60"

record data_flow =
  m_buffer :: "u64 list"
  m_stamp :: nat
  m_debug :: bool

definition data_flow_ctor :: "nat \<Rightarrow> bool \<Rightarrow> data_flow" where
  "data_flow_ctor now debug =
     \<lparr>m_buffer = replicate data_flow_size 0, m_stamp = now, m_debug = debug\<rparr>"

definition data_flow_clear :: "data_flow \<Rightarrow> data_flow" where
  "data_flow_clear d = d\<lparr>m_buffer := map (\<lambda>_. 0) (m_buffer d)\<rparr>"

text \<open>How many steps of the ring lead from one slot to another.\<close>

definition ring_dist :: "nat \<Rightarrow> nat \<Rightarrow> nat" where
  "ring_dist i j = (if i \<le> j then j - i else j + data_flow_size - i)"

text \<open>
  The clearing loop of \<open>cleanup\<close>: \<^verbatim>\<open>while (index != index_stop)\<close>. Both indices are remainders
  modulo the ring size, so \<open>stop < 60\<close> holds at the call; the second disjunct only makes the
  recursion total.
\<close>

function clear_loop :: "nat \<Rightarrow> nat \<Rightarrow> u64 list \<Rightarrow> u64 list" where
  "clear_loop index stop buf =
     (if index = stop \<or> data_flow_size \<le> stop then buf
      else (let i = (index + 1) mod data_flow_size in clear_loop i stop (buf[i := 0])))"
  by pat_completeness auto
termination
  by (relation "measure (\<lambda>(index, stop, buf).
        if index < data_flow_size then ring_dist index stop else data_flow_size)")
     (auto simp: ring_dist_def mod_Suc)

declare clear_loop.simps [simp del]

definition data_flow_cleanup :: "nat \<Rightarrow> data_flow \<Rightarrow> data_flow" where
  "data_flow_cleanup stamp d =
     (if m_stamp d + data_flow_size \<le> stamp
      then d\<lparr>m_buffer := map (\<lambda>_. 0) (m_buffer d)\<rparr>
      else d\<lparr>m_buffer := clear_loop (m_stamp d mod data_flow_size) (stamp mod data_flow_size)
               (m_buffer d)\<rparr>)"

definition data_flow_add :: "nat \<Rightarrow> u64 \<Rightarrow> data_flow \<Rightarrow> data_flow" where
  "data_flow_add now cnt d =
     (let d1 = data_flow_cleanup now d; i = now mod data_flow_size
      in d1\<lparr>m_buffer := (m_buffer d1)[i := m_buffer d1 ! i + cnt], m_stamp := now\<rparr>)"

definition data_flow_get :: "nat \<Rightarrow> data_flow \<Rightarrow> u64 \<times> data_flow" where
  "data_flow_get now d = (let d1 = data_flow_cleanup now d in (foldl (+) 0 (m_buffer d1), d1))"

section \<open>What the clearing loop clears\<close>

lemma length_clear_loop [simp]: "length (clear_loop i s buf) = length buf"
  by (induction i s buf rule: clear_loop.induct) (subst clear_loop.simps, simp add: Let_def)

lemma clear_loop_nth:
  assumes "i < 60" "s < 60" "length buf = 60" "j < 60"
  shows "clear_loop i s buf ! j =
    (if 0 < ring_dist i j \<and> ring_dist i j \<le> ring_dist i s then 0 else buf ! j)"
  using assms
proof (induction i s buf rule: clear_loop.induct)
  case (1 i s buf)
  show ?case
  proof (cases "i = s")
    case True
    then show ?thesis using 1(3) by (subst clear_loop.simps) (auto simp: ring_dist_def)
  next
    case False
    let ?i = "(i + 1) mod 60"
    have step: "clear_loop i s buf = clear_loop ?i s (buf[?i := 0])"
      using False 1(3) by (subst clear_loop.simps) (simp add: Let_def)
    have IH: "clear_loop ?i s (buf[?i := 0]) ! j =
        (if 0 < ring_dist ?i j \<and> ring_dist ?i j \<le> ring_dist ?i s then 0 else buf[?i := 0] ! j)"
      using False 1 by simp
    have dist: "ring_dist i s = Suc (ring_dist ?i s)"
      using False 1(2,3) by (auto simp: ring_dist_def mod_Suc)
    have distj: "ring_dist i j = (if j = ?i then 1 else if j = i then 0 else Suc (ring_dist ?i j))"
      using 1(2,5) by (auto simp: ring_dist_def mod_Suc)
    have "ring_dist ?i i = 59" using 1(2) by (auto simp: ring_dist_def mod_Suc)
    moreover have "ring_dist ?i s < 59" using False 1(2,3) by (auto simp: ring_dist_def mod_Suc)
    moreover have "ring_dist ?i ?i = 0" by (simp add: ring_dist_def)
    moreover have "j \<noteq> ?i \<Longrightarrow> 0 < ring_dist ?i j" using 1(5) by (auto simp: ring_dist_def)
    ultimately show ?thesis
      using 1(4,5) unfolding step IH dist distj by (auto simp: nth_list_update)
  qed
qed

lemma cleanup_stamp [simp]: "m_stamp (data_flow_cleanup t d) = m_stamp d"
  by (simp add: data_flow_cleanup_def)

lemma cleanup_length [simp]: "length (m_buffer (data_flow_cleanup t d)) = length (m_buffer d)"
  by (simp add: data_flow_cleanup_def)

section \<open>The abstract counter\<close>

text \<open>
  A history lists every counted amount with the second it was counted in. The window at time
  \<open>t\<close> holds the entries that are younger than sixty seconds.
\<close>

type_synonym history = "(nat \<times> u64) list"

definition window :: "nat \<Rightarrow> history \<Rightarrow> history" where
  "window t h = filter (\<lambda>(s, _). t < s + data_flow_size) h"

definition total :: "history \<Rightarrow> u64" where
  "total h = sum_list (map snd h)"

text \<open>The entries of one second class.\<close>

definition slot :: "nat \<Rightarrow> history \<Rightarrow> history" where
  "slot j h = filter (\<lambda>(s, _). s mod data_flow_size = j) h"

text \<open>
  The ring represents a history as it was last seen at time \<open>t\<close>: bucket \<open>j\<close> holds the sum of the
  entries of that class that are still in the window. \<^verbatim>\<open>get\<close> clears buckets without moving the
  stamp, so the time of the last observation may be later than the stamp.
\<close>

definition represents :: "data_flow \<Rightarrow> history \<Rightarrow> nat \<Rightarrow> bool" where
  "represents d h t \<longleftrightarrow> length (m_buffer d) = data_flow_size \<and> m_stamp d \<le> t
     \<and> (\<forall>(s, c) \<in> set h. s \<le> m_stamp d)
     \<and> (\<forall>j < data_flow_size. m_buffer d ! j = total (slot j (window t h)))"

lemma slot_window_later:
  assumes "t \<le> t'" and "\<forall>(s, c) \<in> set h. s mod 60 = j \<longrightarrow> \<not> (t < s + 60 \<and> s + 60 \<le> t')"
  shows "slot j (window t' h) = slot j (window t h)"
  using assms by (induction h) (auto simp: slot_def window_def)

lemma slot_window_expired:
  assumes "\<forall>(s, c) \<in> set h. s mod 60 = j \<longrightarrow> s + 60 \<le> t"
  shows "slot j (window t h) = []"
  using assms by (induction h) (auto simp: slot_def window_def)

lemma ring_dist_mod:
  assumes "a \<le> u" "u < a + 60"
  shows "ring_dist (a mod 60) (u mod 60) = u - a"
proof -
  define r k where "r = a mod 60" and "k = u - a"
  have "u mod 60 = (a + k) mod 60" using assms(1) by (simp add: k_def)
  then have u: "u mod 60 = (r + k) mod 60" by (simp add: r_def mod_add_left_eq)
  have rk: "r < 60" "k < 60" using assms by (auto simp: r_def k_def)
  have "(r + k) mod 60 = (if r + k < 60 then r + k else r + k - 60)"
    using rk by (simp add: mod_if)
  then have "ring_dist r ((r + k) mod 60) = k"
    using rk by (auto simp: ring_dist_def split: if_splits)
  then show ?thesis by (simp add: u r_def k_def)
qed

text \<open>The buckets the loop clears are those of the seconds after the stamp, up to now.\<close>

lemma ring_dist_cleared:
  assumes "a \<le> t" "t < a + 60" "j < 60"
  shows "(0 < ring_dist (a mod 60) j \<and> ring_dist (a mod 60) j \<le> ring_dist (a mod 60) (t mod 60))
     \<longleftrightarrow> (\<exists>u. a < u \<and> u \<le> t \<and> u mod 60 = j)" (is "?l \<longleftrightarrow> ?r")
proof
  assume l: ?l
  define k where "k = ring_dist (a mod 60) j"
  have k: "0 < k" "k \<le> t - a" using l assms ring_dist_mod [of a t] by (auto simp: k_def)
  have "(a + k) mod 60 = (a mod 60 + k) mod 60" by (simp add: mod_add_left_eq)
  also have "\<dots> = j"
  proof -
    have "a mod 60 + k = j \<or> a mod 60 + k = j + 60"
      using assms(3) mod_less_divisor [of 60 a] by (simp add: k_def ring_dist_def del: mod_less_divisor)
    then show ?thesis using assms(3) by auto
  qed
  finally have "(a + k) mod 60 = j" .
  with k assms(1) show ?r by (intro exI [of _ "a + k"]) auto
next
  assume ?r
  then obtain u where u: "a < u" "u \<le> t" "u mod 60 = j" by blast
  then have "ring_dist (a mod 60) j = u - a" using ring_dist_mod [of a u] assms by auto
  with u assms show ?l using ring_dist_mod [of a t] by auto
qed

lemma cleanup_nth:
  assumes "length (m_buffer d) = 60" "m_stamp d \<le> t" "j < 60"
  shows "m_buffer (data_flow_cleanup t d) ! j =
    (if \<exists>u. m_stamp d < u \<and> u \<le> t \<and> u mod 60 = j then 0 else m_buffer d ! j)"
proof (cases "m_stamp d + 60 \<le> t")
  case True
  have "\<exists>u. m_stamp d < u \<and> u \<le> t \<and> u mod 60 = j"
  proof -
    define u where "u = m_stamp d + 1 + (j + 60 - (m_stamp d + 1) mod 60) mod 60"
    have "u mod 60 = j"
    proof -
      have "(m_stamp d + 1) mod 60 \<le> 60" by simp
      then have "u mod 60 = ((m_stamp d + 1) mod 60 + (j + 60 - (m_stamp d + 1) mod 60)) mod 60"
        unfolding u_def by (metis mod_add_eq mod_mod_trivial)
      then show ?thesis using assms(3) by (simp add: le_add_diff_inverse)
    qed
    moreover have "u \<le> m_stamp d + 60" unfolding u_def
      by (metis Suc_eq_plus1 add.assoc add_le_cancel_left less_eq_Suc_le mod_less_divisor
          plus_1_eq_Suc zero_less_numeral)
    ultimately show ?thesis using True by (intro exI [of _ u]) (auto simp: u_def)
  qed
  with True assms show ?thesis by (simp add: data_flow_cleanup_def)
next
  case False
  with assms show ?thesis
    using clear_loop_nth [of "m_stamp d mod 60" "t mod 60" "m_buffer d" j]
      ring_dist_cleared [of "m_stamp d" t j]
    by (simp add: data_flow_cleanup_def)
qed

section \<open>The ring implements the abstract counter\<close>

lemma represents_ctor: "represents (data_flow_ctor now dbg) [] now"
  by (simp add: represents_def data_flow_ctor_def slot_def window_def total_def)

lemma represents_cleanup:
  assumes rep: "represents d h t" and le: "t \<le> t'"
  shows "represents (data_flow_cleanup t' d) h t'"
proof -
  have len: "length (m_buffer d) = 60" and st: "m_stamp d \<le> t"
    and hs: "\<And>s c. (s, c) \<in> set h \<Longrightarrow> s \<le> m_stamp d"
    and buf: "\<And>j. j < 60 \<Longrightarrow> m_buffer d ! j = total (slot j (window t h))"
    using rep by (auto simp: represents_def)
  have "m_buffer (data_flow_cleanup t' d) ! j = total (slot j (window t' h))" if j: "j < 60" for j
  proof (cases "\<exists>u. m_stamp d < u \<and> u \<le> t' \<and> u mod 60 = j")
    case True
    then obtain u where u: "m_stamp d < u" "u \<le> t'" "u mod 60 = j" by blast
    have "s + 60 \<le> t'" if "(s, c) \<in> set h" "s mod 60 = j" for s c
    proof -
      have "s < u" using hs [OF that(1)] u(1) by simp
      moreover have "60 dvd u - s" using u(3) that(2) calculation
        by (metis mod_eq_dvd_iff_nat nat_less_le)
      ultimately have "60 \<le> u - s" by (intro dvd_imp_le) auto
      with u(2) show ?thesis by simp
    qed
    then have "slot j (window t' h) = []" by (intro slot_window_expired) auto
    with True show ?thesis using cleanup_nth [OF len _ j, of t'] st le by (simp add: total_def)
  next
    case False
    have "slot j (window t' h) = slot j (window t h)"
    proof (rule slot_window_later [OF le], clarify)
      fix s c assume "(s, c) \<in> set h" "j = s mod 60" "t < s + 60" "s + 60 \<le> t'"
      then show False using False st by (metis le_less_trans mod_add_self2)
    qed
    with False show ?thesis using cleanup_nth [OF len _ j, of t'] st le buf [OF j] by auto
  qed
  with len st le hs show ?thesis by (auto simp: represents_def)
qed

lemma represents_add:
  assumes rep: "represents d h t" and le: "t \<le> now"
  shows "represents (data_flow_add now c d) (h @ [(now, c)]) now"
proof -
  have r: "represents (data_flow_cleanup now d) h now" by (rule represents_cleanup [OF rep le])
  have slots: "slot j (window now (h @ [(now, c)]))
      = slot j (window now h) @ (if now mod 60 = j then [(now, c)] else [])" for j
    by (simp add: slot_def window_def)
  show ?thesis using r rep le
    by (auto simp: represents_def data_flow_add_def Let_def slots nth_list_update total_def
        intro: order_trans)
qed

lemma represents_clear: "represents d h t \<Longrightarrow> represents (data_flow_clear d) [] t"
  by (simp add: represents_def data_flow_clear_def slot_def window_def total_def)

text \<open>The sum over the buckets is the sum over the window.\<close>

lemma total_slots: "sum_list (map (\<lambda>j. total (slot j h)) [0..<60]) = total h"
proof (induction h)
  case Nil
  show ?case by (simp add: slot_def total_def)
next
  case (Cons e h)
  obtain s c where e: "e = (s, c)" by (cases e)
  have "sum_list (map (\<lambda>j. total (slot j (e # h))) [0..<60])
      = sum_list (map (\<lambda>j. (if j = s mod 60 then c else 0) + total (slot j h)) [0..<60])"
    by (rule sum_list_upt_cong) (auto simp: e slot_def total_def)
  also have "\<dots> = sum_list (map (\<lambda>j. if j = s mod 60 then c else 0) [0..<60]) + total h"
    by (simp only: sum_list_addf Cons.IH)
  also have "sum_list (map (\<lambda>j. if j = s mod 60 then c else 0) [0..<60]) = c"
    by (simp only: sum_list_map_eq_sum_count2 [of _ "{0..<60}"] interv_sum_list_conv_sum_set_nat)
       simp
  finally show ?case by (simp add: e total_def)
qed

lemma get_total:
  assumes "represents d h t" "t \<le> now"
  shows "fst (data_flow_get now d) = total (window now h)"
proof -
  have r: "represents (data_flow_cleanup now d) h now" by (rule represents_cleanup [OF assms])
  have "fst (data_flow_get now d) = sum_list (m_buffer (data_flow_cleanup now d))"
    by (simp add: data_flow_get_def Let_def foldl_plus_sum_list)
  also have "\<dots> = sum_list (map (\<lambda>j. m_buffer (data_flow_cleanup now d) ! j) [0..<60])"
    using r by (metis map_nth represents_def)
  also have "\<dots> = sum_list (map (\<lambda>j. total (slot j (window now h))) [0..<60])"
    using r by (intro sum_list_upt_cong) (simp add: represents_def)
  finally show ?thesis by (simp add: total_slots)
qed

lemma represents_get: "represents d h t \<Longrightarrow> t \<le> now \<Longrightarrow> represents (snd (data_flow_get now d)) h now"
  by (simp add: data_flow_get_def Let_def represents_cleanup)

section \<open>The interface of the counter\<close>

text \<open>
  What a connection relies on: sequences of calls with the clock value at each. The clock never
  goes back (\<open>timed\<close>).
\<close>

datatype flow_op = Add nat u64 | Get nat | Clear

fun timed :: "nat \<Rightarrow> flow_op list \<Rightarrow> bool" where
  "timed t [] = True"
| "timed t (Add now c # ops) = (t \<le> now \<and> timed now ops)"
| "timed t (Get now # ops) = (t \<le> now \<and> timed now ops)"
| "timed t (Clear # ops) = timed t ops"

text \<open>The values the calls of \<^verbatim>\<open>get\<close> return, on the abstract history and on a state.\<close>

fun spec_run :: "history \<Rightarrow> flow_op list \<Rightarrow> u64 list" where
  "spec_run h [] = []"
| "spec_run h (Add now c # ops) = spec_run (h @ [(now, c)]) ops"
| "spec_run h (Get now # ops) = total (window now h) # spec_run h ops"
| "spec_run h (Clear # ops) = spec_run [] ops"

fun impl_run :: "(nat \<Rightarrow> u64 \<Rightarrow> 's \<Rightarrow> 's) \<Rightarrow> (nat \<Rightarrow> 's \<Rightarrow> u64 \<times> 's) \<Rightarrow> ('s \<Rightarrow> 's) \<Rightarrow> 's \<Rightarrow> flow_op list
    \<Rightarrow> u64 list" where
  "impl_run ad gt cl s [] = []"
| "impl_run ad gt cl s (Add now c # ops) = impl_run ad gt cl (ad now c s) ops"
| "impl_run ad gt cl s (Get now # ops) = (case gt now s of (v, s') \<Rightarrow> v # impl_run ad gt cl s' ops)"
| "impl_run ad gt cl s (Clear # ops) = impl_run ad gt cl (cl s) ops"

locale flow_counter =
  fixes ad :: "nat \<Rightarrow> u64 \<Rightarrow> 's \<Rightarrow> 's"
    and gt :: "nat \<Rightarrow> 's \<Rightarrow> u64 \<times> 's"
    and cl :: "'s \<Rightarrow> 's"
    and rep :: "'s \<Rightarrow> history \<Rightarrow> nat \<Rightarrow> bool"
  assumes rep_ad: "rep s h t \<Longrightarrow> t \<le> now \<Longrightarrow> rep (ad now c s) (h @ [(now, c)]) now"
    and rep_gt: "rep s h t \<Longrightarrow> t \<le> now \<Longrightarrow> rep (snd (gt now s)) h now"
    and val_gt: "rep s h t \<Longrightarrow> t \<le> now \<Longrightarrow> fst (gt now s) = total (window now h)"
    and rep_cl: "rep s h t \<Longrightarrow> rep (cl s) [] t"
begin

lemma run_refines: "rep s h t \<Longrightarrow> timed t ops \<Longrightarrow> impl_run ad gt cl s ops = spec_run h ops"
proof (induction h ops arbitrary: s t rule: spec_run.induct)
  case (2 h now c ops)
  then show ?case using 2(1) [OF rep_ad [OF 2(2)]] by simp
next
  case (3 h now ops)
  have "fst (gt now s) = total (window now h)" "rep (snd (gt now s)) h now"
    using 3(2,3) val_gt rep_gt by simp_all
  with 3 show ?case by (simp add: case_prod_unfold)
next
  case (4 h ops)
  then show ?case using 4(1) [OF rep_cl [OF 4(2)]] by simp
qed simp

end

interpretation ring: flow_counter data_flow_add data_flow_get data_flow_clear represents
  by unfold_locales (simp_all add: represents_add represents_get get_total represents_clear)

text \<open>
  C1: whatever sequence of counting, reading and clearing a connection performs while the clock
  does not go back, every reading of the sixty-bucket ring equals the sum of exactly the amounts
  counted since the last clearing in the sixty seconds that end now (modulo \<open>2^64\<close>).
\<close>

theorem data_flow_refines_window:
  "timed now ops \<Longrightarrow> impl_run data_flow_add data_flow_get data_flow_clear (data_flow_ctor now dbg) ops = spec_run [] ops"
  by (rule ring.run_refines [OF represents_ctor])

theorem data_flow_refines_window_witness:
  "timed 100 [Add 100 7, Add 130 5, Get 159, Get 160, Add 189 1, Get 189, Clear, Get 190] \<and>
   impl_run data_flow_add data_flow_get data_flow_clear (data_flow_ctor 100 True)
     [Add 100 7, Add 130 5, Get 159, Get 160, Add 189 1, Get 189, Clear, Get 190] = [12, 5, 6, 0]"
  using data_flow_refines_window
    [of 100 "[Add 100 7, Add 130 5, Get 159, Get 160, Add 189 1, Get 189, Clear, Get 190]" True]
  by (simp add: window_def total_def)

end
