(* ===== verification/RemoteHost.thy ===== *)
theory RemoteHost
  imports DataFlow Endpoint
begin

text \<open>
  The server side of a proxy connection: \<^verbatim>\<open>RemoteProxyClient\<close> and \<^verbatim>\<open>RemoteProxyHost\<close> of
  \<^verbatim>\<open>src/src/remoteclient.cpp\<close>, and the interface \<^verbatim>\<open>PluginHandler\<close> of \<^verbatim>\<open>src/src/applutil.h\<close> that a host calls.
  Sockets, certificates and the shuffling of the end points are arguments; one pass of a read and
  write loop is an \<open>iteration\<close>. The system clock counts milliseconds.
\<close>

section \<open>Plugins\<close>

text \<open>
  The virtual functions of a plugin, with the outcome on the connection at hand. A filter gives the
  buffer, which it may change, and whether to send it.
\<close>

record plugin =
  pl_type :: string
  max_buffer_size :: nat
  connect_result :: "RemoteEndpoint \<Rightarrow> exn + bool"
  stream_local2remote :: "exn + bool"
  message_filter_local2remote :: "string \<Rightarrow> bool \<times> string"
  message_filter_remote2local :: "string \<Rightarrow> bool \<times> string"

text \<open>\<^verbatim>\<open>PluginHandler\<close> itself, the default of every host.\<close>

definition standard_plugin :: plugin where
  "standard_plugin =
     \<lparr>pl_type = [], max_buffer_size = 1000, connect_result = (\<lambda>_. Inr True),
      stream_local2remote = Inr False, message_filter_local2remote = (\<lambda>b. (True, b)),
      message_filter_remote2local = (\<lambda>b. (True, b))\<rparr>"

section \<open>A connection from a remote proxy\<close>

text \<open>
  \<open>rc_stopped\<close> and \<open>rc_thread_ended\<close> are \<open>None\<close> for the default time point. \<open>rc_sent_local\<close> and
  \<open>rc_sent_remote\<close> are the bytes the sockets have taken, \<open>rc_logged\<close> the exceptions that were logged.
\<close>

record remote_client =
  rc_endpoint :: RemoteEndpoint
  rc_local_ep :: "LocalEndpoint list"
  rc_local_connected :: bool
  rc_remote_connected :: bool
  rc_local_started :: bool
  rc_stop_flag :: bool
  rc_stopped :: "int option"
  rc_thread_ended :: "int option"
  rc_count_in :: data_flow
  rc_count_out :: data_flow
  rc_last_incoming_msg :: string
  rc_last_outgoing_msg :: string
  rc_sent_local :: string
  rc_sent_remote :: string
  rc_logged :: "exn list"

definition RemoteProxyClient_ctor :: "nat \<Rightarrow> remote_client" where
  "RemoteProxyClient_ctor now =
     \<lparr>rc_endpoint = RemoteEndpoint_ctor, rc_local_ep = [], rc_local_connected = False, rc_remote_connected = False,
      rc_local_started = False, rc_stop_flag = False, rc_stopped = None, rc_thread_ended = None,
      rc_count_in = data_flow_ctor now False, rc_count_out = data_flow_ctor now False,
      rc_last_incoming_msg = [], rc_last_outgoing_msg = [], rc_sent_local = [], rc_sent_remote = [], rc_logged = []\<rparr>"

definition client_start :: "LocalEndpoint list \<Rightarrow> remote_client \<Rightarrow> remote_client" where
  "client_start eps c = c\<lparr>rc_local_ep := eps\<rparr>"

definition client_stop :: "int \<Rightarrow> remote_client \<Rightarrow> remote_client" where
  "client_stop now c = (if rc_stopped c = None then c\<lparr>rc_stop_flag := True, rc_stopped := Some now\<rparr> else c)"

definition client_interrupt :: "remote_client \<Rightarrow> remote_client" where
  "client_interrupt c = c\<lparr>rc_local_connected := False, rc_remote_connected := False\<rparr>"

definition is_thread_active :: "int \<Rightarrow> remote_client \<Rightarrow> bool" where
  "is_thread_active now c \<longleftrightarrow> (case rc_thread_ended c of None \<Rightarrow> True | Some t \<Rightarrow> now - t < 2000)"

definition log_client :: "exn \<Rightarrow> remote_client \<Rightarrow> remote_client" where
  "log_client e c = c\<lparr>rc_logged := rc_logged c @ [e]\<rparr>"

subsection \<open>Moving data\<close>

text \<open>
  One pass of a loop: whether the thread has been told to stop, what \<^verbatim>\<open>read_some\<close> gives (an error or
  the bytes), how many of the bytes handed to it \<^verbatim>\<open>write_some\<close> takes, and the steady clock. A loop is
  running when the passes are used up.
\<close>

record iteration =
  it_stop :: bool
  it_read :: "string option"
  it_write :: "string \<Rightarrow> exn + nat"
  it_steady :: nat

datatype loop_end = Running | Left | Thrown exn

fun local_loop :: "plugin \<Rightarrow> iteration list \<Rightarrow> remote_client \<Rightarrow> loop_end \<times> remote_client" where
  "local_loop P [] c = (Running, c)"
| "local_loop P (it # its) c =
     (if it_stop it then (Thrown interrupt_exception, c)
      else case it_read it of
        None \<Rightarrow> (Left, c)
      | Some data \<Rightarrow>
          (if length data = 0 then (Left, c)
           else
             let c = c\<lparr>rc_last_outgoing_msg := takeWhile (\<lambda>x. x \<noteq> CHR 0x00) data\<rparr>;
                 (pass, buffer) = message_filter_local2remote P data in
             if pass then
               (case it_write it buffer of
                  Inl e \<Rightarrow> (Thrown e, c)
                | Inr n \<Rightarrow> local_loop P its
                    (c\<lparr>rc_count_out := data_flow_add (it_steady it) (of_nat n) (rc_count_out c),
                       rc_sent_remote := rc_sent_remote c @ take n buffer\<rparr>))
             else local_loop P its c))"

text \<open>A stopped thread raises an exception the handlers do not catch: the interrupt is skipped.\<close>

definition local_threadproc :: "plugin \<Rightarrow> iteration list \<Rightarrow> remote_client \<Rightarrow> remote_client" where
  "local_threadproc P its c =
     (case (case stream_local2remote P of
              Inl e \<Rightarrow> (Thrown e, c)
            | Inr True \<Rightarrow> (Left, c)
            | Inr False \<Rightarrow> local_loop P its c) of
        (Running, c) \<Rightarrow> c
      | (Left, c) \<Rightarrow> client_interrupt c
      | (Thrown e, c) \<Rightarrow> if e = interrupt_exception then c else client_interrupt (log_client e c))"

fun remote_loop :: "plugin \<Rightarrow> iteration list \<Rightarrow> remote_client \<Rightarrow> loop_end \<times> remote_client" where
  "remote_loop P [] c = (Running, c)"
| "remote_loop P (it # its) c =
     (if it_stop it then (Thrown interrupt_exception, c)
      else case it_read it of
        None \<Rightarrow> (Left, c)
      | Some data \<Rightarrow>
          (if length data = 0 then (Left, c)
           else
             let c = c\<lparr>rc_last_incoming_msg := takeWhile (\<lambda>x. x \<noteq> CHR 0x00) data\<rparr>;
                 (pass, buffer) = message_filter_remote2local P data in
             if pass then
               (case it_write it buffer of
                  Inl e \<Rightarrow> (Thrown e, c)
                | Inr n \<Rightarrow> remote_loop P its
                    (c\<lparr>rc_count_in := data_flow_add (it_steady it) (of_nat n) (rc_count_in c),
                       rc_sent_local := rc_sent_local c @ take n buffer\<rparr>))
             else remote_loop P its (log_client (runtime_error ''Data overflow'') c)))"

subsection \<open>The thread of a connection\<close>

text \<open>The shuffled indices are tried in turn; \<open>try_connect\<close> is the exception of a failed connection.\<close>

fun attempt_loop :: "(LocalEndpoint \<Rightarrow> exn option) \<Rightarrow> LocalEndpoint list \<Rightarrow> nat list \<Rightarrow> bool" where
  "attempt_loop try_connect eps [] = False"
| "attempt_loop try_connect eps (i # is) =
     (if try_connect (eps ! i) = None then True else attempt_loop try_connect eps is)"

text \<open>
  What comes from outside: the handshake, the issuer line of the peer's certificate, the split at
  \<^verbatim>\<open>/CN=\<close>, the order of the local end points and the connections to them, the passes of the loop, and
  the time the thread ends.
\<close>

record outside =
  o_handshake :: "exn option"
  o_issuer :: "string option"
  o_split :: "string \<Rightarrow> string list"
  o_indexes :: "nat list"
  o_connect :: "LocalEndpoint \<Rightarrow> exn option"
  o_passes :: "iteration list"
  o_ended :: int

definition peer_name :: "outside \<Rightarrow> string" where
  "peer_name W =
     (case o_issuer W of
        None \<Rightarrow> ''NOT VALID''
      | Some issuer \<Rightarrow>
          (if length issuer > 0 \<and> length (o_split W issuer) > 1 then o_split W issuer ! 1 else ''NOT VALID''))"

definition find_endpoint :: "outside \<Rightarrow> RemoteEndpoint list \<Rightarrow> RemoteEndpoint option" where
  "find_endpoint W eps =
     (case o_issuer W of
        None \<Rightarrow> None
      | Some issuer \<Rightarrow> if length issuer > 0 then find (\<lambda>ep. peer_name W = re_name ep) eps else None)"

definition remote_body :: "plugin \<Rightarrow> RemoteEndpoint list \<Rightarrow> outside \<Rightarrow> remote_client \<Rightarrow> loop_end \<times> remote_client" where
  "remote_body P host_eps W c =
     (if length (rc_local_ep c) = 0 then (Thrown (runtime_error ''No local endpoints found''), c)
      else case o_handshake W of
        Some e \<Rightarrow> (Thrown e, c)
      | None \<Rightarrow>
          (let c = c\<lparr>rc_remote_connected := True\<rparr> in
           case find_endpoint W host_eps of
             None \<Rightarrow> (Thrown (runtime_error
                 (''Certificate valid but no active connections specified: '' @ peer_name W)), c)
           | Some ep \<Rightarrow>
               (let c = c\<lparr>rc_endpoint := ep, rc_local_connected := False\<rparr> in
                if \<not> attempt_loop (o_connect W) (rc_local_ep c) (o_indexes W)
                then (Thrown (runtime_error ''Failed connection to local host''), c)
                else
                  let c = c\<lparr>rc_local_connected := True\<rparr> in
                  (case connect_result P ep of
                     Inl e \<Rightarrow> (Thrown e, c)
                   | Inr False \<Rightarrow>
                       (Thrown (runtime_error (''Failed plugin connect_handler for type: '' @ pl_type P)), c)
                   | Inr True \<Rightarrow>
                       (if rc_local_started c then (Thrown (system_error thread_already_running []), c)
                        else remote_loop P (o_passes W) (c\<lparr>rc_local_started := True\<rparr>))))))"

definition remote_threadproc :: "plugin \<Rightarrow> RemoteEndpoint list \<Rightarrow> outside \<Rightarrow> remote_client \<Rightarrow> remote_client" where
  "remote_threadproc P host_eps W c =
     (case remote_body P host_eps W c of
        (Running, c) \<Rightarrow> c
      | (Left, c) \<Rightarrow> (client_interrupt c)\<lparr>rc_thread_ended := Some (o_ended W)\<rparr>
      | (Thrown e, c) \<Rightarrow>
          if e = interrupt_exception then c
          else (client_interrupt (log_client e c))\<lparr>rc_thread_ended := Some (o_ended W)\<rparr>)"

text \<open>
  The test of the local side: an HTTP status. A connection that is up already is not tested, a plugin
  that refuses without an exception leaves 500.
\<close>

definition test_local_connection ::
    "plugin \<Rightarrow> RemoteEndpoint list \<Rightarrow> string \<Rightarrow> LocalEndpoint list \<Rightarrow> outside \<Rightarrow> remote_client \<Rightarrow> int \<times> remote_client" where
  "test_local_connection P host_eps name eps W c =
     (let c = c\<lparr>rc_local_ep := eps\<rparr>;
          c = (case find (\<lambda>ep. re_name ep = name) host_eps of None \<Rightarrow> c | Some ep \<Rightarrow> c\<lparr>rc_endpoint := ep\<rparr>) in
      if rc_local_connected c then (429, c)
      else if \<not> attempt_loop (o_connect W) eps (o_indexes W) then (422, c)
      else
        (case connect_result P (rc_endpoint c) of
           Inl e \<Rightarrow> (401, log_client e c)
         | Inr b \<Rightarrow> (if b then 200 else 500, c)))"

section \<open>The host\<close>

record remote_host =
  rh_id :: int
  rh_port :: u16
  rh_plugin :: plugin
  rh_tls :: int
  rh_active :: bool
  rh_running :: bool
  rh_remote_ep :: "RemoteEndpoint list"
  rh_local_ep :: "LocalEndpoint list"
  rh_clients :: "remote_client list"

text \<open>The TLS context of a host is set up by its constructor, for the version that is configured at that moment.\<close>

definition RemoteProxyHost_ctor ::
    "int \<Rightarrow> int \<Rightarrow> u16 \<Rightarrow> RemoteEndpoint list \<Rightarrow> LocalEndpoint list \<Rightarrow> plugin \<Rightarrow> remote_host" where
  "RemoteProxyHost_ctor ident tls port remote_ep local_ep P =
     \<lparr>rh_id = ident, rh_port = port, rh_plugin = P, rh_tls = tls, rh_active = True, rh_running = False,
      rh_remote_ep = remote_ep, rh_local_ep = local_ep, rh_clients = []\<rparr>"

definition add_remotes :: "RemoteEndpoint list \<Rightarrow> remote_host \<Rightarrow> remote_host" where
  "add_remotes eps h = h\<lparr>rh_remote_ep := rh_remote_ep h @ eps\<rparr>"

text \<open>\<^verbatim>\<open>remove_remotes\<close> erases, for each given end point, the first that equals it.\<close>

fun erase_equal :: "RemoteEndpoint \<Rightarrow> RemoteEndpoint list \<Rightarrow> RemoteEndpoint list" where
  "erase_equal x [] = []"
| "erase_equal x (ep # eps) = (if RemoteEndpoint_eq ep x then eps else ep # erase_equal x eps)"

definition remove_remotes :: "RemoteEndpoint list \<Rightarrow> remote_host \<Rightarrow> remote_host" where
  "remove_remotes eps h = h\<lparr>rh_remote_ep := foldl (\<lambda>l x. erase_equal x l) (rh_remote_ep h) eps\<rparr>"

definition stop_by_name :: "int \<Rightarrow> string \<Rightarrow> remote_host \<Rightarrow> remote_host" where
  "stop_by_name now certname h =
     h\<lparr>rh_clients := map (\<lambda>c. if re_name (rc_endpoint c) = certname then client_stop now c else c) (rh_clients h)\<rparr>"

text \<open>The acceptor is opened and bound in the calling thread: \<open>bound\<close> is the exception of a failure.\<close>

definition host_start :: "exn option \<Rightarrow> remote_host \<Rightarrow> remote_host outcome" where
  "host_start bound h =
     (if rh_running h then ret h
      else case bound of Some e \<Rightarrow> raise e | None \<Rightarrow> ret (h\<lparr>rh_running := True\<rparr>))"

definition host_stop :: "int \<Rightarrow> remote_host \<Rightarrow> remote_host" where
  "host_stop now h = h\<lparr>rh_running := False, rh_clients := map (client_stop now) (rh_clients h)\<rparr>"

definition host_test_local :: "string \<Rightarrow> outside \<Rightarrow> nat \<Rightarrow> remote_host \<Rightarrow> int" where
  "host_test_local name W now h =
     fst (test_local_connection (rh_plugin h) (rh_remote_ep h) name (rh_local_ep h) W (RemoteProxyClient_ctor now))"

text \<open>The sweep of \<^verbatim>\<open>check_deadline\<close>, with the numbers of idle and removed connections.\<close>

fun sweep :: "int \<Rightarrow> remote_client list \<Rightarrow> nat \<Rightarrow> nat \<Rightarrow> remote_client list \<times> nat \<times> nat" where
  "sweep now [] idle removed = ([], idle, removed)"
| "sweep now (c # cs) idle removed =
     (if \<not> is_thread_active now c then
        let c = client_stop now c in
        if (case rc_stopped c of None \<Rightarrow> False | Some t \<Rightarrow> now > t + 2000)
        then sweep now cs idle (removed + 1)
        else (case sweep now cs (idle + 1) removed of (cs', r) \<Rightarrow> (c # cs', r))
      else (case sweep now cs idle removed of (cs', r) \<Rightarrow> (c # cs', r)))"

text \<open>
  \<^verbatim>\<open>check_deadline\<close>: \<open>aborted\<close> is the error of a timer that was reset, \<open>expires\<close> the expiry; the result
  is the host and the new expiry, if one is set.
\<close>

definition host_check_deadline :: "int \<Rightarrow> bool \<Rightarrow> int option \<Rightarrow> remote_host \<Rightarrow> (remote_host \<times> int option) outcome" where
  "host_check_deadline now aborted expires h =
     (case expires of
        None \<Rightarrow> raise (asio_error ''timed out'')
      | Some t \<Rightarrow>
          (if aborted then ret (h, None)
           else if t \<le> now then ret (h\<lparr>rh_clients := fst (sweep now (rh_clients h) 0 0)\<rparr>, Some (now + 3000))
           else ret (h, None)))"

text \<open>\<^verbatim>\<open>handle_accept\<close>: the loading of the certificate file may raise, which is logged.\<close>

definition host_handle_accept :: "bool \<Rightarrow> exn option \<Rightarrow> remote_client \<Rightarrow> remote_host \<Rightarrow> exn option \<times> remote_host" where
  "host_handle_accept error loaded session h =
     (if \<not> error then
        (case loaded of
           Some e \<Rightarrow> (Some e, h)
         | None \<Rightarrow> (None, h\<lparr>rh_clients := rh_clients h @ [client_start (rh_local_ep h) session]\<rparr>))
      else (None, h))"

text \<open>\<^verbatim>\<open>remove_any\<close> stops and erases the connections of removed end points.\<close>

fun remove_clients :: "RemoteEndpoint list \<Rightarrow> remote_client list \<Rightarrow> remote_client list" where
  "remove_clients removed [] = []"
| "remove_clients removed (c # cs) =
     (if find (\<lambda>ep. RemoteEndpoint_eq (rc_endpoint c) ep) removed \<noteq> None
      then remove_clients removed cs else c # remove_clients removed cs)"

definition remove_any :: "RemoteEndpoint list \<Rightarrow> remote_host \<Rightarrow> remote_host" where
  "remove_any removed h = h\<lparr>rh_clients := remove_clients removed (rh_clients h)\<rparr>"

section \<open>Who may move data\<close>

lemma remote_loop_endpoint [simp]:
  "rc_endpoint (snd (remote_loop P its c)) = rc_endpoint c" "rc_local_ep (snd (remote_loop P its c)) = rc_local_ep c"
  by (induction P its c rule: remote_loop.induct)
     (auto simp: Let_def log_client_def split: option.splits prod.splits sum.splits)

lemma attempt_loop_found: "attempt_loop f eps is \<Longrightarrow> \<exists>i \<in> set is. f (eps ! i) = None"
  by (induction f eps "is" rule: attempt_loop.induct) (auto split: if_splits)

lemma remote_threadproc_body:
  "rc_sent_local (remote_threadproc P eps W c) = rc_sent_local (snd (remote_body P eps W c))"
  "rc_local_started (remote_threadproc P eps W c) = rc_local_started (snd (remote_body P eps W c))"
  "rc_endpoint (remote_threadproc P eps W c) = rc_endpoint (snd (remote_body P eps W c))"
  by (auto simp: remote_threadproc_def client_interrupt_def log_client_def split: prod.splits loop_end.splits)

text \<open>
  C4: only an authorised peer moves data. When the thread of a connection has written a byte to the
  local side, or has started the thread that reads from it, then the TLS handshake had succeeded, the
  name in the peer's certificate is that of one of the host's configured remote end points, which is
  the end point of the connection, one of the local end points accepted the connection, and the
  plugin accepted the logon for that end point.
\<close>

theorem only_authorised_peers:
  assumes "rc_sent_local (remote_threadproc P eps W c) \<noteq> rc_sent_local c
    \<or> rc_local_started (remote_threadproc P eps W c) \<noteq> rc_local_started c"
  shows "o_handshake W = None \<and> connect_result P (rc_endpoint (remote_threadproc P eps W c)) = Inr True
    \<and> rc_endpoint (remote_threadproc P eps W c) \<in> set eps
    \<and> re_name (rc_endpoint (remote_threadproc P eps W c)) = peer_name W
    \<and> (\<exists>i \<in> set (o_indexes W). o_connect W (rc_local_ep c ! i) = None)"
proof -
  have "rc_sent_local (snd (remote_body P eps W c)) \<noteq> rc_sent_local c
     \<or> rc_local_started (snd (remote_body P eps W c)) \<noteq> rc_local_started c"
    using assms by (simp only: remote_threadproc_body)
  then obtain ep where ep: "o_handshake W = None" "find_endpoint W eps = Some ep" "connect_result P ep = Inr True"
    "attempt_loop (o_connect W) (rc_local_ep c) (o_indexes W)" "rc_endpoint (snd (remote_body P eps W c)) = ep"
    unfolding remote_body_def by (auto simp: Let_def split: if_splits option.splits sum.splits bool.splits)
  from ep(2) have "ep \<in> set eps" "re_name ep = peer_name W"
    by (auto simp: find_endpoint_def find_Some_iff split: option.splits if_splits)
  then show ?thesis using ep attempt_loop_found by (auto simp: remote_threadproc_body)
qed

definition sample_outside :: outside where
  "sample_outside = \<lparr>o_handshake = None, o_issuer = Some ''/CN=peer'', o_split = (\<lambda>_. ['''', ''peer'']), o_indexes = [0],
     o_connect = (\<lambda>_. None), o_passes = [\<lparr>it_stop = False, it_read = Some ''data'', it_write = (\<lambda>b. Inr (length b)), it_steady = 0\<rparr>],
     o_ended = 0\<rparr>"

definition sample_peer :: RemoteEndpoint where
  "sample_peer = RemoteEndpoint_ctor\<lparr>re_name := ''peer''\<rparr>"

definition sample_client :: remote_client where
  "sample_client = client_start [\<lparr>le_hostname = ''localhost'', le_port = 80\<rparr>] (RemoteProxyClient_ctor 0)"

theorem only_authorised_peers_witness:
  "rc_sent_local (remote_threadproc standard_plugin [sample_peer] sample_outside sample_client) = ''data''
   \<and> re_name (rc_endpoint (remote_threadproc standard_plugin [sample_peer] sample_outside sample_client)) = peer_name sample_outside"
proof -
  have "rc_sent_local (remote_threadproc standard_plugin [sample_peer] sample_outside sample_client) = ''data''" by code_simp
  moreover have "rc_sent_local sample_client = []" by (simp add: sample_client_def client_start_def RemoteProxyClient_ctor_def)
  moreover from calculation have "rc_sent_local (remote_threadproc standard_plugin [sample_peer] sample_outside sample_client)
      \<noteq> rc_sent_local sample_client" by simp
  ultimately show ?thesis
    using only_authorised_peers [of standard_plugin "[sample_peer]" sample_outside sample_client] by blast
qed

section \<open>What is moved\<close>

lemma standard_filters [simp]: "message_filter_remote2local standard_plugin b = (True, b)"
  "message_filter_local2remote standard_plugin b = (True, b)"
  by (simp_all add: standard_plugin_def)

text \<open>The passes of a loop before it is stopped or a read fails.\<close>

definition busy :: "iteration list \<Rightarrow> iteration list" where
  "busy its = takeWhile (\<lambda>it. \<not> it_stop it \<and> it_read it \<noteq> None \<and> it_read it \<noteq> Some []) its"

lemma relay_data:
  assumes "\<And>it. it \<in> set its \<Longrightarrow> it_write it (the (it_read it)) = Inr (wrote it)"
  shows "rc_sent_local (snd (remote_loop standard_plugin its c)) =
      rc_sent_local c @ concat (map (\<lambda>it. take (wrote it) (the (it_read it))) (busy its))
    \<and> rc_sent_remote (snd (local_loop standard_plugin its c)) =
      rc_sent_remote c @ concat (map (\<lambda>it. take (wrote it) (the (it_read it))) (busy its))"
  using assms
proof (induction its arbitrary: c)
  case (Cons it its)
  have IH: "rc_sent_local (snd (remote_loop standard_plugin its c)) = rc_sent_local c @ concat (map (\<lambda>it. take (wrote it) (the (it_read it))) (busy its))"
    "rc_sent_remote (snd (local_loop standard_plugin its c)) = rc_sent_remote c @ concat (map (\<lambda>it. take (wrote it) (the (it_read it))) (busy its))" for c
    using Cons by simp_all
  show ?case
    using Cons.prems [of it] by (auto simp: busy_def IH [unfolded busy_def] split: option.splits)
qed (simp add: busy_def)

text \<open>What the passes of a loop have read before the first that stops it.\<close>

definition relayed :: "iteration list \<Rightarrow> string" where
  "relayed its = concat (map (\<lambda>it. the (it_read it)) (busy its))"

lemma relayed_whole:
  assumes "\<And>it b. it \<in> set its \<Longrightarrow> it_write it b = Inr (length b)"
  shows "rc_sent_local (snd (remote_loop standard_plugin its c)) = rc_sent_local c @ relayed its"
    "rc_sent_remote (snd (local_loop standard_plugin its c)) = rc_sent_remote c @ relayed its"
  using relay_data [of its "\<lambda>it. length (the (it_read it))" c] assms by (simp_all add: relayed_def)

text \<open>
  C17: the two loops of a connection move the data in order, and of each read exactly as much as the
  one \<^verbatim>\<open>write_some\<close> takes. With the standard plugin, the bytes sent to the local side and to the
  remote are, for the passes before the first stop or failed read, the bytes read, each cut to the
  number written: nothing is lost, doubled or reordered when every write takes all it is given, and
  what a short write leaves is dropped.
\<close>

theorem relay_in_order:
  assumes "\<And>it. it \<in> set its \<Longrightarrow> it_write it (the (it_read it)) = Inr (wrote it)"
  shows "rc_sent_local (snd (remote_loop standard_plugin its c)) =
      rc_sent_local c @ concat (map (\<lambda>it. take (wrote it) (the (it_read it))) (busy its))
    \<and> rc_sent_remote (snd (local_loop standard_plugin its c)) =
      rc_sent_remote c @ concat (map (\<lambda>it. take (wrote it) (the (it_read it))) (busy its))"
  by (rule relay_data [OF assms])

theorem relay_in_order_witness:
  "rc_sent_local (snd (remote_loop standard_plugin [\<lparr>it_stop = False, it_read = Some ''data'', it_write = (\<lambda>b. Inr 3), it_steady = 0\<rparr>] sample_client))
   = ''dat''"
  using relay_in_order [of "[\<lparr>it_stop = False, it_read = Some ''data'', it_write = (\<lambda>b. Inr 3), it_steady = 0\<rparr>]" "\<lambda>_. 3" sample_client]
  by (simp add: busy_def sample_client_def client_start_def RemoteProxyClient_ctor_def)

section \<open>The sweep\<close>

definition swept :: "int \<Rightarrow> remote_client \<Rightarrow> bool" where
  "swept now c \<longleftrightarrow> (\<exists>t. rc_thread_ended c = Some t \<and> t + 2000 \<le> now) \<and> (\<exists>t. rc_stopped c = Some t \<and> t + 2000 < now)"

lemma sweep_eq:
  "sweep now cs i r = (map (\<lambda>c. if is_thread_active now c then c else client_stop now c) (filter (\<lambda>c. \<not> swept now c) cs),
     i + length (filter (\<lambda>c. \<not> is_thread_active now c \<and> \<not> swept now c) cs), r + length (filter (swept now) cs))"
  by (induction now cs i r rule: sweep.induct)
     (auto simp: swept_def is_thread_active_def client_stop_def Let_def split: option.splits if_splits)

text \<open>
  C18: the sweep drops exactly the dead connections. A connection leaves the list exactly when its
  thread ended at least two seconds ago and it was stopped more than two seconds ago; the others
  keep their order, those whose thread has ended are stopped, and a connection whose thread has not
  recorded its end is neither stopped nor dropped, however late it is. In particular one whose thread
  was told to stop between two passes of its loop stays in the list for good, because the exception
  that ends the thread skips the record.
\<close>

theorem sweep_drops_dead:
  "fst (sweep now cs i r) =
     map (\<lambda>c. if is_thread_active now c then c else client_stop now c)
       (filter (\<lambda>c. \<not> ((\<exists>t. rc_thread_ended c = Some t \<and> t + 2000 \<le> now) \<and> (\<exists>t. rc_stopped c = Some t \<and> t + 2000 < now))) cs)
   \<and> (c \<in> set cs \<and> rc_thread_ended c = None \<longrightarrow> c \<in> set (fst (sweep now cs i r)))
   \<and> (fst (remote_body P eps W d) = Thrown interrupt_exception \<and> rc_thread_ended d = None \<longrightarrow>
        rc_thread_ended (remote_threadproc P eps W d) = None)"
proof (intro conjI impI)
  show "fst (sweep now cs i r) = map (\<lambda>c. if is_thread_active now c then c else client_stop now c)
       (filter (\<lambda>c. \<not> ((\<exists>t. rc_thread_ended c = Some t \<and> t + 2000 \<le> now) \<and> (\<exists>t. rc_stopped c = Some t \<and> t + 2000 < now))) cs)"
    by (simp add: sweep_eq swept_def)
  show "c \<in> set (fst (sweep now cs i r))" if "c \<in> set cs \<and> rc_thread_ended c = None"
    using that by (auto simp: sweep_eq swept_def is_thread_active_def image_iff)
  have loop: "rc_thread_ended (snd (remote_loop P its e)) = rc_thread_ended e" for its e
    by (induction P its e rule: remote_loop.induct)
       (auto simp: Let_def log_client_def split: option.splits prod.splits sum.splits)
  have "rc_thread_ended (snd (remote_body P eps W d)) = rc_thread_ended d"
    by (auto simp: remote_body_def Let_def loop split: option.splits sum.splits bool.splits)
  then show "rc_thread_ended (remote_threadproc P eps W d) = None"
    if "fst (remote_body P eps W d) = Thrown interrupt_exception \<and> rc_thread_ended d = None"
    using that by (auto simp: remote_threadproc_def split: prod.splits)
qed


theorem sweep_drops_dead_witness:
  "sample_client \<in> set (fst (sweep 99999 [sample_client] 0 0))
   \<and> rc_thread_ended (remote_threadproc standard_plugin [sample_peer]
       (sample_outside\<lparr>o_passes := [\<lparr>it_stop = True, it_read = None, it_write = (\<lambda>b. Inr 0), it_steady = 0\<rparr>]\<rparr>) sample_client) = None"
proof -
  let ?W = "sample_outside\<lparr>o_passes := [\<lparr>it_stop = True, it_read = None, it_write = (\<lambda>b. Inr 0), it_steady = 0\<rparr>]\<rparr>"
  have "fst (remote_body standard_plugin [sample_peer] ?W sample_client) = Thrown interrupt_exception" by code_simp
  moreover have "rc_thread_ended sample_client = None" by (simp add: sample_client_def client_start_def RemoteProxyClient_ctor_def)
  moreover have "sample_client \<in> set [sample_client]" by simp
  moreover note sweep_drops_dead [of 99999 "[sample_client]" 0 0 sample_client standard_plugin "[sample_peer]" ?W sample_client, THEN conjunct2]
  ultimately show ?thesis by (simp only: simp_thms)
qed

end
