(* ===== verification/Certificates.thy ===== *)
theory Certificates
  imports Endpoint
begin

text \<open>
  The certificate files and the exchange of certificates: the file operations of
  \<^verbatim>\<open>src/src/applutil.cpp\<close>, and \<^verbatim>\<open>load_certificate_names\<close>, \<^verbatim>\<open>SetupCertificatesServer\<close>,
  \<^verbatim>\<open>SetupCertificatesClient\<close>, the verify callback and the periodic exchange of \<^verbatim>\<open>src/src/proxy_global.cpp\<close>.
  OpenSSL is the record \<open>x509\<close>, with \<open>pem_laws\<close> for what its documentation promises of reading back
  written certificates. The disk is a map from file names to contents, with the names that can be
  opened for writing.
\<close>

section \<open>The libraries as parameters\<close>

text \<open>
  \<open>issuer_line\<close> is \<^verbatim>\<open>X509_NAME_oneline\<close> of the issuer into a buffer of 256 bytes, \<open>split_cn\<close> the boost
  split of a text at \<^verbatim>\<open>/CN=\<close>, \<open>pem_read\<close> the certificates \<^verbatim>\<open>PEM_read_X509\<close> finds in a text until it
  fails, \<open>pem_write\<close> what \<^verbatim>\<open>PEM_write_X509\<close> writes, \<open>x_equal\<close> the comparison \<^verbatim>\<open>X509_cmp\<close>.
\<close>

record 'c x509 =
  issuer_line :: "'c \<Rightarrow> string"
  split_cn :: "string \<Rightarrow> string list"
  pem_read :: "string \<Rightarrow> 'c list"
  pem_write :: "'c \<Rightarrow> string"
  x_equal :: "'c \<Rightarrow> 'c \<Rightarrow> bool"

definition pem_laws :: "'c x509 \<Rightarrow> bool" where
  "pem_laws X \<longleftrightarrow> (\<forall>cs. pem_read X (concat (map (pem_write X) cs)) = cs)"

record disk =
  files :: "string \<rightharpoonup> string"
  writable :: "string \<Rightarrow> bool"

abbreviation my_public_cert_name :: string where "my_public_cert_name \<equiv> ''my_public_cert.pem''"
abbreviation my_private_key_name :: string where "my_private_key_name \<equiv> ''my_private_key.pem''"
abbreviation my_certs_name :: string where "my_certs_name \<equiv> ''certs.pem''"

section \<open>Names and files\<close>

definition get_common_name :: "'c x509 \<Rightarrow> 'c \<Rightarrow> string" where
  "get_common_name X cert =
     (let issuer = issuer_line X cert in
      if length issuer > 0 then
        let result = split_cn X issuer in if length result > 1 then result ! 1 else []
      else [])"

definition load_certificates_file ::
    "'c x509 \<Rightarrow> disk \<Rightarrow> string \<Rightarrow> 'c list \<Rightarrow> bool \<times> 'c list" where
  "load_certificates_file X d name certs =
     (case files d name of None \<Rightarrow> (False, certs) | Some text \<Rightarrow> (True, certs @ pem_read X text))"

text \<open>The text goes through a temporary file of an unused name, which is removed afterwards.\<close>

definition load_certificates_string ::
    "'c x509 \<Rightarrow> disk \<Rightarrow> string \<Rightarrow> string \<Rightarrow> 'c list \<Rightarrow> (bool \<times> 'c list) \<times> disk" where
  "load_certificates_string X d tmpname s certs =
     (let d1 = (if writable d tmpname then d\<lparr>files := (files d)(tmpname \<mapsto> s)\<rparr> else d);
          r = load_certificates_file X d1 tmpname certs
      in (r, d1\<lparr>files := (files d1)(tmpname := None)\<rparr>))"

definition save_certificates_file :: "'c x509 \<Rightarrow> disk \<Rightarrow> string \<Rightarrow> 'c list \<Rightarrow> bool \<times> disk" where
  "save_certificates_file X d name certs =
     (if writable d name
      then (True, d\<lparr>files := (files d)(name \<mapsto> concat (map (pem_write X) certs))\<rparr>)
      else (False, d))"

text \<open>
  The \<^verbatim>\<open>do ... while (hit)\<close> of \<^verbatim>\<open>delete_certificate_file\<close>: each round erases the first certificate of
  the name.
\<close>

fun erase_first :: "('c \<Rightarrow> bool) \<Rightarrow> 'c list \<Rightarrow> bool \<times> 'c list" where
  "erase_first P [] = (False, [])"
| "erase_first P (c # cs) =
     (if P c then (True, cs) else case erase_first P cs of (hit, cs') \<Rightarrow> (hit, c # cs'))"

lemma erase_first_length: "erase_first P cs = (True, cs') \<Longrightarrow> length cs' < length cs"
  by (induction cs arbitrary: cs') (auto split: if_splits prod.splits)

function delete_loop :: "('c \<Rightarrow> bool) \<Rightarrow> 'c list \<Rightarrow> 'c list" where
  "delete_loop P cs = (case erase_first P cs of (hit, cs') \<Rightarrow> if hit then delete_loop P cs' else cs')"
  by pat_completeness auto
termination by (relation "measure (length \<circ> snd)") (auto dest: erase_first_length [OF sym])

declare delete_loop.simps [simp del]

text \<open>The file name argument is not used.\<close>

definition delete_certificate_file :: "'c x509 \<Rightarrow> disk \<Rightarrow> string \<Rightarrow> string \<Rightarrow> bool \<times> disk" where
  "delete_certificate_file X d unused_filename name =
     (case load_certificates_file X d my_certs_name [] of
        (False, _) \<Rightarrow> (False, d)
      | (True, certs) \<Rightarrow>
          save_certificates_file X d my_certs_name (delete_loop (\<lambda>c. name = get_common_name X c) certs))"

section \<open>The exchange on a connection\<close>

text \<open>The part of the global state the exchange changes, and the exceptions that were logged.\<close>

record cert_state =
  cs_disk :: disk
  m_cert_names :: "string list"
  cs_logged :: "exn list"

definition load_certificate_names :: "'c x509 \<Rightarrow> cert_state \<Rightarrow> string \<Rightarrow> bool \<times> cert_state" where
  "load_certificate_names X st name =
     (case load_certificates_file X (cs_disk st) name [] of
        (False, _) \<Rightarrow> (False, st\<lparr>m_cert_names := []\<rparr>)
      | (True, certs) \<Rightarrow> (True, st\<lparr>m_cert_names := map (get_common_name X) certs\<rparr>))"

definition certificate_available :: "cert_state \<Rightarrow> string \<Rightarrow> bool" where
  "certificate_available st name \<longleftrightarrow> name \<in> set (m_cert_names st)"

text \<open>The loop that erases every local certificate of the remote name.\<close>

fun erase_named :: "('c \<Rightarrow> bool) \<Rightarrow> 'c list \<Rightarrow> 'c list" where
  "erase_named P [] = []"
| "erase_named P (c # cs) = (if P c then erase_named P cs else c # erase_named P cs)"

text \<open>
  \<^verbatim>\<open>SetupCertificatesServer\<close>. \<open>received\<close> is what the read with a timeout gives, at most 4000 bytes, the
  size of the zeroed buffer; 4000 bytes without a zero make \<^verbatim>\<open>strlen\<close> leave it (\<open>None\<close>). The body may
  raise; the exception is logged and the result is the empty name.
\<close>

definition server_body ::
    "'c x509 \<Rightarrow> string \<Rightarrow> string \<Rightarrow> string list \<Rightarrow> cert_state \<Rightarrow> (string \<times> cert_state) outcome" where
  "server_body X tmpname received certnames st =
     (if length certnames = 0 then raise (system_error connection_name_unknown [])
      else if length received = 4000 \<and> CHR 0x00 \<notin> set received then None
      else
        let buffer = takeWhile (\<lambda>c. c \<noteq> CHR 0x00) received in
        if length buffer = 0 then raise (system_error certificate_invalid ''received'')
        else
          let ((ok, remote_certs), d1) = load_certificates_string X (cs_disk st) tmpname buffer [];
              st1 = st\<lparr>cs_disk := d1\<rparr> in
          if \<not> (ok \<and> length remote_certs = 1) then raise (system_error certificate_invalid ''received'')
          else
            let remote_name = get_common_name X (remote_certs ! 0) in
            if remote_name \<notin> set certnames then ret ([], st1)
            else
              let (ok, local_certs) = load_certificates_file X d1 my_certs_name [] in
              if \<not> ok
              then raise (system_error certificate_not_found ('' in file certs.pem for connection: ''))
              else
                let local_certs = erase_named (\<lambda>c. remote_name = get_common_name X c) local_certs;
                    (_, d2) = save_certificates_file X d1 my_certs_name (local_certs @ [remote_certs ! 0]);
                    (_, st2) = load_certificate_names X (st1\<lparr>cs_disk := d2\<rparr>) my_certs_name
                in ret (remote_name, st2))"

definition SetupCertificatesServer ::
    "'c x509 \<Rightarrow> string \<Rightarrow> string \<Rightarrow> string list \<Rightarrow> cert_state \<Rightarrow> (string \<times> cert_state) option" where
  "SetupCertificatesServer X tmpname received certnames st =
     (case server_body X tmpname received certnames st of
        None \<Rightarrow> None
      | Some (Inl e) \<Rightarrow> Some ([], st\<lparr>cs_logged := cs_logged st @ [e]\<rparr>)
      | Some (Inr r) \<Rightarrow> Some r)"

text \<open>
  \<^verbatim>\<open>SetupCertificatesClient\<close>: the own certificate is sent in one write, whose outcome is the argument.
  The result is the flag, what was handed to the socket and the logged exceptions.
\<close>

definition SetupCertificatesClient ::
    "(string \<Rightarrow> exn + nat) \<Rightarrow> string \<Rightarrow> cert_state \<Rightarrow> bool \<times> string option \<times> cert_state" where
  "SetupCertificatesClient write_some connection_name st =
     (let failed = (\<lambda>e. (False, None, st\<lparr>cs_logged := cs_logged st @ [e]\<rparr>)) in
      if length connection_name = 0 then failed (system_error connection_name_unknown [])
      else
        let cert = (case files (cs_disk st) my_public_cert_name of None \<Rightarrow> [] | Some s \<Rightarrow> s) in
        if length cert = 0
        then failed (system_error certificate_not_found '' certificate not found in file: certs.pem'')
        else case write_some cert of Inl e \<Rightarrow> failed e | Inr _ \<Rightarrow> (True, Some cert, st))"

text \<open>
  The verify callback of \<^verbatim>\<open>set_ssl_context\<close>: \<open>too_small\<close> says that the error of the chain is
  \<^verbatim>\<open>X509_V_ERR_EE_KEY_TOO_SMALL\<close>.
\<close>

definition verify_callback :: "bool \<Rightarrow> bool \<Rightarrow> bool \<Rightarrow> bool" where
  "verify_callback accept_short_certs preverified too_small =
     (if \<not> preverified then
        if too_small then (if accept_short_certs then True else preverified) else preverified
      else preverified)"

section \<open>The periodic exchange\<close>

text \<open>
  The merge of the certificates of another proxy: a certificate whose name is not known yet is
  appended and its name taken from the activation list; \<open>removed\<close> lists the names so removed.
\<close>

fun merge_loop :: "'c x509 \<Rightarrow> 'c list \<Rightarrow> 'c list \<Rightarrow> string list \<Rightarrow> 'c list \<times> string list" where
  "merge_loop X own [] removed = (own, removed)"
| "merge_loop X own (rem # remotes) removed =
     (if list_ex (\<lambda>cert. get_common_name X cert = get_common_name X rem) own
      then merge_loop X own remotes removed
      else merge_loop X (own @ [rem]) remotes (removed @ [get_common_name X rem]))"

text \<open>
  One end point of a round: \<open>certs\<close> and \<open>public\<close> are what the two HTTP requests delivered, \<open>None\<close> for
  a failure. The result carries the names removed from the activation list and whether an exception
  was logged.
\<close>

definition exchange_certs ::
    "'c x509 \<Rightarrow> string \<Rightarrow> string \<Rightarrow> cert_state \<Rightarrow> (bool \<times> string list \<times> cert_state) outcome" where
  "exchange_certs X tmpname output st =
     (let ((ok, remotes), d1) = load_certificates_string X (cs_disk st) tmpname output [];
          st1 = st\<lparr>cs_disk := d1\<rparr> in
      if \<not> ok
      then raise (system_error parse_file_failed ''Failed to load certificates from remote host'')
      else if remotes = [] then ret (False, [], st1)
      else
        let (_, own) = load_certificates_file X d1 my_certs_name [];
            (own', removed) = merge_loop X own remotes [] in
        if length own \<noteq> length own' then
          let (_, d2) = save_certificates_file X d1 my_certs_name own';
              (_, st2) = load_certificate_names X (st1\<lparr>cs_disk := d2\<rparr>) my_certs_name
          in ret (True, removed, st2)
        else ret (True, removed, st1))"

definition check_public ::
    "'c x509 \<Rightarrow> string \<Rightarrow> string \<Rightarrow> string \<Rightarrow> cert_state \<Rightarrow> cert_state outcome" where
  "check_public X host tmpname output st =
     (let ((ok, rem_cert), d1) = load_certificates_string X (cs_disk st) tmpname output [];
          (ok2, own_cert) = load_certificates_file X d1 my_public_cert_name [] in
      if \<not> (ok \<and> length rem_cert = 1)
      then raise (system_error parse_file_failed
             (''Failed to load public certificate from remote host: '' @ output))
      else if \<not> (ok2 \<and> length own_cert = 1)
      then raise (system_error parse_file_failed ''Failed to load own public certificate'')
      else if \<not> x_equal X (hd own_cert) (hd rem_cert)
      then raise (system_error parse_file_failed
             (''Own public Certificate are NOT equal between self and '' @ host))
      else ret (st\<lparr>cs_disk := d1\<rparr>))"


definition log_exn :: "exn \<Rightarrow> cert_state \<Rightarrow> cert_state" where
  "log_exn e st = st\<lparr>cs_logged := cs_logged st @ [e]\<rparr>"

definition exchange_endpoint ::
    "'c x509 \<Rightarrow> LocalEndpoint \<Rightarrow> string \<Rightarrow> string \<Rightarrow> string option \<Rightarrow> string option \<Rightarrow> cert_state
       \<Rightarrow> (string list \<times> cert_state) option" where
  "exchange_endpoint X ep tmp1 tmp2 certs public st =
     (case (case certs of None \<Rightarrow> ret (True, [], st) | Some output \<Rightarrow> exchange_certs X tmp1 output st) of
        None \<Rightarrow> None
      | Some (Inl e) \<Rightarrow> Some ([], log_exn e st)
      | Some (Inr (go_on, removed, st1)) \<Rightarrow>
          (if \<not> go_on then Some (removed, st1)
           else case public of
                  None \<Rightarrow> Some (removed, st1)
                | Some output \<Rightarrow>
                    (case check_public X (LocalEndpoint_print ep) tmp2 output st1 of
                       None \<Rightarrow> None
                     | Some (Inl e) \<Rightarrow> Some (removed, log_exn e st1)
                     | Some (Inr st2) \<Rightarrow> Some (removed, st2))))"

section \<open>Deleting\<close>

lemma erase_first_hit: "fst (erase_first P cs) \<longleftrightarrow> list_ex P cs"
  by (induction cs) (auto split: prod.splits)

lemma erase_first_miss: "\<not> list_ex P cs \<Longrightarrow> erase_first P cs = (False, cs)"
  by (induction cs) auto

lemma filter_erase_first: "filter (\<lambda>c. \<not> P c) (snd (erase_first P cs)) = filter (\<lambda>c. \<not> P c) cs"
  by (induction cs) (auto split: prod.splits)

lemma delete_loop_filter: "delete_loop P cs = filter (\<lambda>c. \<not> P c) cs"
proof (induction P cs rule: delete_loop.induct)
  case (1 P cs)
  obtain hit cs' where e: "erase_first P cs = (hit, cs')" by fastforce
  show ?case
  proof (cases hit)
    case True
    with e 1 filter_erase_first [of P cs] show ?thesis by (subst delete_loop.simps) simp
  next
    case False
    then have "\<not> list_ex P cs" using e erase_first_hit [of P cs] by simp
    moreover from this have "filter (\<lambda>c. \<not> P c) cs = cs" by (simp add: filter_id_conv list_ex_iff)
    ultimately show ?thesis using erase_first_miss [of P cs] by (subst delete_loop.simps) simp
  qed
qed

lemma erase_named_filter: "erase_named P cs = filter (\<lambda>c. \<not> P c) cs"
  by (induction cs) auto

text \<open>
  Deleting a certificate removes every certificate of that name from the store and keeps all
  others in order, whatever file name the caller passes.
\<close>

theorem delete_certificate_correct:
  assumes "pem_laws X" and "files d my_certs_name = Some (concat (map (pem_write X) certs))" and "writable d my_certs_name"
  shows "delete_certificate_file X d fname name =
    (True, d\<lparr>files := (files d)(my_certs_name \<mapsto>
       concat (map (pem_write X) (filter (\<lambda>c. get_common_name X c \<noteq> name) certs)))\<rparr>)"
proof -
  have "pem_read X (concat (map (pem_write X) certs)) = certs" using assms(1) by (simp add: pem_laws_def)
  then show ?thesis
    using assms(2,3) by (simp add: delete_certificate_file_def load_certificates_file_def
        save_certificates_file_def delete_loop_filter eq_commute [of name])
qed

text \<open>A library with certificates that are their names and end with a line feed.\<close>

definition sample_x509 :: "nat x509" where
  "sample_x509 =
     \<lparr>issuer_line = (\<lambda>n. ''/CN='' @ replicate n (CHR ''a'')),
      split_cn = (\<lambda>s. [[], drop 4 s]),
      pem_read = (\<lambda>s. map length (split s (CHR 0x0A))),
      pem_write = (\<lambda>n. replicate n (CHR ''a'') @ [CHR 0x0A]),
      x_equal = (=)\<rparr>"

lemma sample_x509_laws: "pem_laws sample_x509"
proof -
  have "split (concat (map (\<lambda>n. replicate n (CHR ''a'') @ [CHR 0x0A]) cs)) (CHR 0x0A) = map (\<lambda>n. replicate n (CHR ''a'')) cs" for cs
  proof (induction cs)
    case (Cons n cs)
    then show ?case using split_item [of "CHR 0x0A" "replicate n (CHR ''a'')"] by simp
  qed (simp add: split.simps)
  then show ?thesis by (simp add: pem_laws_def sample_x509_def comp_def)
qed

definition sample_disk :: "nat list \<Rightarrow> disk" where
  "sample_disk cs = \<lparr>files = [my_certs_name \<mapsto> concat (map (pem_write sample_x509) cs)], writable = (\<lambda>_. True)\<rparr>"

theorem delete_certificate_correct_witness:
  "files (snd (delete_certificate_file sample_x509 (sample_disk [1, 2, 1]) [] ''a'')) my_certs_name = Some [CHR ''a'', CHR ''a'', CHR 0x0A]"
proof -
  have "delete_certificate_file sample_x509 (sample_disk [1, 2, 1]) [] ''a'' = (True, (sample_disk [1, 2, 1])\<lparr>files := (files (sample_disk [1, 2, 1]))(my_certs_name \<mapsto>
       concat (map (pem_write sample_x509) (filter (\<lambda>c. get_common_name sample_x509 c \<noteq> ''a'') [1, 2, 1])))\<rparr>)"
    by (rule delete_certificate_correct [OF sample_x509_laws]) (simp_all add: sample_disk_def)
  then show ?thesis by (simp add: sample_x509_def get_common_name_def numeral_2_eq_2)
qed

section \<open>Receiving a certificate\<close>

lemma load_string_fresh:
  assumes "files d tmp = None" "writable d tmp"
  shows "load_certificates_string X d tmp s [] = ((True, pem_read X s), d)"
proof -
  have "(files d)(tmp := None) = files d" using assms(1) by auto
  with assms(2) show ?thesis by (simp add: load_certificates_string_def load_certificates_file_def Let_def)
qed

lemma load_string_disk:
  assumes "files d tmp = None"
  shows "\<exists>ok cs. load_certificates_string X d tmp s [] = ((ok, cs), d)"
proof -
  have "(files d)(tmp := None) = files d" using assms by auto
  then show ?thesis by (auto simp: load_certificates_string_def load_certificates_file_def Let_def split: option.split)
qed

lemma takeWhile_no_nul: "CHR 0x00 \<notin> set s \<Longrightarrow> takeWhile (\<lambda>c. c \<noteq> CHR 0x00) s = s"
  by (induction s) auto

text \<open>
  A certificate that arrives under an expected name replaces the old one. When the bytes received
  are one certificate whose name is among those being activated, \<^verbatim>\<open>SetupCertificatesServer\<close> returns the
  name, the store afterwards holds the other certificates in order followed by the new one, no older
  certificate of that name is left, and the list of known names is that of the store.
\<close>

lemma server_stores:
  assumes "pem_laws X" and "files (cs_disk st) my_certs_name = Some (concat (map (pem_write X) certs))"
    and "writable (cs_disk st) my_certs_name" and "files (cs_disk st) tmp = None" and "writable (cs_disk st) tmp"
    and "CHR 0x00 \<notin> set (pem_write X c)" and "0 < length (pem_write X c)" and "length (pem_write X c) < 4000"
    and "get_common_name X c \<in> set names"
  defines "others \<equiv> filter (\<lambda>c'. get_common_name X c' \<noteq> get_common_name X c) certs"
  shows "\<exists>st'. SetupCertificatesServer X tmp (pem_write X c) names st = Some (get_common_name X c, st')
    \<and> files (cs_disk st') my_certs_name = Some (concat (map (pem_write X) (others @ [c])))
    \<and> m_cert_names st' = map (get_common_name X) (others @ [c])
    \<and> (\<forall>f. f \<noteq> my_certs_name \<longrightarrow> files (cs_disk st') f = files (cs_disk st) f)
    \<and> cs_logged st' = cs_logged st"
proof -
  have rd: "pem_read X (concat (map (pem_write X) cs)) = cs" for cs using assms(1) by (simp add: pem_laws_def)
  have rd1: "pem_read X (pem_write X c) = [c]" using rd [of "[c]"] by simp
  have rd2: "pem_read X (concat (map (pem_write X) cs) @ pem_write X c) = cs @ [c]" for cs using rd [of "cs @ [c]"] by simp
  have o: "erase_named (\<lambda>c'. get_common_name X c = get_common_name X c') certs = others"
    by (simp add: erase_named_filter others_def eq_commute [of "get_common_name X c"])
  have ne: "names \<noteq> []" using assms(9) by auto
  show ?thesis
    using assms(2-9) ne
    by (auto simp: SetupCertificatesServer_def server_body_def Let_def takeWhile_no_nul
        load_string_fresh rd rd1 rd2 o load_certificates_file_def save_certificates_file_def
        load_certificate_names_def ret_def)
qed

definition sample_state :: "nat list \<Rightarrow> cert_state" where
  "sample_state cs = \<lparr>cs_disk = sample_disk cs, m_cert_names = [], cs_logged = []\<rparr>"




section \<open>Merging the certificates of another proxy\<close>

lemma merge_loop_spec:
  "\<exists>new. merge_loop X own remotes removed = (own @ new, removed @ map (get_common_name X) new)
     \<and> set new \<subseteq> set remotes \<and> distinct (map (get_common_name X) new)
     \<and> set (map (get_common_name X) new) \<inter> set (map (get_common_name X) own) = {}
     \<and> set (map (get_common_name X) remotes) \<subseteq> set (map (get_common_name X) (own @ new))"
proof (induction remotes arbitrary: own removed)
  case (Cons rem remotes)
  let ?n = "get_common_name X"
  show ?case
  proof (cases "list_ex (\<lambda>cert. ?n cert = ?n rem) own")
    case True
    obtain new where "merge_loop X own remotes removed = (own @ new, removed @ map ?n new)"
      "set new \<subseteq> set remotes" "distinct (map ?n new)" "set (map ?n new) \<inter> set (map ?n own) = {}"
      "set (map ?n remotes) \<subseteq> set (map ?n (own @ new))"
      using Cons [of own removed] by blast
    moreover have "?n rem \<in> ?n ` set own" using True unfolding list_ex_iff by (metis imageI)
    ultimately show ?thesis using True by (intro exI [of _ new]) auto
  next
    case False
    obtain new where "merge_loop X (own @ [rem]) remotes (removed @ [?n rem])
        = ((own @ [rem]) @ new, (removed @ [?n rem]) @ map ?n new)"
      "set new \<subseteq> set remotes" "distinct (map ?n new)" "set (map ?n new) \<inter> set (map ?n (own @ [rem])) = {}"
      "set (map ?n remotes) \<subseteq> set (map ?n ((own @ [rem]) @ new))"
      using Cons [of "own @ [rem]" "removed @ [?n rem]"] by blast
    with False show ?thesis by (intro exI [of _ "rem # new"]) (auto simp: list_ex_iff)
  qed
qed simp

lemma merge_loop_known:
  "set (map (get_common_name X) remotes) \<subseteq> set (map (get_common_name X) own) \<Longrightarrow>
     merge_loop X own remotes removed = (own, removed)"
  by (induction remotes) (auto simp: list_ex_iff)

text \<open>
  The periodic exchange only adds. Merging the certificates of another proxy keeps the own ones
  as they are, appends for every name not yet known exactly one of the certificates offered, takes
  exactly those names from the activation list, and a second merge of the same certificates changes
  nothing.
\<close>

theorem merge_only_adds:
  "\<exists>new. merge_loop X own remotes [] = (own @ new, map (get_common_name X) new)
     \<and> set new \<subseteq> set remotes \<and> distinct (map (get_common_name X) new)
     \<and> set (map (get_common_name X) (own @ new))
         = set (map (get_common_name X) own) \<union> set (map (get_common_name X) remotes)
     \<and> set (map (get_common_name X) new) \<inter> set (map (get_common_name X) own) = {}
     \<and> merge_loop X (own @ new) remotes [] = (own @ new, [])"
proof -
  let ?n = "get_common_name X"
  obtain new where m: "merge_loop X own remotes [] = (own @ new, [] @ map ?n new)"
    "set new \<subseteq> set remotes" "distinct (map ?n new)" "set (map ?n new) \<inter> set (map ?n own) = {}"
    "set (map ?n remotes) \<subseteq> set (map ?n (own @ new))"
    using merge_loop_spec [of X own remotes "[]"] by blast
  then show ?thesis using merge_loop_known [OF m(5), of "[]"] by (intro exI [of _ new]) auto
qed

end
