(* ===== verification/Provider.thy ===== *)
theory Provider
  imports Thread RemoteHost Certificates
begin

text \<open>
  The data provider \<^verbatim>\<open>ProviderClient\<close> of \<^verbatim>\<open>src/src/providerclient.cpp\<close>: it connects to a local source of data
  and forwards what it reads to a remote proxy, directly or through a buffer that a second thread
  empties. The buffer is shared by the two threads; each of its critical sections is one step, and
  the steps interleave freely.
\<close>

section \<open>The buffer\<close>

text \<open>
  Where the writer is: waiting at the condition variable, taking the next block, sending one, or
  without a connection after an exception.
\<close>

datatype writer_state = Waiting | Taking | Sending string | Lost

text \<open>
  The last members are history: the blocks that were stored, those the overflow dropped, those the
  writer took, and what went to the socket.
\<close>

record provider =
  pv_buffer :: "string list"
  pv_buffer_count :: u64
  pv_buffer_size :: u64
  pv_count_out :: data_flow
  pv_writer :: writer_state
  pv_stored :: "string list"
  pv_dropped :: "string list"
  pv_taken :: "string list"
  pv_sent :: "string list"

text \<open>The loop that makes room: the remaining count, the blocks that stay and those that are dropped.\<close>

fun drop_loop :: "u64 \<Rightarrow> u64 \<Rightarrow> string list \<Rightarrow> u64 \<times> string list \<times> string list" where
  "drop_loop bsize count [] = (count, [], [])"
| "drop_loop bsize count (d # ds) =
     (if count > bsize then
        case drop_loop bsize (count - of_nat (length d)) ds of (c, keep, out) \<Rightarrow> (c, keep, d # out)
      else (count, d # ds, []))"

text \<open>
  The reader stores the \<open>data\<close> it has read. The array is appended as a zero-terminated text, so that a
  zero byte cuts the block, while the count grows by the number of bytes read.
\<close>

definition store_block :: "string \<Rightarrow> provider \<Rightarrow> provider" where
  "store_block data p =
     (case drop_loop (pv_buffer_size p) (pv_buffer_count p) (pv_buffer p) of (count, keep, out) \<Rightarrow>
        let count = (if keep = [] then 0 else count);
            block = takeWhile (\<lambda>c. c \<noteq> CHR 0x00) data
        in p\<lparr>pv_buffer_count := count + of_nat (length data), pv_buffer := keep @ [block],
             pv_stored := pv_stored p @ [block], pv_dropped := pv_dropped p @ out\<rparr>)"

text \<open>The writer takes the first block; the empty text stands for an empty buffer, too.\<close>

definition take_block :: "provider \<Rightarrow> string \<times> provider" where
  "take_block p =
     (case pv_buffer p of
        [] \<Rightarrow> ([], p)
      | d # ds \<Rightarrow> (d, p\<lparr>pv_buffer := ds, pv_taken := pv_taken p @ [d]\<rparr>))"

text \<open>
  The steps of the two threads: the reader stores a block; the writer is woken (by a notification,
  the timeout or for no reason), takes a block, writes it with the result of \<^verbatim>\<open>write_some\<close> at a time of
  the steady clock, or has connected again. A step that cannot happen is \<open>None\<close>.
\<close>

datatype provider_event = Store string | Wake | Take | Write "string \<Rightarrow> exn + nat" nat | Reconnect

definition max_read :: nat where "max_read = 1023"

fun provider_step :: "plugin \<Rightarrow> provider_event \<Rightarrow> provider \<Rightarrow> provider option" where
  "provider_step P (Store data) p =
     (if length data \<le> max_read then Some (if length data > 0 then store_block data p else p) else None)"
| "provider_step P Wake p = (if pv_writer p = Waiting then Some (p\<lparr>pv_writer := Taking\<rparr>) else None)"
| "provider_step P Take p =
     (if pv_writer p = Taking then
        (case take_block p of (data, p) \<Rightarrow> Some (p\<lparr>pv_writer := if data = [] then Waiting else Sending data\<rparr>))
      else None)"
| "provider_step P (Write write_some now) p =
     (case pv_writer p of
        Sending data \<Rightarrow>
          (case message_filter_local2remote P data of (pass, buffer) \<Rightarrow>
             if pass then
               (case write_some buffer of
                  Inl e \<Rightarrow> Some (p\<lparr>pv_writer := Lost\<rparr>)
                | Inr n \<Rightarrow> Some (p\<lparr>pv_writer := Taking, pv_sent := pv_sent p @ [take n buffer],
                    pv_count_out := data_flow_add now (of_nat n) (pv_count_out p)\<rparr>))
             else Some (p\<lparr>pv_writer := Taking\<rparr>))
      | _ \<Rightarrow> None)"
| "provider_step P Reconnect p =
     (if pv_writer p = Lost then Some (p\<lparr>pv_writer := Waiting, pv_count_out := data_flow_clear (pv_count_out p)\<rparr>)
      else None)"

fun provider_run :: "plugin \<Rightarrow> provider_event list \<Rightarrow> provider \<Rightarrow> provider option" where
  "provider_run P [] p = Some p"
| "provider_run P (e # es) p = (case provider_step P e p of None \<Rightarrow> None | Some p \<Rightarrow> provider_run P es p)"

definition provider_start :: "u64 \<Rightarrow> nat \<Rightarrow> provider" where
  "provider_start bsize now =
     \<lparr>pv_buffer = [], pv_buffer_count = 0, pv_buffer_size = bsize, pv_count_out = data_flow_ctor now False,
      pv_writer = Waiting, pv_stored = [], pv_dropped = [], pv_taken = [], pv_sent = []\<rparr>"

section \<open>What holds of the buffer\<close>

text \<open>What the blocks weigh: an empty one counts as one byte, since it came from at least one.\<close>

definition weight :: "string list \<Rightarrow> nat" where
  "weight ds = sum_list (map (\<lambda>d. max 1 (length d)) ds)"

lemma weight_simps [simp]:
  "weight [] = 0" "weight (d # ds) = max 1 (length d) + weight ds" "weight (xs @ ys) = weight xs + weight ys"
  by (simp_all add: weight_def)

lemma length_le_weight: "length ds \<le> weight ds"
  by (induction ds) auto

lemma bytes_le_weight: "length (concat ds) \<le> weight ds"
  by (induction ds) auto

lemma unat_length: "length d < 2 ^ 64 \<Longrightarrow> unat (of_nat (length d) :: u64) = length d"
  by (simp add: unat_of_nat)

lemma drop_loop_correct:
  "drop_loop bsize c ds = (c', keep, out) \<Longrightarrow> weight ds \<le> unat c \<Longrightarrow>
     ds = out @ keep \<and> weight keep \<le> unat c' \<and> unat c' \<le> unat c \<and> (keep \<noteq> [] \<longrightarrow> c' \<le> bsize)
     \<and> (c \<le> bsize \<longrightarrow> out = [])"
proof (induction bsize c ds arbitrary: c' keep out rule: drop_loop.induct)
  case (2 bsize c d ds)
  show ?case
  proof (cases "bsize < c")
    case True
    obtain out' where out: "out = d # out'" and r: "drop_loop bsize (c - of_nat (length d)) ds = (c', keep, out')"
      using 2(2) True by (auto split: prod.splits)
    have "length d \<le> unat c"
      using 2(3) by simp
    then have "unat (of_nat (length d) :: u64) = length d"
      using unsigned_less [of c] by (intro unat_length le_less_trans [OF \<open>length d \<le> unat c\<close>]) simp
    then have u: "unat (c - of_nat (length d)) = unat c - length d"
      using \<open>length d \<le> unat c\<close> by (simp add: unat_sub word_le_nat_alt)
    then have "weight ds \<le> unat (c - of_nat (length d))"
      using 2(3) by simp
    from 2(1) [OF True r this] show ?thesis
      using out u True by auto
  qed (use 2 in auto)
qed auto

text \<open>A list is a shuffle of what went one way and what went the other, in the order it went.\<close>

lemma shuffles_snoc1: "zs \<in> shuffles xs ys \<Longrightarrow> zs @ [z] \<in> shuffles (xs @ [z]) ys"
proof (induction zs arbitrary: xs ys)
  case (Cons a zs)
  from Cons(2) consider "xs \<noteq> []" "hd xs = a" "zs \<in> shuffles (tl xs) ys" | "ys \<noteq> []" "hd ys = a" "zs \<in> shuffles xs (tl ys)"
    by (auto simp: Cons_in_shuffles_iff)
  then show ?case
    using Cons(1) by cases (auto simp: Cons_in_shuffles_iff)
qed simp

lemma shuffles_snoc2: "zs \<in> shuffles xs ys \<Longrightarrow> zs @ [z] \<in> shuffles xs (ys @ [z])"
  using shuffles_snoc1 [of zs ys xs z] by (simp add: shuffles_commutes)

lemma shuffles_append: "zs \<in> shuffles xs ys \<Longrightarrow> zs @ out \<in> shuffles (xs @ out) ys"
  by (induction out rule: rev_induct) (auto simp flip: append_assoc intro: shuffles_snoc1)

definition buffer_inv :: "provider \<Rightarrow> bool" where
  "buffer_inv p \<longleftrightarrow>
     (\<exists>gone. pv_stored p = gone @ pv_buffer p \<and> gone \<in> shuffles (pv_dropped p) (pv_taken p))
     \<and> weight (pv_buffer p) \<le> unat (pv_buffer_count p)
     \<and> unat (pv_buffer_count p) \<le> unat (pv_buffer_size p) + max_read"

text \<open>The sizes a configuration can give leave room for one more block below the top of \<^verbatim>\<open>size_t\<close>.\<close>

definition fits :: "u64 \<Rightarrow> bool" where
  "fits bsize \<longleftrightarrow> unat bsize + max_read < 2 ^ 64"

lemma store_block_inv:
  assumes "buffer_inv p" "0 < length data" "length data \<le> max_read" "fits (pv_buffer_size p)"
  shows "buffer_inv (store_block data p)"
proof -
  obtain c keep out where d: "drop_loop (pv_buffer_size p) (pv_buffer_count p) (pv_buffer p) = (c, keep, out)"
    by (metis prod.exhaust)
  from assms(1) have "weight (pv_buffer p) \<le> unat (pv_buffer_count p)"
    by (simp add: buffer_inv_def)
  note dl = drop_loop_correct [OF d this]
  define c0 where "c0 = (if keep = [] then 0 else c)"
  have c0: "weight keep \<le> unat c0" "unat c0 \<le> unat (pv_buffer_size p)"
    using dl by (auto simp: c0_def word_le_nat_alt)
  have u: "unat (c0 + of_nat (length data)) = unat c0 + length data"
  proof -
    have l: "unat c0 + length data < 2 ^ 64"
      using c0(2) assms(3,4) by (simp add: fits_def)
    then have "unat (of_nat (length data) :: u64) = length data"
      by (intro unat_length) simp
    with l show ?thesis
      by (subst unat_add_lem [THEN iffD1]) simp_all
  qed
  have len: "max 1 (length (takeWhile (\<lambda>c. c \<noteq> CHR 0x00) data)) \<le> length data"
    using assms(2) length_takeWhile_le [of _ data] by (simp add: Suc_le_eq)
  from assms(1) obtain gone where "pv_stored p = gone @ pv_buffer p" "gone \<in> shuffles (pv_dropped p) (pv_taken p)"
    by (auto simp: buffer_inv_def)
  then have "pv_stored p = (gone @ out) @ keep" "gone @ out \<in> shuffles (pv_dropped p @ out) (pv_taken p)"
    using dl shuffles_append by auto
  then show ?thesis
    using d c0 u len assms(3) by (auto simp: store_block_def buffer_inv_def Let_def simp flip: c0_def)
qed

lemma take_block_inv: "buffer_inv p \<Longrightarrow> take_block p = (d, p') \<Longrightarrow> buffer_inv p'"
proof (cases "pv_buffer p")
  case (Cons b bs)
  assume "buffer_inv p" "take_block p = (d, p')"
  then obtain gone where "pv_stored p = (gone @ [b]) @ bs" "gone \<in> shuffles (pv_dropped p) (pv_taken p)"
    using Cons by (auto simp: buffer_inv_def)
  then show ?thesis
    using shuffles_snoc2 [of gone _ _ b] Cons \<open>take_block p = (d, p')\<close> \<open>buffer_inv p\<close> by (auto simp: take_block_def buffer_inv_def)
qed (auto simp: take_block_def)

lemma take_block_size: "take_block p = (d, p') \<Longrightarrow> pv_buffer_size p' = pv_buffer_size p"
  by (auto simp: take_block_def split: list.splits)

lemma store_block_size [simp]: "pv_buffer_size (store_block d p) = pv_buffer_size p"
  by (simp add: store_block_def Let_def split: prod.splits)

lemma buffer_inv_writer [simp]:
  "buffer_inv (p\<lparr>pv_writer := w\<rparr>) = buffer_inv p" "buffer_inv (p\<lparr>pv_count_out := c\<rparr>) = buffer_inv p"
  "buffer_inv (p\<lparr>pv_sent := b\<rparr>) = buffer_inv p"
  by (simp_all add: buffer_inv_def)

lemma provider_step_inv:
  "provider_step P e p = Some p' \<Longrightarrow> buffer_inv p \<Longrightarrow> fits (pv_buffer_size p) \<Longrightarrow>
     buffer_inv p' \<and> pv_buffer_size p' = pv_buffer_size p"
  by (cases "(P, e, p)" rule: provider_step.cases)
     (auto split: if_splits prod.splits writer_state.splits sum.splits intro: store_block_inv dest: take_block_inv take_block_size)

lemma provider_run_inv:
  "provider_run P es p = Some p' \<Longrightarrow> buffer_inv p \<Longrightarrow> fits (pv_buffer_size p) \<Longrightarrow>
     buffer_inv p' \<and> pv_buffer_size p' = pv_buffer_size p"
proof (induction es arbitrary: p)
  case (Cons e es)
  then obtain q where "provider_step P e p = Some q" "provider_run P es q = Some p'"
    by (auto split: option.splits)
  then show ?case
    using Cons provider_step_inv by metis
qed simp

lemma provider_start_inv: "buffer_inv (provider_start bsize now)"
  by (simp add: provider_start_def buffer_inv_def)

lemma provider_run_snoc:
  "provider_run P (es @ [e]) p = Option.bind (provider_run P es p) (provider_step P e)"
  by (induction es arbitrary: p) (auto split: option.splits)

text \<open>What was read, and the block on its way.\<close>

fun reads :: "provider_event list \<Rightarrow> string list" where
  "reads [] = []"
| "reads (Store d # es) = d # reads es"
| "reads (e # es) = reads es"

lemma reads_append [simp]: "reads (xs @ ys) = reads xs @ reads ys"
  by (induction xs rule: reads.induct) auto

definition in_flight :: "provider \<Rightarrow> string" where
  "in_flight p = (case pv_writer p of Sending d \<Rightarrow> d | _ \<Rightarrow> [])"

definition complete_writes :: "provider_event list \<Rightarrow> bool" where
  "complete_writes es \<longleftrightarrow> (\<forall>e \<in> set es. case e of Write w t \<Rightarrow> \<forall>b. w b = Inr (length b) | _ \<Rightarrow> True)"

text \<open>
  With complete writes and no zero byte, as long as no more was read than the buffer may hold,
  nothing is dropped and all bytes are sent, on their way or buffered.
\<close>

definition accounted :: "string \<Rightarrow> provider \<Rightarrow> bool" where
  "accounted r p \<longleftrightarrow> r = concat (pv_sent p) @ in_flight p @ concat (pv_buffer p)
     \<and> weight (pv_buffer p) \<le> unat (pv_buffer_count p) \<and> unat (pv_buffer_count p) \<le> length r \<and> pv_dropped p = []"

lemma accountedI:
  "r = concat (pv_sent p) @ in_flight p @ concat (pv_buffer p) \<Longrightarrow> weight (pv_buffer p) \<le> unat (pv_buffer_count p) \<Longrightarrow>
     unat (pv_buffer_count p) \<le> length r \<Longrightarrow> pv_dropped p = [] \<Longrightarrow> accounted r p"
  unfolding accounted_def by blast

lemma accountedD:
  assumes "accounted r p"
  shows "r = concat (pv_sent p) @ in_flight p @ concat (pv_buffer p)" "weight (pv_buffer p) \<le> unat (pv_buffer_count p)"
    "unat (pv_buffer_count p) \<le> length r" "pv_dropped p = []"
  using assms unfolding accounted_def by blast+

lemma accounted_store:
  assumes "accounted r p" "length (r @ d) \<le> unat (pv_buffer_size p)" "CHR 0x00 \<notin> set d" "fits (pv_buffer_size p)"
    "length d \<le> max_read"
  shows "accounted (r @ d) (if length d > 0 then store_block d p else p)"
proof (cases "d = []")
  case False
  obtain c keep out where dr: "drop_loop (pv_buffer_size p) (pv_buffer_count p) (pv_buffer p) = (c, keep, out)"
    by (metis prod.exhaust)
  have "unat (pv_buffer_count p) \<le> length r"
    using assms(1) unfolding accounted_def by blast
  then have "pv_buffer_count p \<le> pv_buffer_size p"
    using assms(2) by (simp add: word_le_nat_alt)
  with dr assms(1) have k: "keep = pv_buffer p" "out = []" "unat c \<le> length r" "weight keep \<le> unat c"
    using drop_loop_correct [OF dr] by (auto simp: accounted_def)
  define c0 where "c0 = (if keep = [] then 0 else c)"
  have "unat c0 + length d < 2 ^ 64"
    using k(3) assms(2,4) by (simp add: fits_def c0_def)
  then have "unat (c0 + of_nat (length d)) = unat c0 + length d"
    by (subst unat_add_lem [THEN iffD1]) (simp_all add: unat_of_nat)
  moreover have "unat c0 \<le> length r" "weight keep \<le> unat c0"
    using k by (auto simp: c0_def)
  moreover have "takeWhile (\<lambda>c. c \<noteq> CHR 0x00) d = d"
    using assms(3) by (auto simp: takeWhile_eq_all_conv)
  moreover have "max 1 (length d) = length d"
    using False by (simp add: Suc_le_eq)
  moreover have "store_block d p = p\<lparr>pv_buffer_count := c0 + of_nat (length d), pv_buffer := pv_buffer p @ [d],
      pv_stored := pv_stored p @ [d]\<rparr>"
    using dr k calculation(4) by (simp add: store_block_def Let_def c0_def)
  ultimately show ?thesis
    using False k accountedD [OF assms(1)] by (intro accountedI) (simp_all add: in_flight_def)
qed (use assms in simp)

lemma accounted_move:
  assumes "accounted r p"
    and "concat (pv_sent p') @ in_flight p' @ concat (pv_buffer p') = concat (pv_sent p) @ in_flight p @ concat (pv_buffer p)"
    and "weight (pv_buffer p') \<le> weight (pv_buffer p)" "pv_buffer_count p' = pv_buffer_count p" "pv_dropped p' = pv_dropped p"
  shows "accounted r p'"
  using accountedD [OF assms(1)] assms(2-) by (intro accountedI) simp_all

text \<open>Every other step moves bytes on without changing them.\<close>

lemma writer_step:
  assumes "provider_step standard_plugin e p = Some p'" "complete_writes [e]" "reads [e] = []"
  shows "concat (pv_sent p') @ in_flight p' @ concat (pv_buffer p') = concat (pv_sent p) @ in_flight p @ concat (pv_buffer p)
    \<and> weight (pv_buffer p') \<le> weight (pv_buffer p) \<and> pv_buffer_count p' = pv_buffer_count p
    \<and> pv_dropped p' = pv_dropped p \<and> pv_buffer_size p' = pv_buffer_size p"
proof (cases e)
  case Take
  then show ?thesis
    using assms(1) by (auto simp: in_flight_def take_block_def split: if_splits list.splits)
next
  case (Write w t)
  then obtain d where "pv_writer p = Sending d" "w d = Inr (length d)"
    using assms by (auto simp: complete_writes_def split: writer_state.splits)
  then show ?thesis
    using Write assms(1) by (auto simp: in_flight_def standard_plugin_def)
qed (use assms in \<open>auto simp: in_flight_def split: if_splits\<close>)

lemma accounted_step:
  assumes "accounted r p" "provider_step standard_plugin e p = Some p'" "complete_writes [e]"
    and "length (r @ concat (reads [e])) \<le> unat (pv_buffer_size p)" "CHR 0x00 \<notin> set (concat (reads [e]))"
    and "fits (pv_buffer_size p)"
  shows "accounted (r @ concat (reads [e])) p' \<and> pv_buffer_size p' = pv_buffer_size p"
proof (cases "reads [e] = []")
  case True
  then show ?thesis
    using writer_step [OF assms(2,3)] accounted_move [OF assms(1)] by simp
next
  case False
  then obtain d where e: "e = Store d"
    by (cases e) auto
  then show ?thesis
    using accounted_store [OF assms(1), of d] assms(2,4-) by (auto split: if_splits)
qed

lemma accounted_run:
  assumes "provider_run standard_plugin es (provider_start bsize now) = Some p" "complete_writes es"
    and "length (concat (reads es)) \<le> unat bsize" "CHR 0x00 \<notin> set (concat (reads es))" "fits bsize"
  shows "accounted (concat (reads es)) p \<and> pv_buffer_size p = bsize"
  using assms
proof (induction es arbitrary: p rule: rev_induct)
  case Nil
  then show ?case
    by (auto simp: provider_start_def accounted_def in_flight_def)
next
  case (snoc e es)
  then obtain q where q: "provider_run standard_plugin es (provider_start bsize now) = Some q"
      "provider_step standard_plugin e q = Some p"
    by (auto simp: provider_run_snoc bind_eq_Some_conv)
  with snoc have "accounted (concat (reads es)) q \<and> pv_buffer_size q = bsize"
    by (auto simp: complete_writes_def)
  then show ?case
    using accounted_step [of "concat (reads es)" q e p] q(2) snoc.prems by (auto simp: complete_writes_def)
qed

section \<open>Properties of the buffer\<close>

text \<open>
  C15: the buffer of a provider is bounded and its blocks keep their order, however the two threads
  interleave. For every size a configuration can give, the blocks held are never more, and never
  hold more bytes, than the size and one read; the count does not wrap around; and the blocks
  that were stored are those that are gone followed by those in the buffer, where each block that is
  gone was either dropped for room or taken by the writer, both in the order they were stored.
\<close>

theorem provider_buffer_bounded:
  assumes "provider_run P es (provider_start bsize now) = Some p" and "unat bsize + max_read < 2 ^ 64"
  shows "length (pv_buffer p) \<le> unat bsize + max_read \<and> length (concat (pv_buffer p)) \<le> unat bsize + max_read
    \<and> weight (pv_buffer p) \<le> unat (pv_buffer_count p) \<and> unat (pv_buffer_count p) \<le> unat bsize + max_read
    \<and> (\<exists>gone. pv_stored p = gone @ pv_buffer p \<and> gone \<in> shuffles (pv_dropped p) (pv_taken p))"
proof -
  have "buffer_inv p \<and> pv_buffer_size p = bsize"
    using provider_run_inv [OF assms(1) provider_start_inv] assms(2) by (simp add: fits_def provider_start_def)
  then show ?thesis
    using length_le_weight [of "pv_buffer p"] bytes_le_weight [of "pv_buffer p"] by (auto simp: buffer_inv_def)
qed


text \<open>
  A writer that keeps up does not lower the count: block after block passes through a buffer that
  holds one, and the count grows by each.
\<close>

definition full_block :: string where "full_block = replicate 1000 CHR ''x''"

definition passing :: "nat \<Rightarrow> provider \<Rightarrow> bool" where
  "passing k p \<longleftrightarrow> pv_buffer p = [full_block] \<and> pv_buffer_count p = of_nat (1000 * (k + 1)) \<and> pv_buffer_size p = 1000000
     \<and> pv_writer p = Taking \<and> pv_dropped p = []"

definition pass_round :: "provider_event list" where
  "pass_round = [Store full_block, Take, Write (\<lambda>b. Inr (length b)) 0]"

lemma full_block_simps [simp]: "length full_block = 1000" "full_block \<noteq> []"
  "takeWhile (\<lambda>c. c \<noteq> CHR 0x00) full_block = full_block"
  by (auto simp: full_block_def takeWhile_eq_all_conv)

lemma count_small:
  assumes "k < 1000"
  shows "\<not> (of_nat (1000 * (k + 1)) :: u64) > 1000000"
proof -
  have "unat (of_nat (1000 * (k + 1)) :: u64) = 1000 * (k + 1)"
    using assms by (subst unat_of_nat) simp
  then show ?thesis
    using assms by (simp only: word_less_nat_alt) simp
qed

lemma pass_round_step:
  assumes "passing k p" "k < 1000"
  shows "\<exists>q. provider_run standard_plugin pass_round p = Some q \<and> passing (k + 1) q"
  using assms count_small [OF assms(2)]
  by (simp add: passing_def pass_round_def store_block_def take_block_def max_read_def standard_plugin_def Let_def
      algebra_simps)

lemma provider_run_append:
  "provider_run P (xs @ ys) p = Option.bind (provider_run P xs p) (provider_run P ys)"
  by (induction xs arbitrary: p) (auto split: option.splits)

lemma passing_reached:
  "k \<le> 1000 \<Longrightarrow> \<exists>p. provider_run standard_plugin (Store full_block # Wake # concat (replicate k pass_round)) (provider_start 1000000 0)
     = Some p \<and> passing k p"
proof (induction k)
  case 0
  show ?case
    by (simp add: passing_def store_block_def provider_start_def max_read_def Let_def)
next
  case (Suc k)
  then obtain p where p: "provider_run standard_plugin (Store full_block # Wake # concat (replicate k pass_round)) (provider_start 1000000 0) = Some p"
      "passing k p"
    by auto
  have "concat (replicate (Suc k) pass_round) = concat (replicate k pass_round) @ pass_round"
    using concat_append [of "replicate k pass_round" "[pass_round]"] by (simp only: replicate_append_same replicate_Suc) simp
  then have "Store full_block # Wake # concat (replicate (Suc k) pass_round)
      = (Store full_block # Wake # concat (replicate k pass_round)) @ pass_round"
    by simp
  then show ?case
    using p pass_round_step [OF p(2)] Suc(2) by (simp only: provider_run_append) simp
qed

text \<open>
  The buffer drops data long before it is full. The writer does not lower the count when it takes
  a block, so with the default size of a million bytes a provider whose writer keeps up reaches a
  state in which the buffer holds a single block of 1000 bytes and nothing was ever dropped, and the
  next block that is read discards it.
\<close>

theorem provider_drops_early:
  "\<exists>es p q. provider_run standard_plugin es (provider_start 1000000 0) = Some p \<and> complete_writes es
     \<and> length (concat (pv_buffer p)) = 1000 \<and> pv_dropped p = []
     \<and> provider_step standard_plugin (Store full_block) p = Some q \<and> pv_dropped q = pv_buffer p"
proof -
  let ?es = "Store full_block # Wake # concat (replicate 1000 pass_round)"
  obtain p where p: "provider_run standard_plugin ?es (provider_start 1000000 0) = Some p" "passing 1000 p"
    using passing_reached [of 1000] by blast
  have "complete_writes ?es"
    by (auto simp: complete_writes_def pass_round_def)
  moreover have "length (concat (pv_buffer p)) = 1000 \<and> pv_dropped p = []
      \<and> provider_step standard_plugin (Store full_block) p = Some (store_block full_block p)
      \<and> pv_dropped (store_block full_block p) = pv_buffer p"
    using p(2) by (simp add: passing_def store_block_def max_read_def Let_def)
  ultimately show ?thesis
    using p(1) by blast
qed

section \<open>A concrete run\<close>

definition sample_events :: "provider_event list" where
  "sample_events = [Store ''ab'', Wake, Take, Store ''c'', Write (\<lambda>b. Inr (length b)) 0]"

lemma sample_run:
  "\<exists>p. provider_run standard_plugin sample_events (provider_start 1000000 0) = Some p \<and> pv_sent p = [''ab''] \<and> pv_buffer p = [''c'']"
  by (simp add: sample_events_def provider_start_def store_block_def take_block_def max_read_def standard_plugin_def Let_def)

theorem provider_buffer_bounded_witness:
  "\<exists>p. provider_run standard_plugin sample_events (provider_start 1000000 0) = Some p \<and> pv_buffer p = [''c'']
     \<and> length (concat (pv_buffer p)) \<le> 1001023"
proof -
  obtain p where p: "provider_run standard_plugin sample_events (provider_start 1000000 0) = Some p" "pv_buffer p = [''c'']"
    using sample_run by blast
  then show ?thesis
    using provider_buffer_bounded [OF p(1)] by (auto simp: max_read_def)
qed


end
