(* ===== verification/LocalHost.thy ===== *)
theory LocalHost
  imports DataFlow StrUtil Errors
begin

text \<open>
  The client side of a proxy connection: \<^verbatim>\<open>LocalHost\<close> and \<^verbatim>\<open>LocalHostSocket\<close> of \<^verbatim>\<open>src/src/localclient.cpp\<close>.
  Local programs connect to a port; everything that comes from the remote proxy is written to all of
  them, everything they send goes to the remote proxy. All handlers run in the one thread that runs
  the \<^verbatim>\<open>io_service\<close>, so a session is a sequence of completions of the asynchronous operations that
  are pending. The sockets and the clocks are parameters: which operation completes next and with
  what result is open, within what \<open>possible\<close> says of sockets.
\<close>

section \<open>Sockets, operations and state\<close>

text \<open>A \<^verbatim>\<open>tcp::socket\<close> object is named by its address; a handle of -1 means closed.\<close>

type_synonym sock = nat

record host_socket =
  hs_id :: int
  hs_socket :: sock

text \<open>
  A handler is bound to a \<^verbatim>\<open>LocalHostSocket\<close> by a raw pointer (after an accept) or by a shared
  pointer (after a write to the remote). The number of a write is its size; the bytes are those of
  the buffer when the operation is performed.
\<close>

datatype owner = Raw | Shared

datatype async_op =
    LocalRead owner host_socket | RemoteWrite int nat | RemoteRead | LocalWrite sock nat
  | Accept sock | DeadlineWait | Handshake

datatype error_code = operation_aborted | other_error string

datatype result = Completed | Received string | Accepted int | Failed error_code

abbreviation max_length :: nat where "max_length \<equiv> 1024"

text \<open>
  The members of \<^verbatim>\<open>LocalHost\<close> and of its base class that a session uses. A deadline is the null
  pointer, or a timer that expires at a time or never. The last members are the state of the
  libraries below: the handle of every socket, the next free address, the pending operations.
\<close>

record local_host =
  m_local_port :: int
  m_max_connections :: int
  m_read_timeout :: int
  m_auto_reconnect :: bool
  m_local_sockets :: "host_socket list"
  m_local_connected :: bool
  m_write_count :: int
  m_local_data :: string
  m_remote_data :: string
  m_count_in :: data_flow
  m_count_out :: data_flow
  m_last_incoming_msg :: string
  m_last_incoming_stamp :: int
  m_last_outgoing_msg :: string
  m_last_outgoing_stamp :: int
  m_pdeadline :: "int option option"
  mp_remote_socket :: bool
  mp_io_service :: bool
  mp_acceptor :: bool
  id_gen :: int
  handle :: "sock \<Rightarrow> int"
  next_sock :: sock
  remote_open :: bool
  io_stopped :: bool
  pending :: "async_op list"

text \<open>What surrounds a handler: the steady and the system clock and whether the data logs are open.\<close>

record surroundings =
  steady :: nat
  sys_now :: int
  out_log :: bool
  in_log :: bool

text \<open>A handler ends normally or with an exception, in a new state; undefined behaviour is \<open>None\<close>.\<close>

type_synonym 's handled = "(exn option \<times> 's) option"

definition finish :: "'s \<Rightarrow> 's handled" where
  "finish s = Some (None, s)"

definition throw :: "exn \<Rightarrow> 's \<Rightarrow> 's handled" where
  "throw e s = Some (Some e, s)"

definition timed_out :: exn where
  "timed_out = asio_error ''timed out''"

definition exn_of :: "error_code \<Rightarrow> exn" where
  "exn_of ec = asio_error (case ec of operation_aborted \<Rightarrow> ''operation aborted'' | other_error m \<Rightarrow> m)"

definition start_op :: "async_op \<Rightarrow> 'a local_host_scheme \<Rightarrow> 'a local_host_scheme" where
  "start_op op s = s\<lparr>pending := pending s @ [op]\<rparr>"

definition expires_from_now :: "surroundings \<Rightarrow> int \<Rightarrow> 'a local_host_scheme \<Rightarrow> 'a local_host_scheme" where
  "expires_from_now env t s = s\<lparr>m_pdeadline := Some (Some (sys_now env + t))\<rparr>"

text \<open>The text a character array holds up to its zero; without one the array is left.\<close>

definition c_str :: "string \<Rightarrow> string option" where
  "c_str buf = (if CHR 0x00 \<in> set buf then Some (takeWhile (\<lambda>c. c \<noteq> CHR 0x00) buf) else None)"

section \<open>The handlers\<close>

definition local_user_count :: "'a local_host_scheme \<Rightarrow> nat" where
  "local_user_count s =
     length (filter (\<lambda>h. handle s (hs_socket h) \<noteq> -1 \<and> m_local_connected s) (m_local_sockets s))"

definition is_local_connected :: "'a local_host_scheme \<Rightarrow> bool" where
  "is_local_connected s \<longleftrightarrow> local_user_count s > 0"

definition close_socket :: "sock \<Rightarrow> 'a local_host_scheme \<Rightarrow> 'a local_host_scheme" where
  "close_socket sk s = s\<lparr>handle := (handle s)(sk := -1)\<rparr>"

text \<open>The loop of \<^verbatim>\<open>cleanup\<close>: close and erase the first socket until none is left.\<close>

fun cleanup_loop :: "host_socket list \<Rightarrow> (sock \<Rightarrow> int) \<Rightarrow> (sock \<Rightarrow> int)" where
  "cleanup_loop [] hn = hn"
| "cleanup_loop (h # hs) hn = cleanup_loop hs (hn(hs_socket h := -1))"

definition local_cleanup :: "'a local_host_scheme \<Rightarrow> 'a local_host_scheme" where
  "local_cleanup s =
     s\<lparr>handle := cleanup_loop (m_local_sockets s) (handle s), m_local_sockets := [], mp_acceptor := False\<rparr>"

text \<open>
  \<^verbatim>\<open>interrupt\<close>: the acceptor is cancelled without a check for the null pointer and shut down; the
  result is the handles of the local sockets that are shut down and whether the remote one is.
\<close>

definition local_interrupt :: "'a local_host_scheme \<Rightarrow> (int list \<times> bool) option" where
  "local_interrupt s =
     (if \<not> mp_acceptor s then None
      else Some (map (\<lambda>h. handle s (hs_socket h)) (m_local_sockets s), mp_remote_socket s))"

text \<open>Two sockets are compared by their native handles.\<close>

fun remove_loop :: "(sock \<Rightarrow> int) \<Rightarrow> sock \<Rightarrow> host_socket list \<Rightarrow> bool \<times> host_socket list" where
  "remove_loop hn sk [] = (False, [])"
| "remove_loop hn sk (h # hs) =
     (if hn (hs_socket h) = hn sk then (True, hs)
      else case remove_loop hn sk hs of (hit, hs') \<Rightarrow> (hit, h # hs'))"

definition remove_socket :: "sock \<Rightarrow> 'a local_host_scheme \<Rightarrow> 'a local_host_scheme" where
  "remove_socket sk s =
     (case remove_loop (handle s) sk (m_local_sockets s) of
        (hit, hs) \<Rightarrow> if hit then (close_socket sk s)\<lparr>m_local_sockets := hs\<rparr> else s)"

definition handle_local_read ::
    "surroundings \<Rightarrow> host_socket \<Rightarrow> error_code option \<Rightarrow> nat \<Rightarrow> 'a local_host_scheme
       \<Rightarrow> 'a local_host_scheme handled" where
  "handle_local_read env hs error bytes_transferred s =
     (case error of
        None \<Rightarrow>
          (let s = s\<lparr>m_count_out := data_flow_add (steady env) (of_nat bytes_transferred) (m_count_out s)\<rparr> in
           case c_str (m_local_data s) of
             None \<Rightarrow> None
           | Some msg \<Rightarrow>
               (let s = s\<lparr>m_last_outgoing_msg := msg, m_last_outgoing_stamp := sys_now env\<rparr>;
                    s = (if out_log env
                         then s\<lparr>m_local_data := (m_local_data s)[bytes_transferred := CHR 0x00]\<rparr> else s)
                in if mp_remote_socket s
                   then finish (start_op (RemoteWrite (hs_id hs) bytes_transferred) s)
                   else throw (system_error socket_invalid []) s))
      | Some _ \<Rightarrow>
          (let s = remove_socket (hs_socket hs) s in
           if m_local_sockets s = []
           then throw (runtime_error (''Local connection closed for '' @ show_int (m_local_port s))) s
           else finish s))"

definition handle_local_write ::
    "surroundings \<Rightarrow> sock \<Rightarrow> error_code option \<Rightarrow> 'a local_host_scheme \<Rightarrow> 'a local_host_scheme handled" where
  "handle_local_write env sk error s =
     (let s = s\<lparr>m_write_count := m_write_count s - 1\<rparr> in
      if m_pdeadline s = None then throw timed_out s
      else
        let s = (if error = None then s else remove_socket sk s) in
        if m_write_count s = 0 \<and> length (m_local_sockets s) > 0 then
          let s = expires_from_now env (m_read_timeout s) s in
          if mp_remote_socket s then finish (start_op RemoteRead s)
          else throw (system_error socket_invalid []) s
        else if length (m_local_sockets s) = 0 then throw (runtime_error ''handle_local_write'') s
        else finish s)"

definition handle_remote_read ::
    "surroundings \<Rightarrow> error_code option \<Rightarrow> nat \<Rightarrow> 'a local_host_scheme \<Rightarrow> 'a local_host_scheme handled" where
  "handle_remote_read env error bytes_transferred s =
     (if m_pdeadline s = None then throw timed_out s
      else case error of
        None \<Rightarrow>
          (let s = s\<lparr>m_count_in := data_flow_add (steady env) (of_nat bytes_transferred) (m_count_in s),
                     m_remote_data := (m_remote_data s)[bytes_transferred := CHR 0x00]\<rparr> in
           case c_str (m_remote_data s) of
             None \<Rightarrow> None
           | Some msg \<Rightarrow>
               (let s = s\<lparr>m_last_incoming_msg := msg, m_last_incoming_stamp := sys_now env,
                          m_write_count := int (length (m_local_sockets s))\<rparr>;
                    s = expires_from_now env (m_read_timeout s) s
                in finish (foldl (\<lambda>s h. start_op (LocalWrite (hs_socket h) bytes_transferred) s) s
                     (m_local_sockets s))))
      | Some e \<Rightarrow> throw (exn_of e) s)"

definition handle_remote_write ::
    "int \<Rightarrow> error_code option \<Rightarrow> 'a local_host_scheme \<Rightarrow> 'a local_host_scheme handled" where
  "handle_remote_write ident error s =
     (case error of
        None \<Rightarrow>
          finish (case find (\<lambda>h. hs_id h = ident) (m_local_sockets s) of
                    None \<Rightarrow> s | Some h \<Rightarrow> start_op (LocalRead Shared h) s)
      | Some e \<Rightarrow> throw (exn_of e) s)"

definition handle_accept ::
    "sock \<Rightarrow> error_code option \<Rightarrow> 'a local_host_scheme \<Rightarrow> 'a local_host_scheme handled" where
  "handle_accept sk error s =
     (let count = int (length (m_local_sockets s));
          s = (if error = None then
                 if count < m_max_connections s then
                   let p = \<lparr>hs_id = id_gen s + 1, hs_socket = sk\<rparr>
                   in start_op (LocalRead Raw p)
                        (s\<lparr>id_gen := id_gen s + 1, m_local_sockets := m_local_sockets s @ [p]\<rparr>)
                 else close_socket sk s
               else s)
      in if mp_io_service s \<and> mp_acceptor s \<and> length (m_local_sockets s) > 0
         then finish (start_op (Accept (next_sock s)) (s\<lparr>next_sock := next_sock s + 1\<rparr>))
         else finish s)"

definition check_deadline ::
    "surroundings \<Rightarrow> error_code option \<Rightarrow> 'a local_host_scheme \<Rightarrow> 'a local_host_scheme handled" where
  "check_deadline env error s =
     (case m_pdeadline s of
        None \<Rightarrow> throw timed_out s
      | Some expiry \<Rightarrow>
          (if error = Some operation_aborted then finish (start_op DeadlineWait s)
           else if (case expiry of None \<Rightarrow> False | Some t \<Rightarrow> t \<le> sys_now env) then
             (if \<not> mp_remote_socket s then throw (system_error socket_invalid []) s
              else
                let s = s\<lparr>remote_open := False, m_pdeadline := Some None\<rparr> in
                if \<not> m_auto_reconnect s then
                  let s = (if mp_io_service s then s\<lparr>io_stopped := True\<rparr> else s) in
                  (case local_interrupt s of None \<Rightarrow> None | Some _ \<Rightarrow> throw timed_out s)
                else finish s)
           else finish s))"

definition handle_handshake ::
    "surroundings \<Rightarrow> error_code option \<Rightarrow> 'a local_host_scheme \<Rightarrow> 'a local_host_scheme handled" where
  "handle_handshake env error s =
     (if m_pdeadline s = None then throw timed_out s
      else case error of
        None \<Rightarrow>
          (let s = expires_from_now env (m_read_timeout s) s in
           if mp_remote_socket s then finish (start_op RemoteRead s)
           else throw (system_error socket_invalid []) s)
      | Some e \<Rightarrow> throw (exn_of e) s)"

section \<open>A session\<close>

text \<open>
  \<^verbatim>\<open>go_out\<close> up to the run of the \<^verbatim>\<open>io_service\<close>: the deadline timer and the remote socket live during
  the call; \<open>connected\<close> is the exception of the connection, if there is one.
\<close>

definition go_out_begin ::
    "surroundings \<Rightarrow> exn option \<Rightarrow> 'a local_host_scheme \<Rightarrow> 'a local_host_scheme handled" where
  "go_out_begin env connected s =
     (let s = s\<lparr>io_stopped := False, m_pdeadline := Some None, mp_remote_socket := True\<rparr> in
      case connected of
        Some e \<Rightarrow> throw e s
      | None \<Rightarrow>
          finish (start_op Handshake (expires_from_now env 20 (start_op DeadlineWait (s\<lparr>remote_open := True\<rparr>)))))"

text \<open>
  The end of \<^verbatim>\<open>go_out\<close>: both pointers are null again, and an exception is passed on only when no local
  socket is left.
\<close>

definition go_out_end :: "exn option \<Rightarrow> 'a local_host_scheme \<Rightarrow> exn option \<times> 'a local_host_scheme" where
  "go_out_end ended s =
     (let s = s\<lparr>m_pdeadline := None, mp_remote_socket := False\<rparr> in
      if ended \<noteq> None \<and> m_local_sockets s = [] then (ended, s) else (None, s))"

text \<open>
  One round of \<^verbatim>\<open>threadproc\<close> up to \<^verbatim>\<open>go_out\<close>: the acceptor has accepted a first connection with the
  handle \<open>h\<close>; its read and the next accept are started.
\<close>

definition threadproc_accepted :: "int \<Rightarrow> 'a local_host_scheme \<Rightarrow> 'a local_host_scheme" where
  "threadproc_accepted h s =
     (let sk = next_sock s; p = \<lparr>hs_id = id_gen s + 1, hs_socket = sk\<rparr>;
          s = s\<lparr>mp_io_service := True, mp_acceptor := True, id_gen := id_gen s + 1,
                handle := (handle s)(sk := h), m_local_sockets := m_local_sockets s @ [p],
                m_local_connected := True\<rparr>
      in start_op (Accept (sk + 1)) (start_op (LocalRead Raw p) (s\<lparr>next_sock := sk + 2\<rparr>)))"

text \<open>
  The handler of a completed operation. A raw pointer to a \<^verbatim>\<open>LocalHostSocket\<close> is dangling once the
  socket was erased from the vector.
\<close>

definition error_of :: "result \<Rightarrow> error_code option" where
  "error_of r = (case r of Failed e \<Rightarrow> Some e | _ \<Rightarrow> None)"

definition bytes_of :: "result \<Rightarrow> nat" where
  "bytes_of r = (case r of Received d \<Rightarrow> length d | _ \<Rightarrow> 0)"

definition dispatch ::
    "surroundings \<Rightarrow> async_op \<Rightarrow> result \<Rightarrow> 'a local_host_scheme \<Rightarrow> 'a local_host_scheme handled" where
  "dispatch env op r s =
     (case op of
        LocalRead ow h \<Rightarrow>
          if ow = Raw \<and> h \<notin> set (m_local_sockets s) then None
          else handle_local_read env h (error_of r) (bytes_of r) s
      | RemoteWrite ident n \<Rightarrow> handle_remote_write ident (error_of r) s
      | RemoteRead \<Rightarrow> handle_remote_read env (error_of r) (bytes_of r) s
      | LocalWrite sk n \<Rightarrow> handle_local_write env sk (error_of r) s
      | Accept sk \<Rightarrow> handle_accept sk (error_of r) s
      | DeadlineWait \<Rightarrow> check_deadline env (error_of r) s
      | Handshake \<Rightarrow> handle_handshake env (error_of r) s)"

text \<open>
  The session with the history of the bytes: what came from and went to each side, and what had
  come from the remote before a local socket was accepted.
\<close>

record session = local_host +
  from_remote :: string
  to_local :: "sock \<Rightarrow> string"
  missed :: "sock \<Rightarrow> string"
  from_local :: string
  to_remote :: string

definition arrive :: "async_op \<Rightarrow> result \<Rightarrow> session \<Rightarrow> session" where
  "arrive op r s =
     (case (op, r) of
        (LocalRead ow h, Received d) \<Rightarrow>
          s\<lparr>m_local_data := d @ drop (length d) (m_local_data s), from_local := from_local s @ d\<rparr>
      | (RemoteRead, Received d) \<Rightarrow>
          s\<lparr>m_remote_data := d @ drop (length d) (m_remote_data s), from_remote := from_remote s @ d\<rparr>
      | (RemoteWrite ident n, Completed) \<Rightarrow> s\<lparr>to_remote := to_remote s @ take n (m_local_data s)\<rparr>
      | (LocalWrite sk n, Completed) \<Rightarrow>
          s\<lparr>to_local := (to_local s)(sk := to_local s sk @ take n (m_remote_data s))\<rparr>
      | (Accept sk, Accepted h) \<Rightarrow>
          s\<lparr>handle := (handle s)(sk := h), missed := (missed s)(sk := from_remote s),
            to_local := (to_local s)(sk := [])\<rparr>
      | _ \<Rightarrow> s)"

text \<open>
  What can come of an operation: it may fail; a read gives one byte up to the size of the buffer,
  from an open socket; an accepted connection gets a handle no other open socket has.
\<close>

fun possible :: "async_op \<Rightarrow> result \<Rightarrow> session \<Rightarrow> bool" where
  "possible op (Failed e) s = True"
| "possible (LocalRead ow h) (Received d) s =
     (0 < length d \<and> length d \<le> max_length \<and> handle s (hs_socket h) \<noteq> -1)"
| "possible RemoteRead (Received d) s = (0 < length d \<and> length d \<le> max_length)"
| "possible (RemoteWrite ident n) Completed s = True"
| "possible (LocalWrite sk n) Completed s = True"
| "possible (Accept sk) (Accepted h) s =
     (0 \<le> h \<and> h \<notin> set (map (\<lambda>x. handle s (hs_socket x)) (m_local_sockets s)))"
| "possible DeadlineWait Completed s = True"
| "possible Handshake Completed s = True"
| "possible op r s = False"

definition complete ::
    "surroundings \<Rightarrow> async_op \<Rightarrow> result \<Rightarrow> session \<Rightarrow> session handled" where
  "complete env op r s = dispatch env op r (arrive op r (s\<lparr>pending := remove1 op (pending s)\<rparr>))"

inductive session_step :: "session \<Rightarrow> session \<Rightarrow> bool" where
  step: "op \<in> set (pending s) \<Longrightarrow> possible op r s \<Longrightarrow> complete env op r s = Some (None, s')
     \<Longrightarrow> session_step s s'"

section \<open>What holds throughout a session\<close>

inductive_cases session_stepE: "session_step s s'"

lemmas record_ops = start_op_def expires_from_now_def close_socket_def

lemma handled_simps [simp]: "finish s = Some (x, t) \<longleftrightarrow> x = None \<and> t = s" "throw e s \<noteq> Some (None, t)"
  "Some (None, t) \<noteq> throw e s" "throw e s \<noteq> None" "finish s \<noteq> None"
  by (auto simp: finish_def throw_def)

text \<open>The sockets with a pending write.\<close>

fun lwrites :: "async_op list \<Rightarrow> sock list" where
  "lwrites [] = []"
| "lwrites (LocalWrite k n # ops) = k # lwrites ops"
| "lwrites (op # ops) = lwrites ops"

definition is_head :: "async_op \<Rightarrow> bool" where
  "is_head op \<longleftrightarrow> op = RemoteRead \<or> op = Handshake"

lemma is_head_simps [simp]: "is_head RemoteRead" "is_head Handshake" "\<not> is_head (LocalWrite k n)"
  "\<not> is_head (LocalRead ow h)" "\<not> is_head (RemoteWrite i n)" "\<not> is_head (Accept sk)" "\<not> is_head DeadlineWait"
  by (simp_all add: is_head_def)

text \<open>The local socket an operation works on.\<close>

fun uses :: "async_op \<Rightarrow> sock set" where
  "uses (LocalWrite k n) = {k}"
| "uses (LocalRead ow h) = {hs_socket h}"
| "uses op = {}"

fun is_accept :: "async_op \<Rightarrow> bool" where
  "is_accept (Accept sk) = True"
| "is_accept op = False"

lemma lwrites_append [simp]: "lwrites (xs @ ys) = lwrites xs @ lwrites ys"
  by (induction xs rule: lwrites.induct) auto

lemma in_lwrites: "k \<in> set (lwrites ops) \<longleftrightarrow> (\<exists>n. LocalWrite k n \<in> set ops)"
  by (induction ops rule: lwrites.induct) auto

lemma lwrites_single: "lwrites [op] = (case op of LocalWrite k n \<Rightarrow> [k] | _ \<Rightarrow> [])"
  by (cases op) auto

lemma lwrites_remove_other: "lwrites [op] = [] \<Longrightarrow> lwrites (remove1 op ops) = lwrites ops"
  by (induction ops rule: lwrites.induct) auto

lemma lwrites_remove:
  "distinct (lwrites ops) \<Longrightarrow> LocalWrite k n \<in> set ops \<Longrightarrow>
   lwrites (remove1 (LocalWrite k n) ops) = remove1 k (lwrites ops)"
proof (induction ops rule: lwrites.induct)
  case (2 k' n' ops)
  then show ?case using in_lwrites [of k ops] by auto
qed auto

lemma filter_remove1_length:
  "op \<in> set ops \<Longrightarrow> length (filter P ops) = length (filter P (remove1 op ops)) + (if P op then 1 else 0)"
  by (induction ops) auto

definition listed :: "'a local_host_scheme \<Rightarrow> bool" where
  "listed s \<longleftrightarrow> m_local_sockets s \<noteq> [] \<and> distinct (map hs_socket (m_local_sockets s))
     \<and> distinct (map (\<lambda>h. handle s (hs_socket h)) (m_local_sockets s))
     \<and> (\<forall>h \<in> set (m_local_sockets s). 0 \<le> handle s (hs_socket h) \<and> hs_socket h < next_sock s)
     \<and> int (length (m_local_sockets s)) \<le> max 1 (m_max_connections s)"

definition paced :: "'a local_host_scheme \<Rightarrow> bool" where
  "paced s \<longleftrightarrow> m_pdeadline s \<noteq> None \<and> mp_remote_socket s
     \<and> (lwrites (pending s) \<noteq> [] \<longrightarrow> m_write_count s = int (length (lwrites (pending s)))) \<and> distinct (lwrites (pending s))
     \<and> length (filter is_head (pending s)) + (if lwrites (pending s) = [] then 0 else 1) = 1"

definition tied :: "'a local_host_scheme \<Rightarrow> bool" where
  "tied s \<longleftrightarrow> (\<forall>op \<in> set (pending s). \<forall>k \<in> uses op. k < next_sock s
        \<and> (k \<in> hs_socket ` set (m_local_sockets s) \<or> handle s k = -1))
     \<and> length (filter is_accept (pending s)) \<le> 1
     \<and> (\<forall>sk. Accept sk \<in> set (pending s) \<longrightarrow> sk < next_sock s \<and> sk \<notin> hs_socket ` set (m_local_sockets s)
        \<and> (\<forall>op \<in> set (pending s). sk \<notin> uses op))"

definition streams :: "session \<Rightarrow> bool" where
  "streams s \<longleftrightarrow> length (m_remote_data s) = 1025
     \<and> (\<forall>k n. LocalWrite k n \<in> set (pending s) \<longrightarrow> n \<le> max_length)
     \<and> (\<forall>h \<in> set (m_local_sockets s).
          (\<forall>n. LocalWrite (hs_socket h) n \<in> set (pending s) \<longrightarrow>
             from_remote s = missed s (hs_socket h) @ to_local s (hs_socket h) @ take n (m_remote_data s))
        \<and> (hs_socket h \<notin> set (lwrites (pending s)) \<longrightarrow>
             from_remote s = missed s (hs_socket h) @ to_local s (hs_socket h)))"

definition session_inv :: "session \<Rightarrow> bool" where
  "session_inv s \<longleftrightarrow> listed s \<and> paced s \<and> tied s \<and> streams s"

lemmas inv_defs = listed_def paced_def tied_def streams_def

subsection \<open>Removing a socket\<close>

lemma remove_loop_miss: "hn sk \<notin> (\<lambda>h. hn (hs_socket h)) ` set hs \<Longrightarrow> remove_loop hn sk hs = (False, hs)"
  by (induction hs) auto

lemma remove_loop_hit:
  "distinct (map (\<lambda>h. hn (hs_socket h)) hs) \<Longrightarrow> sk \<in> hs_socket ` set hs \<Longrightarrow> distinct (map hs_socket hs) \<Longrightarrow>
   remove_loop hn sk hs = (True, filter (\<lambda>h. hs_socket h \<noteq> sk) hs)"
proof (induction hs)
  case (Cons h hs)
  show ?case
  proof (cases "hs_socket h = sk")
    case True
    then have "filter (\<lambda>h. hs_socket h \<noteq> sk) hs = hs" using Cons.prems(3) by (metis (mono_tags, lifting) filter_True distinct.simps(2) image_eqI list.simps(9) set_map)
    with True show ?thesis by simp
  next
    case False
    with Cons.prems have "sk \<in> hs_socket ` set hs" by auto
    then have "hn sk \<in> (\<lambda>h. hn (hs_socket h)) ` set hs" by auto
    with Cons.prems have "hn (hs_socket h) \<noteq> hn sk" by auto
    with False Cons show ?thesis by auto
  qed
qed simp

lemma remove_socket_eq:
  assumes "listed s" "sk \<in> hs_socket ` set (m_local_sockets s) \<or> handle s sk = -1"
  shows "remove_socket sk s = (if sk \<in> hs_socket ` set (m_local_sockets s)
    then s\<lparr>handle := (handle s)(sk := -1), m_local_sockets := filter (\<lambda>h. hs_socket h \<noteq> sk) (m_local_sockets s)\<rparr>
    else s)"
proof (cases "sk \<in> hs_socket ` set (m_local_sockets s)")
  case True
  then show ?thesis
    using remove_loop_hit [of "handle s" "m_local_sockets s" sk] assms(1)
    by (simp add: remove_socket_def listed_def close_socket_def)
next
  case False
  then have "handle s sk = -1" using assms(2) by simp
  then have "handle s sk \<notin> (\<lambda>h. handle s (hs_socket h)) ` set (m_local_sockets s)"
    using assms(1) by (auto simp: listed_def)
  then show ?thesis using remove_loop_miss False by (simp add: remove_socket_def)
qed

lemma distinct_handle_filter:
  "distinct (map (\<lambda>h. hn (hs_socket h)) hs) \<Longrightarrow>
   distinct (map (\<lambda>h. (hn(sk := x)) (hs_socket h)) (filter (\<lambda>h. hs_socket h \<noteq> sk) hs))"
  by (induction hs) auto

lemma remove_socket_inv:
  assumes "listed s" "tied s" "sk \<in> hs_socket ` set (m_local_sockets s) \<or> handle s sk = -1"
    "m_local_sockets (remove_socket sk s) \<noteq> []"
  shows "listed (remove_socket sk s)" "tied (remove_socket sk s)" "streams s \<Longrightarrow> streams (remove_socket sk s)"
    "paced s \<Longrightarrow> paced (remove_socket sk s)"
proof -
  note eq = remove_socket_eq [OF assms(1,3)]
  have "length (filter (\<lambda>h. hs_socket h \<noteq> sk) (m_local_sockets s)) \<le> length (m_local_sockets s)" by simp
  moreover have "int (length (m_local_sockets s)) \<le> max 1 (m_max_connections s)"
    using assms(1) by (simp add: listed_def)
  ultimately have len: "int (length (filter (\<lambda>h. hs_socket h \<noteq> sk) (m_local_sockets s))) \<le> max 1 (m_max_connections s)"
    by linarith
  show "listed (remove_socket sk s)"
    using assms(1,4) distinct_handle_filter [of "handle s" "m_local_sockets s" sk "-1"] len
    by (auto simp: eq listed_def distinct_map_filter)
  have "hs_socket ` {h \<in> set (m_local_sockets s). hs_socket h \<noteq> sk} = hs_socket ` set (m_local_sockets s) - {sk}" by auto
  then show "tied (remove_socket sk s)" using assms(2) by (auto simp: eq tied_def)
  show "streams s \<Longrightarrow> streams (remove_socket sk s)" by (auto simp: eq streams_def)
  show "paced s \<Longrightarrow> paced (remove_socket sk s)" by (auto simp: eq paced_def)
qed


subsection \<open>The handlers keep it\<close>

text \<open>Taking an operation out of the pending ones, and starting one.\<close>

lemma take_out:
  assumes "session_inv s" "op \<in> set (pending s)" "\<not> is_head op" "lwrites [op] = []"
  shows "session_inv (s\<lparr>pending := remove1 op (pending s)\<rparr>)"
proof -
  let ?p = "remove1 op (pending s)"
  have sub: "\<And>x. x \<in> set ?p \<Longrightarrow> x \<in> set (pending s)" using set_remove1_subset by fast
  have lw: "lwrites ?p = lwrites (pending s)" using assms(4) by (rule lwrites_remove_other)
  have "length (filter is_head ?p) = length (filter is_head (pending s))"
    "length (filter is_accept ?p) \<le> length (filter is_accept (pending s))"
    using filter_remove1_length [OF assms(2), of is_head] filter_remove1_length [OF assms(2), of is_accept] assms(3)
    by simp_all
  then show ?thesis using assms(1) by (auto simp: session_inv_def inv_defs lw dest!: sub)
qed

lemma put_in:
  assumes "session_inv s" "\<not> is_head op" "lwrites [op] = []" "\<not> is_accept op"
    "uses op \<subseteq> hs_socket ` set (m_local_sockets s)"
  shows "session_inv (start_op op s)"
  using assms by (cases op) (auto simp: session_inv_def inv_defs start_op_def)

lemma session_inv_other [simp]:
  "session_inv (s\<lparr>m_count_out := c\<rparr>) = session_inv s" "session_inv (s\<lparr>m_last_outgoing_msg := m\<rparr>) = session_inv s"
  "session_inv (s\<lparr>m_last_outgoing_stamp := t\<rparr>) = session_inv s" "session_inv (s\<lparr>m_local_data := b\<rparr>) = session_inv s"
  "session_inv (s\<lparr>from_local := x\<rparr>) = session_inv s" "session_inv (s\<lparr>to_remote := x\<rparr>) = session_inv s"
  "session_inv (s\<lparr>remote_open := x'\<rparr>) = session_inv s" "session_inv (s\<lparr>io_stopped := x'\<rparr>) = session_inv s"
  by (simp_all add: session_inv_def inv_defs)

lemmas handler_defs = complete_def arrive_def dispatch_def error_of_def bytes_of_def Let_def

lemma complete_local_read:
  assumes "session_inv s" "LocalRead ow h \<in> set (pending s)" "possible (LocalRead ow h) r s"
    "complete env (LocalRead ow h) r s = Some (None, s')"
  shows "session_inv s'"
proof -
  let ?s = "s\<lparr>pending := remove1 (LocalRead ow h) (pending s)\<rparr>"
  have inv: "session_inv ?s" using assms(1,2) by (intro take_out) simp_all
  show ?thesis
  proof (cases "error_of r")
    case None
    then obtain d where r: "r = Received d" using assms(3) by (cases r) (auto simp: error_of_def)
    obtain t where "s' = start_op (RemoteWrite (hs_id h) (length d)) t" "session_inv t"
      using assms(4) inv unfolding r
      by (auto simp: handler_defs handle_local_read_def split: if_splits option.splits)
    then show ?thesis by (simp add: put_in)
  next
    case (Some e)
    then have r: "r = Failed e" by (cases r) (auto simp: error_of_def)
    have "s' = remove_socket (hs_socket h) ?s" "m_local_sockets s' \<noteq> []"
      using assms(4) unfolding r by (auto simp: handler_defs handle_local_read_def split: if_splits)
    moreover have "hs_socket h \<in> hs_socket ` set (m_local_sockets s) \<or> handle s (hs_socket h) = -1"
      using assms(1,2) by (fastforce simp: session_inv_def tied_def)
    ultimately show ?thesis using remove_socket_inv [of ?s "hs_socket h"] inv
      by (auto simp: session_inv_def)
  qed
qed


lemma complete_remote_write:
  assumes "session_inv s" "RemoteWrite i n \<in> set (pending s)" "possible (RemoteWrite i n) r s"
    "complete env (RemoteWrite i n) r s = Some (None, s')"
  shows "session_inv s'"
proof -
  let ?s = "s\<lparr>pending := remove1 (RemoteWrite i n) (pending s)\<rparr>"
  have inv: "session_inv ?s" using assms(1,2) by (intro take_out) simp_all
  have r: "r = Completed" using assms(3,4) by (cases r) (auto simp: handler_defs handle_remote_write_def)
  let ?t = "?s\<lparr>to_remote := to_remote s @ take n (m_local_data s)\<rparr>"
  show ?thesis
  proof (cases "find (\<lambda>h. hs_id h = i) (m_local_sockets s)")
    case None
    then have "s' = ?t" using assms(4) unfolding r by (simp add: handler_defs handle_remote_write_def)
    with inv show ?thesis by simp
  next
    case (Some h)
    then have "h \<in> set (m_local_sockets s)" by (auto simp: find_Some_iff)
    moreover have "s' = start_op (LocalRead Shared h) ?t"
      using assms(4) Some unfolding r by (simp add: handler_defs handle_remote_write_def)
    moreover have "session_inv ?t" using inv by simp
    ultimately show ?thesis by (auto intro: put_in)
  qed
qed

lemma complete_handshake:
  assumes "session_inv s" "Handshake \<in> set (pending s)" "possible Handshake r s"
    "complete env Handshake r s = Some (None, s')"
  shows "session_inv s'"
proof -
  let ?p = "remove1 Handshake (pending s)"
  have sub: "\<And>x. x \<in> set ?p \<Longrightarrow> x \<in> set (pending s)" using set_remove1_subset by fast
  have lw: "lwrites ?p = lwrites (pending s)" by (simp add: lwrites_remove_other)
  have len: "length (filter is_head (pending s)) = length (filter is_head ?p) + 1"
    "length (filter is_accept (pending s)) = length (filter is_accept ?p)"
    using filter_remove1_length [OF assms(2)] by simp_all
  have r: "r = Completed" using assms(3,4) by (cases r) (auto simp: handler_defs handle_handshake_def split: if_splits)
  have "s' = start_op RemoteRead (s\<lparr>pending := ?p, m_pdeadline := Some (Some (sys_now env + m_read_timeout s))\<rparr>)"
    using assms(4) unfolding r by (auto simp: handler_defs handle_handshake_def expires_from_now_def split: if_splits)
  then show ?thesis using assms(1) len by (auto simp: session_inv_def inv_defs start_op_def lw dest!: sub)
qed

lemma session_inv_deadline: "session_inv s \<Longrightarrow> session_inv (s\<lparr>m_pdeadline := Some e\<rparr>)"
  by (simp add: session_inv_def inv_defs)

lemma check_deadline_next:
  assumes "check_deadline env error s = Some (None, s')"
  shows "s' \<in> {s, start_op DeadlineWait s, s\<lparr>remote_open := False, m_pdeadline := Some None\<rparr>}"
  using assms by (auto simp: check_deadline_def Let_def split: if_splits option.splits)

lemma complete_deadline:
  assumes "session_inv s" "DeadlineWait \<in> set (pending s)" "complete env DeadlineWait r s = Some (None, s')"
  shows "session_inv s'"
proof -
  let ?s = "s\<lparr>pending := remove1 DeadlineWait (pending s)\<rparr>"
  have inv: "session_inv ?s" using assms(1,2) by (intro take_out) simp_all
  have "s' \<in> {?s, start_op DeadlineWait ?s, ?s\<lparr>remote_open := False, m_pdeadline := Some None\<rparr>}"
    using assms(3) by (intro check_deadline_next) (simp add: complete_def arrive_def dispatch_def)
  moreover have "session_inv (?s\<lparr>remote_open := False, m_pdeadline := Some None\<rparr>)"
    by (rule session_inv_deadline) (simp add: inv)
  ultimately show ?thesis using inv put_in [OF inv, of DeadlineWait] by auto
qed

lemma other_handle:
  assumes "session_inv s" "sk \<notin> hs_socket ` set (m_local_sockets s)" "\<And>op. op \<in> set (pending s) \<Longrightarrow> sk \<notin> uses op"
  shows "session_inv (s\<lparr>handle := (handle s)(sk := x), missed := (missed s)(sk := y), to_local := (to_local s)(sk := z)\<rparr>)"
    "session_inv (s\<lparr>handle := (handle s)(sk := x)\<rparr>)"
proof -
  have m: "map (\<lambda>h. if hs_socket h = sk then x else handle s (hs_socket h)) (m_local_sockets s)
      = map (\<lambda>h. handle s (hs_socket h)) (m_local_sockets s)" using assms(2) by auto
  have l: "listed (s\<lparr>handle := (handle s)(sk := x)\<rparr>)"
    using assms(1,2) unfolding listed_def session_inv_def by (simp add: m) auto
  have t: "tied (s\<lparr>handle := (handle s)(sk := x)\<rparr>)"
    using assms by (fastforce simp: session_inv_def tied_def)
  show "session_inv (s\<lparr>handle := (handle s)(sk := x)\<rparr>)"
    using l t assms(1) by (simp add: session_inv_def paced_def streams_def)
  have "streams (s\<lparr>handle := (handle s)(sk := x), missed := (missed s)(sk := y), to_local := (to_local s)(sk := z)\<rparr>)"
    using assms(1,2) by (auto simp: session_inv_def streams_def)
  then show "session_inv (s\<lparr>handle := (handle s)(sk := x), missed := (missed s)(sk := y), to_local := (to_local s)(sk := z)\<rparr>)"
    using l t assms(1) by (simp add: session_inv_def listed_def tied_def paced_def)
qed

lemma seat:
  assumes "session_inv s" "hs_socket p \<notin> hs_socket ` set (m_local_sockets s)" "hs_socket p < next_sock s"
    "0 \<le> handle s (hs_socket p)" "handle s (hs_socket p) \<notin> (\<lambda>h. handle s (hs_socket h)) ` set (m_local_sockets s)"
    "int (length (m_local_sockets s)) < m_max_connections s" "filter is_accept (pending s) = []"
    "\<And>op. op \<in> set (pending s) \<Longrightarrow> hs_socket p \<notin> uses op" "from_remote s = missed s (hs_socket p) @ to_local s (hs_socket p)"
  shows "session_inv (s\<lparr>id_gen := i, m_local_sockets := m_local_sockets s @ [p]\<rparr>)"
proof -
  let ?t = "s\<lparr>id_gen := i, m_local_sockets := m_local_sockets s @ [p]\<rparr>"
  have "listed ?t" using assms(1-6) by (auto simp: session_inv_def listed_def)
  moreover have "Accept sk \<notin> set (pending s)" for sk using assms(7) by (auto simp: filter_empty_conv)
  then have "tied ?t" using assms(1,7) by (auto simp: session_inv_def tied_def)
  moreover have "hs_socket p \<notin> set (lwrites (pending s))" by (auto simp: in_lwrites dest: assms(8))
  then have "streams ?t" using assms(1,9) in_lwrites by (auto simp: session_inv_def streams_def)
  ultimately show ?thesis using assms(1) by (simp add: session_inv_def paced_def)
qed

lemma arm:
  assumes "session_inv s" "filter is_accept (pending s) = []"
  shows "session_inv (start_op (Accept (next_sock s)) (s\<lparr>next_sock := next_sock s + 1\<rparr>))"
proof -
  have "Accept sk \<notin> set (pending s)" for sk using assms(2) by (auto simp: filter_empty_conv)
  moreover have "next_sock s \<notin> hs_socket ` set (m_local_sockets s)"
    using assms(1) by (auto simp: session_inv_def listed_def)
  moreover have "next_sock s \<notin> uses op" if "op \<in> set (pending s)" for op
    using assms(1) that by (auto simp: session_inv_def tied_def)
  ultimately show ?thesis using assms
    by (auto simp: session_inv_def inv_defs start_op_def less_Suc_eq)
qed

lemma complete_accept:
  assumes "session_inv s" "Accept sk \<in> set (pending s)" "possible (Accept sk) r s"
    "complete env (Accept sk) r s = Some (None, s')"
  shows "session_inv s'"
proof -
  let ?p = "remove1 (Accept sk) (pending s)"
  let ?s = "s\<lparr>pending := ?p\<rparr>"
  have inv: "session_inv ?s" using assms(1,2) by (intro take_out) simp_all
  have none: "filter is_accept ?p = []"
    using filter_remove1_length [OF assms(2), of is_accept] assms(1) by (simp add: session_inv_def tied_def)
  have fresh: "sk < next_sock s" "sk \<notin> hs_socket ` set (m_local_sockets s)" "\<And>op. op \<in> set ?p \<Longrightarrow> sk \<notin> uses op"
    using assms(1,2) set_remove1_subset [of "Accept sk" "pending s"] by (auto simp: session_inv_def tied_def)
  have "\<exists>t. session_inv t \<and> filter is_accept (pending t) = []
     \<and> s' \<in> {t, start_op (Accept (next_sock t)) (t\<lparr>next_sock := next_sock t + 1\<rparr>)}"
  proof (cases r)
    case (Accepted h)
    let ?a = "?s\<lparr>handle := (handle s)(sk := h), missed := (missed s)(sk := from_remote s), to_local := (to_local s)(sk := [])\<rparr>"
    let ?h = "\<lparr>hs_id = id_gen s + 1, hs_socket = sk\<rparr>"
    have a: "session_inv ?a" using other_handle(1) [OF inv, of sk] fresh by simp
    show ?thesis
    proof (cases "int (length (m_local_sockets s)) < m_max_connections s")
      case True
      let ?b = "?a\<lparr>id_gen := id_gen s + 1, m_local_sockets := m_local_sockets s @ [?h]\<rparr>"
      have "0 \<le> h" "h \<notin> (\<lambda>x. handle s (hs_socket x)) ` set (m_local_sockets s)" using assms(3) Accepted by simp_all
      then have "session_inv ?b" using seat [OF a, of ?h] fresh none True by (auto simp: image_iff)
      then have "session_inv (start_op (LocalRead Raw ?h) ?b)" by (intro put_in) simp_all
      moreover have "filter is_accept (pending (start_op (LocalRead Raw ?h) ?b)) = []" using none by (simp add: start_op_def)
      moreover have "s' \<in> {start_op (LocalRead Raw ?h) ?b, start_op (Accept (next_sock s)) ((start_op (LocalRead Raw ?h) ?b)\<lparr>next_sock := next_sock s + 1\<rparr>)}"
        using assms(4) Accepted True by (auto simp: handler_defs handle_accept_def start_op_def split: if_splits)
      ultimately show ?thesis by (intro exI [of _ "start_op (LocalRead Raw ?h) ?b"]) (simp add: start_op_def)
    next
      case False
      let ?c = "?a\<lparr>handle := (handle ?a)(sk := -1)\<rparr>"
      have "session_inv ?c" using other_handle(2) [OF a, of sk "-1"] fresh by simp
      moreover have "s' \<in> {?c, start_op (Accept (next_sock s)) (?c\<lparr>next_sock := next_sock s + 1\<rparr>)}"
        using assms(4) Accepted False by (auto simp: handler_defs handle_accept_def record_ops split: if_splits)
      ultimately show ?thesis using none by (intro exI [of _ ?c]) simp
    qed
  next
    case (Failed e)
    then have "s' \<in> {?s, start_op (Accept (next_sock s)) (?s\<lparr>next_sock := next_sock s + 1\<rparr>)}"
      using assms(4) by (auto simp: handler_defs handle_accept_def start_op_def split: if_splits)
    then show ?thesis using inv none by (intro exI [of _ ?s]) simp
  qed (use assms(3) in auto)
  then show ?thesis using arm by auto
qed


lemma start_writes:
  "foldl (\<lambda>s h. start_op (LocalWrite (hs_socket h) n) s) s hs = s\<lparr>pending := pending s @ map (\<lambda>h. LocalWrite (hs_socket h) n) hs\<rparr>"
  by (induction hs arbitrary: s) (simp_all add: start_op_def)

lemma lwrites_map [simp]: "lwrites (map (\<lambda>h. LocalWrite (hs_socket h) n) hs) = map hs_socket hs"
  by (induction hs) simp_all

lemma filter_writes [simp]: "filter is_head (map (\<lambda>h. LocalWrite (hs_socket h) n) hs) = []"
  "filter is_accept (map (\<lambda>h. LocalWrite (hs_socket h) n) hs) = []"
  by (simp_all add: filter_empty_conv)

lemma lwrites_NilD: "lwrites ops = [] \<Longrightarrow> LocalWrite k n \<notin> set ops"
  using in_lwrites [of k ops] by auto

lemma complete_remote_read:
  assumes "session_inv s" "RemoteRead \<in> set (pending s)" "possible RemoteRead r s"
    "complete env RemoteRead r s = Some (None, s')"
  shows "session_inv s'"
proof -
  let ?p = "remove1 RemoteRead (pending s)"
  have sub: "\<And>x. x \<in> set ?p \<Longrightarrow> x \<in> set (pending s)" using set_remove1_subset by fast
  have len: "length (filter is_head (pending s)) = length (filter is_head ?p) + 1"
    "length (filter is_accept (pending s)) = length (filter is_accept ?p)"
    using filter_remove1_length [OF assms(2)] by simp_all
  have lw: "lwrites ?p = []" "lwrites (pending s) = []" "filter is_head ?p = []"
    using assms(1) len(1) by (auto simp: lwrites_remove_other session_inv_def paced_def split: if_splits)
  obtain d where r: "r = Received d" "0 < length d" "length d \<le> max_length"
    using assms(3,4) by (cases r) (auto simp: handler_defs handle_remote_read_def split: if_splits)
  let ?buf = "(d @ drop (length d) (m_remote_data s))[length d := CHR 0x00]"
  let ?ops = "?p @ map (\<lambda>h. LocalWrite (hs_socket h) (length d)) (m_local_sockets s)"
  obtain msg c where s': "s' = s\<lparr>from_remote := from_remote s @ d, m_count_in := c, m_remote_data := ?buf,
      m_last_incoming_msg := msg, m_last_incoming_stamp := sys_now env, m_write_count := int (length (m_local_sockets s)),
      m_pdeadline := Some (Some (sys_now env + m_read_timeout s)), pending := ?ops\<rparr>"
    using assms(4) unfolding r
    by (auto simp: handler_defs handle_remote_read_def start_writes expires_from_now_def split: if_splits option.splits)
  have buf: "length ?buf = 1025" "take (length d) ?buf = d"
    using assms(1) r(3) by (auto simp: session_inv_def streams_def)
  have l: "listed s'" using assms(1) by (simp add: s' session_inv_def listed_def)
  moreover have "paced s'" using assms(1) lw by (auto simp: s' session_inv_def paced_def listed_def)
  moreover have "tied s'" using assms(1) len(2)
    by (auto simp: s' session_inv_def tied_def listed_def dest!: sub)
  moreover have "streams s'" using assms(1) buf r(3) lw(2)
    by (auto simp: s' session_inv_def streams_def dest: lwrites_NilD dest!: sub)
  ultimately show ?thesis by (simp add: session_inv_def)
qed


lemma handle_local_write_next:
  assumes "handle_local_write env sk error s = Some (None, s')"
  shows "\<exists>t. t = (if error = None then s\<lparr>m_write_count := m_write_count s - 1\<rparr>
                   else remove_socket sk (s\<lparr>m_write_count := m_write_count s - 1\<rparr>)) \<and> m_local_sockets t \<noteq> []
    \<and> s' = (if m_write_count t = 0
            then start_op RemoteRead (t\<lparr>m_pdeadline := Some (Some (sys_now env + m_read_timeout t))\<rparr>) else t)"
  using assms by (auto simp: handle_local_write_def Let_def expires_from_now_def split: if_splits)

lemma remove_socket_paced_fields [simp]:
  "pending (remove_socket sk s) = pending s" "m_write_count (remove_socket sk s) = m_write_count s"
  "m_pdeadline (remove_socket sk s) = m_pdeadline s" "mp_remote_socket (remove_socket sk s) = mp_remote_socket s"
  "m_remote_data (remove_socket sk s) = m_remote_data s"
  by (simp_all add: remove_socket_def close_socket_def split: prod.splits)

lemma remove_socket_session_fields [simp]:
  "from_remote (remove_socket sk s) = from_remote s" "missed (remove_socket sk s) = missed s" "to_local (remove_socket sk s) = to_local s"
  by (simp_all add: remove_socket_def close_socket_def split: prod.splits)

lemma written:
  assumes "session_inv s" "LocalWrite sk n \<in> set (pending s)"
  shows "lwrites (remove1 (LocalWrite sk n) (pending s)) = remove1 sk (lwrites (pending s))"
    "sk \<in> set (lwrites (pending s))" "distinct (lwrites (pending s))"
    "LocalWrite sk m \<notin> set (remove1 (LocalWrite sk n) (pending s))"
    "k \<notin> set (lwrites (remove1 (LocalWrite sk n) (pending s))) \<Longrightarrow> k \<noteq> sk \<Longrightarrow> k \<notin> set (lwrites (pending s))"
    "filter is_head (remove1 (LocalWrite sk n) (pending s)) = []"
    "length (filter is_accept (remove1 (LocalWrite sk n) (pending s))) = length (filter is_accept (pending s))"
    "m_write_count s - 1 = int (length (lwrites (remove1 (LocalWrite sk n) (pending s))))"
proof -
  let ?p = "remove1 (LocalWrite sk n) (pending s)"
  show dw: "distinct (lwrites (pending s))" using assms(1) by (simp add: session_inv_def paced_def)
  show skin: "sk \<in> set (lwrites (pending s))" using assms(2) in_lwrites by blast
  show lw: "lwrites ?p = remove1 sk (lwrites (pending s))" by (rule lwrites_remove [OF dw assms(2)])
  show "LocalWrite sk m \<notin> set ?p" using lw dw in_lwrites [of sk ?p] by auto
  show "k \<notin> set (lwrites ?p) \<Longrightarrow> k \<noteq> sk \<Longrightarrow> k \<notin> set (lwrites (pending s))" using lw by simp
  show "filter is_head ?p = []" "length (filter is_accept ?p) = length (filter is_accept (pending s))"
    using filter_remove1_length [OF assms(2), of is_head] filter_remove1_length [OF assms(2), of is_accept] assms(1) skin
    by (auto simp: session_inv_def paced_def split: if_splits)
  show "m_write_count s - 1 = int (length (lwrites ?p))"
    using assms(1) lw skin length_pos_if_in_set [OF skin]
    by (auto simp: session_inv_def paced_def length_remove1 of_nat_diff Suc_leI simp del: length_greater_0_conv)
qed

lemma written_ok:
  assumes "session_inv s" "LocalWrite sk n \<in> set (pending s)"
    "t = s\<lparr>pending := remove1 (LocalWrite sk n) (pending s),
      to_local := (to_local s)(sk := to_local s sk @ take n (m_remote_data s)), m_write_count := w\<rparr>"
  shows "listed t \<and> tied t \<and> streams t"
proof -
  have sub: "\<And>x. x \<in> set (remove1 (LocalWrite sk n) (pending s)) \<Longrightarrow> x \<in> set (pending s)"
    using set_remove1_subset by fast
  note w = written [OF assms(1,2)]
  have "listed t" using assms(1) by (simp add: assms(3) session_inv_def listed_def)
  moreover have "tied t" using assms(1) w(7) by (auto simp: assms(3) session_inv_def tied_def dest!: sub)
  moreover have "streams t" using assms(1,2) w(4) unfolding assms(3)
    by (auto simp: session_inv_def streams_def dest!: sub dest: w(5))
  ultimately show ?thesis by simp
qed

lemma written_failed:
  assumes "session_inv s" "LocalWrite sk n \<in> set (pending s)" "m_local_sockets t \<noteq> []"
    "t = remove_socket sk (s\<lparr>pending := remove1 (LocalWrite sk n) (pending s), m_write_count := w\<rparr>)"
  shows "listed t \<and> tied t \<and> streams t"
proof -
  let ?p = "remove1 (LocalWrite sk n) (pending s)"
  let ?b = "s\<lparr>pending := ?p, m_write_count := w\<rparr>"
  have sub: "\<And>x. x \<in> set ?p \<Longrightarrow> x \<in> set (pending s)" using set_remove1_subset by fast
  note w = written [OF assms(1,2)]
  have cond: "sk \<in> hs_socket ` set (m_local_sockets ?b) \<or> handle ?b sk = -1"
    using assms(1,2) by (fastforce simp: session_inv_def tied_def)
  have b: "listed ?b" "tied ?b"
    using assms(1) w(7) by (auto simp: session_inv_def listed_def tied_def dest!: sub)
  have lt: "listed t" "tied t" using remove_socket_inv(1,2) [OF b cond] assms(3) unfolding assms(4) by simp_all
  have fields: "pending t = ?p" "m_remote_data t = m_remote_data s" "from_remote t = from_remote s"
    "missed t = missed s" "to_local t = to_local s" by (simp_all add: assms(4))
  have left: "h \<in> set (m_local_sockets t) \<Longrightarrow> h \<in> set (m_local_sockets s) \<and> hs_socket h \<noteq> sk" for h
    using remove_socket_eq [OF b(1) cond] unfolding assms(4) by (auto split: if_splits)
  have "streams t" using assms(1) unfolding streams_def fields
    by (auto simp: session_inv_def streams_def dest!: sub left dest: w(5))
  with lt show ?thesis by simp
qed

lemma complete_local_write:
  assumes "session_inv s" "LocalWrite sk n \<in> set (pending s)" "possible (LocalWrite sk n) r s"
    "complete env (LocalWrite sk n) r s = Some (None, s')"
  shows "session_inv s'"
proof -
  let ?p = "remove1 (LocalWrite sk n) (pending s)"
  let ?a = "arrive (LocalWrite sk n) r (s\<lparr>pending := ?p\<rparr>)"
  note w = written [OF assms(1,2)]
  have a: "pending ?a = ?p" "m_write_count ?a = m_write_count s" "m_pdeadline ?a = m_pdeadline s" "mp_remote_socket ?a = mp_remote_socket s"
    by (auto simp: arrive_def split: result.splits)
  let ?b = "?a\<lparr>m_write_count := m_write_count s - 1\<rparr>"
  have hw: "handle_local_write env sk (error_of r) ?a = Some (None, s')"
    using assms(4) by (simp add: complete_def dispatch_def)
  obtain t where t: "t = (if error_of r = None then ?b else remove_socket sk ?b)" "m_local_sockets t \<noteq> []"
    "s' = (if m_write_count t = 0
            then start_op RemoteRead (t\<lparr>m_pdeadline := Some (Some (sys_now env + m_read_timeout t))\<rparr>) else t)"
    using handle_local_write_next [OF hw, unfolded a(2)] by blast
  have f: "pending t = ?p" "m_write_count t = m_write_count s - 1" "m_pdeadline t = m_pdeadline s" "mp_remote_socket t = mp_remote_socket s"
    using a t(1) by simp_all
  have "listed t \<and> tied t \<and> streams t"
  proof (cases r)
    case (Failed e)
    then show ?thesis using written_failed [OF assms(1,2) t(2)] t(1) by (simp add: error_of_def arrive_def)
  next
    case Completed
    then show ?thesis using written_ok [OF assms(1,2)] t(1) by (simp add: error_of_def arrive_def)
  qed (use assms(3) in auto)
  moreover have "m_pdeadline s \<noteq> None" "mp_remote_socket s" "distinct (lwrites ?p)"
    using assms(1) w(1) by (simp_all add: session_inv_def paced_def)
  ultimately show ?thesis using f w(6,8) unfolding t(3)
    by (cases "m_write_count t = 0") (auto simp: session_inv_def inv_defs start_op_def)
qed

lemma session_step_inv: "session_step s s' \<Longrightarrow> session_inv s \<Longrightarrow> session_inv s'"
proof (induction rule: session_step.induct)
  case (step op s r env s')
  show ?case
  proof (cases op)
    case LocalRead with step show ?thesis by (auto intro: complete_local_read)
  next
    case RemoteWrite with step show ?thesis by (auto intro: complete_remote_write)
  next
    case RemoteRead with step show ?thesis by (auto intro: complete_remote_read)
  next
    case LocalWrite with step show ?thesis by (auto intro: complete_local_write)
  next
    case Accept with step show ?thesis by (auto intro: complete_accept)
  next
    case DeadlineWait with step show ?thesis by (auto intro: complete_deadline)
  next
    case Handshake with step show ?thesis by (auto intro: complete_handshake)
  qed
qed

text \<open>
  A session starts with no socket and no operation pending, as \<^verbatim>\<open>cleanup\<close> and the end of the
  \<^verbatim>\<open>io_service\<close> leave it, a first connection that was accepted and a connection to the remote.
\<close>

definition idle :: "session \<Rightarrow> bool" where
  "idle s \<longleftrightarrow> m_local_sockets s = [] \<and> pending s = [] \<and> length (m_remote_data s) = 1025
     \<and> from_remote s = [] \<and> to_remote s = [] \<and> from_local s = [] \<and> to_local s = (\<lambda>_. []) \<and> missed s = (\<lambda>_. [])"

inductive session_reachable :: "session \<Rightarrow> session \<Rightarrow> bool" for s0 where
  opened: "idle s0 \<Longrightarrow> 0 \<le> h \<Longrightarrow> go_out_begin env None (threadproc_accepted h s0) = Some (None, s) \<Longrightarrow> session_reachable s0 s"
| more: "session_reachable s0 s \<Longrightarrow> session_step s s' \<Longrightarrow> session_reachable s0 s'"

lemma begin_inv:
  assumes "idle s0" "0 \<le> h" "go_out_begin env None (threadproc_accepted h s0) = Some (None, s)"
  shows "session_inv s"
  using assms by (auto simp: idle_def go_out_begin_def threadproc_accepted_def Let_def record_ops session_inv_def inv_defs)

lemma reachable_inv: "session_reachable s0 s \<Longrightarrow> session_inv s"
  by (induction rule: session_reachable.induct) (auto intro: begin_inv session_step_inv)


subsection \<open>One local connection\<close>

text \<open>
  With at most one connection there is one socket, one of its read and the write to the remote is
  pending, and the bytes for the remote are those that came, in order.
\<close>

fun is_out :: "async_op \<Rightarrow> bool" where
  "is_out (LocalRead ow h) = True"
| "is_out (RemoteWrite i n) = True"
| "is_out op = False"

definition forwarding :: "session \<Rightarrow> bool" where
  "forwarding s \<longleftrightarrow> m_max_connections s \<le> 1 \<and> length (m_local_data s) = 1025 \<and> m_local_data s ! 1024 = CHR 0x00
     \<and> mp_acceptor s
     \<and> (\<exists>h. m_local_sockets s = [h]
          \<and> ((\<exists>ow. filter is_out (pending s) = [LocalRead ow h]) \<and> from_local s = to_remote s
           \<or> (\<exists>n. filter is_out (pending s) = [RemoteWrite (hs_id h) n] \<and> n \<le> max_length
                \<and> from_local s = to_remote s @ take n (m_local_data s))))"

lemma is_out_remove: "\<not> is_out op \<Longrightarrow> filter is_out (remove1 op ops) = filter is_out ops"
  by (induction ops) auto

lemma is_out_remove1: "is_out op \<Longrightarrow> filter is_out (remove1 op ops) = remove1 op (filter is_out ops)"
  by (induction ops) auto

lemma is_out_pending:
  assumes "filter is_out ops = [x]" "op \<in> set ops" "is_out op"
  shows "op = x \<and> filter is_out (remove1 op ops) = []"
proof -
  have "op \<in> set (filter is_out ops)" using assms(2,3) by simp
  then show ?thesis using assms by (simp add: is_out_remove1)
qed

lemma buffer_zero: "length (b :: string) = 1025 \<Longrightarrow> b ! 1024 = CHR 0x00 \<Longrightarrow> length d \<le> 1024 \<Longrightarrow>
   length (d @ drop (length d) b) = 1025 \<and> (d @ drop (length d) b) ! 1024 = CHR 0x00 \<and> CHR 0x00 \<in> set (d @ drop (length d) b)"
proof -
  assume b: "length b = 1025" "b ! 1024 = CHR 0x00" "length d \<le> 1024"
  then have z: "(d @ drop (length d) b) ! 1024 = CHR 0x00" by (simp add: nth_append)
  moreover have len: "length (d @ drop (length d) b) = 1025" using b by simp
  ultimately show ?thesis using nth_mem [of 1024 "d @ drop (length d) b"] by simp
qed


lemma remove_loop_length: "length (snd (remove_loop hn sk hs)) \<le> length hs"
  by (induction hs) (auto split: prod.splits)

lemma remove_socket_one:
  assumes "m_local_sockets s = [h]" "m_local_sockets (remove_socket sk s) \<noteq> []"
  shows "remove_socket sk s = s"
  using assms by (auto simp: remove_socket_def split: if_splits)

lemma forwarding_frame:
  assumes "forwarding s" "\<not> is_out op" "possible op r s" "complete env op r s = Some (None, s')"
  shows "m_local_data s' = m_local_data s \<and> from_local s' = from_local s \<and> to_remote s' = to_remote s
    \<and> m_max_connections s' = m_max_connections s \<and> mp_acceptor s' = mp_acceptor s
    \<and> m_local_sockets s' = m_local_sockets s \<and> filter is_out (pending s') = filter is_out (pending s)"
proof -
  obtain h where h: "m_local_sockets s = [h]" "m_max_connections s \<le> 1" using assms(1) by (auto simp: forwarding_def)
  note out = is_out_remove [OF assms(2), of "pending s"]
  show ?thesis
  proof (cases op)
    case (LocalWrite sk n)
    let ?a = "arrive op r (s\<lparr>pending := remove1 op (pending s)\<rparr>)"
    let ?b = "?a\<lparr>m_write_count := m_write_count ?a - 1\<rparr>"
    have a: "m_local_sockets ?b = [h]" "m_local_data ?a = m_local_data s" "from_local ?a = from_local s" "to_remote ?a = to_remote s"
      "m_max_connections ?a = m_max_connections s" "mp_acceptor ?a = mp_acceptor s" "pending ?a = remove1 op (pending s)"
      using h(1) unfolding LocalWrite by (auto simp: arrive_def split: result.splits)
    have "handle_local_write env sk (error_of r) ?a = Some (None, s')"
      using assms(4) unfolding LocalWrite by (simp add: complete_def dispatch_def)
    from handle_local_write_next [OF this] obtain t where
      t: "t = (if error_of r = None then ?b else remove_socket sk ?b)" "m_local_sockets t \<noteq> []" "s' = (if m_write_count t = 0
            then start_op RemoteRead (t\<lparr>m_pdeadline := Some (Some (sys_now env + m_read_timeout t))\<rparr>) else t)" by blast
    have "t = ?b" using t(1,2) remove_socket_one [OF a(1), of sk] by presburger
    then show ?thesis using a out h(1) unfolding t(3) by (simp add: start_op_def)
  next
    case RemoteRead
    then show ?thesis using assms(3,4) out unfolding RemoteRead
      by (cases r) (auto simp: handler_defs handle_remote_read_def start_writes expires_from_now_def filter_empty_conv split: if_splits option.splits)
  next
    case Handshake
    then show ?thesis using assms(3,4) out unfolding Handshake
      by (auto simp: handler_defs handle_handshake_def record_ops split: if_splits option.splits result.splits)
  next
    case DeadlineWait
    let ?s = "s\<lparr>pending := remove1 DeadlineWait (pending s)\<rparr>"
    have "s' \<in> {?s, start_op DeadlineWait ?s, ?s\<lparr>remote_open := False, m_pdeadline := Some None\<rparr>}"
      using assms(4) unfolding DeadlineWait by (intro check_deadline_next) (simp add: complete_def arrive_def dispatch_def)
    then show ?thesis using out DeadlineWait by (auto simp: start_op_def)
  next
    case (Accept sk)
    then show ?thesis using assms(3,4) out h unfolding Accept
      by (cases r) (auto simp: handler_defs handle_accept_def record_ops split: if_splits)
  qed (use assms(2) in auto)
qed


lemma forwarding_out:
  assumes "forwarding s" "is_out op" "op \<in> set (pending s)" "possible op r s" "complete env op r s = Some (None, s')"
  shows "forwarding s'"
proof (cases op)
  case (LocalRead ow h)
  then have h: "m_local_sockets s = [h]" "filter is_out (remove1 op (pending s)) = []" "from_local s = to_remote s"
    using assms(1,3) is_out_pending [OF _ assms(3,2)] by (auto simp: forwarding_def)
  have fixed: "m_max_connections s \<le> 1" "mp_acceptor s" "length (m_local_data s) = 1025" "m_local_data s ! 1024 = CHR 0x00"
    using assms(1) by (auto simp: forwarding_def)
  show ?thesis
  proof (cases r)
    case (Received d)
    have d: "length d \<le> 1024" using assms(4) LocalRead Received by simp
    let ?b = "d @ drop (length d) (m_local_data s)"
    note z = buffer_zero [OF fixed(3,4) d]
    have "(?b[length d := CHR 0x00]) ! 1024 = CHR 0x00" using z by (cases "length d = 1024") simp_all
    then have "m_local_sockets s' = [h]" "m_max_connections s' \<le> 1" "mp_acceptor s'" "length (m_local_data s') = 1025"
      "m_local_data s' ! 1024 = CHR 0x00" "filter is_out (pending s') = [RemoteWrite (hs_id h) (length d)]"
      "from_local s' = to_remote s' @ take (length d) (m_local_data s')"
      using assms(5) h fixed z unfolding LocalRead Received
      by (auto simp: handler_defs handle_local_read_def start_op_def c_str_def split: if_splits)
    then show ?thesis using d unfolding forwarding_def by blast
  next
    case (Failed e)
    have "m_local_sockets (remove_socket (hs_socket h) t) = []" if "m_local_sockets t = [h]" for t :: session
      using that by (simp add: remove_socket_def)
    then show ?thesis using assms(5) h(1) unfolding LocalRead Failed
      by (auto simp: handler_defs handle_local_read_def split: if_splits)
  qed (use assms(4) LocalRead in auto)
next
  case (RemoteWrite i n)
  then obtain h where h: "m_local_sockets s = [h]" "filter is_out (remove1 op (pending s)) = []" "i = hs_id h"
    "from_local s = to_remote s @ take n (m_local_data s)"
    using assms(1,3) is_out_pending [OF _ assms(3,2)] by (auto simp: forwarding_def)
  have "r = Completed" using assms(4,5) unfolding RemoteWrite by (cases r) (auto simp: handler_defs handle_remote_write_def)
  then have "s' = start_op (LocalRead Shared h) (s\<lparr>pending := remove1 op (pending s), to_remote := to_remote s @ take n (m_local_data s)\<rparr>)"
    using assms(5) h unfolding RemoteWrite by (simp add: handler_defs handle_remote_write_def)
  then show ?thesis using assms(1) h by (auto simp: forwarding_def start_op_def)
qed (use assms(2) in auto)

lemma forwarding_step: "session_step s s' \<Longrightarrow> forwarding s \<Longrightarrow> forwarding s'"
proof (induction rule: session_step.induct)
  case (step op s r env s')
  show ?case
  proof (cases "is_out op")
    case True with step show ?thesis by (blast intro: forwarding_out)
  next
    case False
    from forwarding_frame [OF step(4) this step(2,3)] step(4) show ?thesis by (auto simp: forwarding_def)
  qed
qed

lemma forwarding_defined:
  assumes "forwarding s" "session_inv s" "op \<in> set (pending s)" "possible op r s"
  shows "complete env op r s \<noteq> None"
proof (cases op)
  case (LocalRead ow h)
  then have h: "m_local_sockets s = [h]"
    using assms(1,3) is_out_pending [OF _ assms(3)] by (auto simp: forwarding_def)
  have "r = Received d \<Longrightarrow> CHR 0x00 \<in> set (d @ drop (length d) (m_local_data s))" for d
    using buffer_zero [of "m_local_data s" d] assms(1,4) LocalRead by (auto simp: forwarding_def)
  then show ?thesis using assms(4) h unfolding LocalRead
    by (cases r) (auto simp: handler_defs handle_local_read_def c_str_def throw_def finish_def split: if_splits)
next
  case RemoteRead
  have "r = Received d \<Longrightarrow> CHR 0x00 \<in> set ((d @ drop (length d) (m_remote_data s))[length d := CHR 0x00])" for d
    using assms(2,4) RemoteRead by (auto simp: session_inv_def streams_def set_update_memI)
  then show ?thesis using assms(4) unfolding RemoteRead
    by (cases r) (auto simp: handler_defs handle_remote_read_def c_str_def throw_def finish_def)
next
  case DeadlineWait
  have "mp_acceptor s" using assms(1) by (simp add: forwarding_def)
  then show ?thesis unfolding DeadlineWait
    by (auto simp: handler_defs check_deadline_def local_interrupt_def throw_def finish_def split: option.splits result.splits if_splits)
qed (use assms(4) in \<open>auto simp: handler_defs handle_remote_write_def handle_local_write_def handle_accept_def
    handle_handshake_def throw_def finish_def split: option.splits result.splits\<close>)


lemma forwarding_begin:
  assumes "idle s0" "go_out_begin env None (threadproc_accepted h s0) = Some (None, s)"
    "m_max_connections s0 \<le> 1" "length (m_local_data s0) = 1025" "m_local_data s0 ! 1024 = CHR 0x00"
  shows "forwarding s"
  using assms by (auto simp: forwarding_def idle_def go_out_begin_def threadproc_accepted_def Let_def record_ops)

lemma forwarding_reachable:
  assumes "session_reachable s0 s" "m_max_connections s0 \<le> 1" "length (m_local_data s0) = 1025" "m_local_data s0 ! 1024 = CHR 0x00"
  shows "forwarding s"
  using assms by (induction rule: session_reachable.induct) (auto intro: forwarding_begin forwarding_step)

text \<open>What a state says of the bytes of both directions.\<close>

lemma sent_so_far:
  assumes "forwarding s"
  shows "\<exists>waits. from_local s = to_remote s @ waits \<and> (waits = [] \<or> (\<exists>i n. RemoteWrite i n \<in> set (pending s) \<and> waits = take n (m_local_data s)))"
proof -
  have "RemoteWrite i n \<in> set (filter is_out (pending s)) \<longleftrightarrow> RemoteWrite i n \<in> set (pending s)" for i n by simp
  with assms show ?thesis unfolding forwarding_def by fastforce
qed

lemma received_so_far:
  assumes "session_inv s" "h \<in> set (m_local_sockets s)"
  shows "\<exists>waits. from_remote s = missed s (hs_socket h) @ to_local s (hs_socket h) @ waits
    \<and> (waits = [] \<or> (\<exists>n. LocalWrite (hs_socket h) n \<in> set (pending s) \<and> waits = take n (m_remote_data s)))"
  using assms in_lwrites [of "hs_socket h" "pending s"] by (auto simp: session_inv_def streams_def)

section \<open>Courses of a session\<close>

text \<open>A given sequence of completions; one that cannot happen ends the course.\<close>

fun run_session :: "(surroundings \<times> async_op \<times> result) list \<Rightarrow> session \<Rightarrow> session handled" where
  "run_session [] s = finish s"
| "run_session ((env, op, r) # es) s =
     (if op \<in> set (pending s) \<and> possible op r s then
        (case complete env op r s of Some (None, s') \<Rightarrow> run_session es s' | x \<Rightarrow> x)
      else throw interrupt_exception s)"

lemma run_reachable: "run_session es s = Some (None, s') \<Longrightarrow> session_reachable s0 s \<Longrightarrow> session_reachable s0 s'"
proof (induction es arbitrary: s)
  case (Cons e es)
  obtain env op r where e: "e = (env, op, r)" by (cases e) auto
  with Cons.prems(1) obtain t where t: "op \<in> set (pending s)" "possible op r s" "complete env op r s = Some (None, t)"
    "run_session es t = Some (None, s')" by (auto split: if_splits option.splits)
  have "session_reachable s0 t" using Cons.prems(2) t(1-3) by (blast intro: session_reachable.more session_step.step)
  with Cons.IH t(4) show ?case by blast
qed simp

definition sample_session :: "int \<Rightarrow> session" where
  "sample_session connections =
     \<lparr>m_local_port = 4000, m_max_connections = connections, m_read_timeout = 300, m_auto_reconnect = False,
      m_local_sockets = [], m_local_connected = False, m_write_count = 0,
      m_local_data = replicate 1025 (CHR 0x00), m_remote_data = replicate 1025 (CHR 0x00),
      m_count_in = data_flow_ctor 0 True, m_count_out = data_flow_ctor 0 True,
      m_last_incoming_msg = [], m_last_incoming_stamp = 0, m_last_outgoing_msg = [], m_last_outgoing_stamp = 0,
      m_pdeadline = None, mp_remote_socket = False, mp_io_service = False, mp_acceptor = False, id_gen = 0,
      handle = (\<lambda>_. -1), next_sock = 0, remote_open = False, io_stopped = False, pending = [],
      from_remote = [], to_local = (\<lambda>_. []), missed = (\<lambda>_. []), from_local = [], to_remote = []\<rparr>"

definition calm :: surroundings where
  "calm = \<lparr>steady = 0, sys_now = 0, out_log = False, in_log = False\<rparr>"

definition opened_session :: "int \<Rightarrow> session" where
  "opened_session connections =
     (case go_out_begin calm None (threadproc_accepted 7 (sample_session connections)) of
        Some (None, s) \<Rightarrow> s | _ \<Rightarrow> sample_session connections)"

lemma opened_session_reachable: "session_reachable (sample_session n) (opened_session n)"
  by (rule session_reachable.opened [of _ 7 calm])
     (simp_all add: idle_def sample_session_def opened_session_def go_out_begin_def threadproc_accepted_def Let_def finish_def)

abbreviation first_socket :: host_socket where "first_socket \<equiv> \<lparr>hs_id = 1, hs_socket = 0\<rparr>"
abbreviation second_socket :: host_socket where "second_socket \<equiv> \<lparr>hs_id = 2, hs_socket = 1\<rparr>"


section \<open>Properties\<close>

text \<open>
  C2: everything the remote proxy sends reaches every attached local program, once and in order. In
  every state a session can reach, what has been read from the remote is, for each local socket,
  what came before it was accepted, then what was written to it, then at most the bytes of its write
  that is still pending. The remote is read only while no write is pending, so that no byte of a
  pending write is overwritten; there is always a read, a handshake or a write to wait for; and the
  number of sockets stays within the configured maximum (the first connection is always taken).
\<close>

theorem broadcast_in_order:
  assumes "session_reachable s0 s"
  shows "(\<forall>h \<in> set (m_local_sockets s). \<exists>rest.
        from_remote s = missed s (hs_socket h) @ to_local s (hs_socket h) @ rest
      \<and> (if \<exists>n. LocalWrite (hs_socket h) n \<in> set (pending s)
         then \<exists>n. LocalWrite (hs_socket h) n \<in> set (pending s) \<and> rest = take n (m_remote_data s)
         else rest = []))
    \<and> (RemoteRead \<in> set (pending s) \<longrightarrow> (\<forall>k n. LocalWrite k n \<notin> set (pending s)))
    \<and> (RemoteRead \<in> set (pending s) \<or> Handshake \<in> set (pending s) \<or> (\<exists>k n. LocalWrite k n \<in> set (pending s)))
    \<and> m_local_sockets s \<noteq> [] \<and> int (length (m_local_sockets s)) \<le> max 1 (m_max_connections s)"
proof -
  have inv: "listed s" "paced s" "streams s" using reachable_inv [OF assms] by (simp_all add: session_inv_def)
  have "filter is_head (pending s) = [] \<longleftrightarrow> lwrites (pending s) \<noteq> []"
    using inv(2) by (auto simp: paced_def split: if_splits)
  then have head: "(RemoteRead \<in> set (pending s) \<or> Handshake \<in> set (pending s)) \<longleftrightarrow> (\<forall>k n. LocalWrite k n \<notin> set (pending s))"
    using in_lwrites [of _ "pending s"] by (auto simp: filter_empty_conv is_head_def) (metis hd_in_set)
  have "\<exists>rest. from_remote s = missed s (hs_socket h) @ to_local s (hs_socket h) @ rest
      \<and> (if \<exists>n. LocalWrite (hs_socket h) n \<in> set (pending s)
         then \<exists>n. LocalWrite (hs_socket h) n \<in> set (pending s) \<and> rest = take n (m_remote_data s)
         else rest = [])" if "h \<in> set (m_local_sockets s)" for h
    using inv(3) that in_lwrites [of "hs_socket h" "pending s"] by (auto simp: streams_def)
  with head inv(1) show ?thesis by (auto simp: listed_def)
qed

theorem broadcast_in_order_witness:
  "\<exists>s. run_session [(calm, Accept 1, Accepted 8), (calm, Handshake, Completed), (calm, RemoteRead, Received ''xy''),
      (calm, LocalWrite 1 2, Completed)] (opened_session 2) = Some (None, s)
    \<and> int (length (m_local_sockets s)) \<le> max 1 (m_max_connections s) \<and> to_local s 1 = ''xy''"
proof -
  let ?es = "[(calm, Accept 1, Accepted 8), (calm, Handshake, Completed), (calm, RemoteRead, Received ''xy''),
      (calm, LocalWrite 1 2, Completed)]"
  have "map_option (map_prod id (\<lambda>s. to_local s 1)) (run_session ?es (opened_session 2)) = Some (None, ''xy'')" by code_simp
  then obtain s where s: "run_session ?es (opened_session 2) = Some (None, s)" "to_local s 1 = ''xy''" by auto
  then show ?thesis
    using broadcast_in_order [OF run_reachable [OF s(1) opened_session_reachable]] by blast
qed



text \<open>
  All local connections read into the same buffer. With two connections there is a course in
  which the first program sends A and the second B, both writes to the remote complete, and the
  remote has received B twice.
\<close>

theorem shared_buffer_mixes:
  "\<exists>s0 s. m_max_connections s0 = 2 \<and> session_reachable s0 s \<and> (\<forall>i n. RemoteWrite i n \<notin> set (pending s))
     \<and> from_local s = ''AB'' \<and> to_remote s = ''BB''"
proof -
  let ?es = "[(calm, Accept 1, Accepted 8), (calm, LocalRead Raw first_socket, Received ''A''),
     (calm, LocalRead Raw second_socket, Received ''B''), (calm, RemoteWrite 1 1, Completed), (calm, RemoteWrite 2 1, Completed)]"
  have "map_option (map_prod id (\<lambda>s. (from_local s, to_remote s, pending s))) (run_session ?es (opened_session 2))
     = Some (None, ''AB'', ''BB'', [DeadlineWait, Handshake, Accept 2, LocalRead Shared first_socket, LocalRead Shared second_socket])"
    by code_simp
  then obtain s where s: "run_session ?es (opened_session 2) = Some (None, s)" "from_local s = ''AB''" "to_remote s = ''BB''"
    "pending s = [DeadlineWait, Handshake, Accept 2, LocalRead Shared first_socket, LocalRead Shared second_socket]" by auto
  have "m_max_connections (sample_session 2) = 2" by (simp add: sample_session_def)
  moreover have "session_reachable (sample_session 2) s" by (rule run_reachable [OF s(1) opened_session_reachable])
  ultimately show ?thesis using s(2-4) by (intro exI [of _ "sample_session 2"] exI [of _ s]) simp
qed

text \<open>
  A failed write leaves a dangling pointer. With two connections there is a course in which the
  write of remote data to the second program fails, its \<^verbatim>\<open>LocalHostSocket\<close> is erased, and the read
  that is still pending on the closed socket then calls its handler through the raw pointer.
\<close>

theorem failed_write_dangles:
  "\<exists>s0 s env h. session_reachable s0 s \<and> LocalRead Raw h \<in> set (pending s) \<and> h \<notin> set (m_local_sockets s)
     \<and> possible (LocalRead Raw h) (Failed operation_aborted) s
     \<and> complete env (LocalRead Raw h) (Failed operation_aborted) s = None"
proof -
  let ?es = "[(calm, Accept 1, Accepted 8), (calm, Handshake, Completed), (calm, RemoteRead, Received ''x''),
     (calm, LocalWrite 1 1, Failed (other_error ''connection reset''))]"
  have "map_option (map_prod id (\<lambda>s. (m_local_sockets s, LocalRead Raw second_socket \<in> set (pending s))))
     (run_session ?es (opened_session 2)) = Some (None, [first_socket], True)" by code_simp
  then obtain s where s: "run_session ?es (opened_session 2) = Some (None, s)" "m_local_sockets s = [first_socket]"
    "LocalRead Raw second_socket \<in> set (pending s)" by auto
  have "complete calm (LocalRead Raw second_socket) (Failed operation_aborted) s = None"
    using s(2) by (simp add: complete_def arrive_def dispatch_def)
  moreover have "session_reachable (sample_session 2) s" by (rule run_reachable [OF s(1) opened_session_reachable])
  ultimately show ?thesis using s(2,3)
    by (intro exI [of _ "sample_session 2"] exI [of _ s] exI [of _ calm] exI [of _ second_socket]) simp
qed

end
