(* ===== verification/HostThreads.thy ===== *)
theory HostThreads
  imports Thread LocalHost RemoteHost
begin

text \<open>
  The threads of a client and of a host: \<^verbatim>\<open>LocalHost::threadproc\<close> of \<^verbatim>\<open>src/src/localclient.cpp\<close> around
  the sessions of \<^verbatim>\<open>LocalHost.thy\<close>, and \<^verbatim>\<open>RemoteProxyHost::threadproc\<close> of \<^verbatim>\<open>src/src/remoteclient.cpp\<close>
  around the handlers of \<^verbatim>\<open>RemoteHost.thy\<close>. The calls that block in the operating system are arguments:
  each gives its outcome and the time it returns.
\<close>

section \<open>The thread of a client\<close>

record local_thread =
  lt_session :: session
  lt_proxy_endpoints :: "RemoteEndpoint list"
  lt_proxy_index :: nat
  lt_logged :: "exn list"

text \<open>
  \<open>w_bind\<close> is the exception of opening the acceptor, \<open>w_accept\<close> the blocking accept with the native
  handle, \<open>w_index\<close> the random number below a bound, \<open>w_connect\<close> the connection to the remote proxy and
  \<open>w_run\<close> the operations that complete while the \<^verbatim>\<open>io_service\<close> runs, with the time it returns.
\<close>

record local_world =
  w_env :: "int \<Rightarrow> surroundings"
  w_bind :: "int \<Rightarrow> exn option"
  w_accept :: "int \<Rightarrow> (exn + int) \<times> int"
  w_index :: "int \<Rightarrow> nat \<Rightarrow> nat"
  w_connect :: "local_thread \<Rightarrow> int \<Rightarrow> exn option \<times> int"
  w_run :: "local_thread \<Rightarrow> int \<Rightarrow> (surroundings \<times> async_op \<times> result) list \<times> int"

definition on_session :: "(session \<Rightarrow> session) \<Rightarrow> local_thread \<Rightarrow> local_thread" where
  "on_session f s = s\<lparr>lt_session := f (lt_session s)\<rparr>"

definition log_thread :: "exn option \<Rightarrow> local_thread \<Rightarrow> local_thread" where
  "log_thread e s = (case e of None \<Rightarrow> s | Some e \<Rightarrow> s\<lparr>lt_logged := lt_logged s @ [e]\<rparr>)"

text \<open>\<^verbatim>\<open>go_out\<close>: an exception is logged and passed on only when no local socket is left.\<close>

definition go_out_close :: "exn option \<Rightarrow> local_thread \<Rightarrow> exn option \<times> local_thread" where
  "go_out_close e s =
     (case go_out_end e (lt_session s) of (r, t) \<Rightarrow> (r, (log_thread e s)\<lparr>lt_session := t\<rparr>))"

definition go_out :: "local_world \<Rightarrow> local_thread \<Rightarrow> int \<Rightarrow> (exn option \<times> local_thread \<times> int) option" where
  "go_out w s now =
     (case w_connect w s now of (connected, now) \<Rightarrow>
        Option.bind (go_out_begin (w_env w now) connected (lt_session s)) (\<lambda>(e, t).
          let s = s\<lparr>lt_session := t\<rparr> in
          if e \<noteq> None then (case go_out_close e s of (r, s) \<Rightarrow> Some (r, s, now))
          else
            case w_run w s now of (completions, now) \<Rightarrow>
              Option.bind (run_session completions t) (\<lambda>(e, t).
                case go_out_close e (s\<lparr>lt_session := t\<rparr>) of (r, s) \<Rightarrow> Some (r, s, now))))"

definition pick_proxy :: "local_world \<Rightarrow> int \<Rightarrow> local_thread \<Rightarrow> local_thread" where
  "pick_proxy w now s =
     s\<lparr>lt_proxy_index := (if lt_proxy_endpoints s = [] then 0 else w_index w now (length (lt_proxy_endpoints s)))\<rparr>"

text \<open>The inner loop: the result is the exception that leaves it, if there is one.\<close>

partial_function (option) reconnect_loop ::
    "local_world \<Rightarrow> int option \<Rightarrow> local_thread \<Rightarrow> int \<Rightarrow> (exn option \<times> local_thread \<times> int) option" where
  "reconnect_loop w stop s now =
     Option.bind (go_out w (pick_proxy w now s) now) (\<lambda>(e, s, now).
       if e \<noteq> None then Some (e, s, now)
       else case sleep stop now 5000 of (interrupted, now) \<Rightarrow>
         if interrupted then Some (Some interrupt_exception, s, now)
         else if \<not> m_auto_reconnect (lt_session s) then Some (None, s, now)
         else if is_stopped stop now then Some (Some interrupt_exception, s, now)
         else if m_local_sockets (lt_session s) = [] \<or> \<not> is_local_connected (lt_session s) then Some (None, s, now)
         else reconnect_loop w stop s now)"

text \<open>
  The scopes of a round end with \<^verbatim>\<open>interrupt\<close> and \<^verbatim>\<open>cleanup\<close>, and with the end of the \<^verbatim>\<open>io_service\<close> and its
  pending operations. The history of the bytes starts anew with every round.
\<close>

definition leave_round :: "session \<Rightarrow> session option" where
  "leave_round s =
     (case local_interrupt s of
        None \<Rightarrow> None
      | Some _ \<Rightarrow> Some ((local_cleanup s)\<lparr>mp_io_service := False, pending := [], from_remote := [],
          to_local := (\<lambda>_. []), missed := (\<lambda>_. []), from_local := [], to_remote := []\<rparr>))"

text \<open>The end of the loop body, which only the interrupt exception skips.\<close>

definition round_done :: "exn option \<Rightarrow> local_thread \<Rightarrow> int \<Rightarrow> bool \<times> local_thread \<times> int" where
  "round_done e s now =
     (if e = Some interrupt_exception then (True, s, now)
      else (False, on_session (m_local_connected_update (\<lambda>_. False)) (log_thread e s), now))"

definition local_round :: "local_world \<Rightarrow> int option \<Rightarrow> local_thread round" where
  "local_round w stop s now =
     (case w_bind w now of
        Some e \<Rightarrow> Some (round_done (Some e) s now)
      | None \<Rightarrow>
          (case w_accept w now of
             (Inl e, now) \<Rightarrow>
               Option.bind (leave_round ((lt_session s)\<lparr>mp_io_service := True, mp_acceptor := True\<rparr>)) (\<lambda>t.
                 Some (round_done (Some e) (s\<lparr>lt_session := t\<rparr>) now))
           | (Inr h, now) \<Rightarrow>
               Option.bind (reconnect_loop w stop (on_session (threadproc_accepted h) s) now) (\<lambda>(e, s, now).
                 Option.bind (leave_round (lt_session s)) (\<lambda>t. Some (round_done e (s\<lparr>lt_session := t\<rparr>) now)))))"

definition local_host_threadproc ::
    "local_world \<Rightarrow> int option \<Rightarrow> local_thread \<Rightarrow> int \<Rightarrow> (local_thread \<times> int) option" where
  "local_host_threadproc w stop s now = worker_loop stop (local_round w stop) 1500 s now"

section \<open>The thread of a host\<close>

record host_thread =
  ht_host :: remote_host
  ht_open :: bool
  ht_accepting :: bool
  ht_io_stopped :: bool
  ht_deadline :: "int option"
  ht_logged :: "exn list"

definition host_interrupt :: "host_thread \<Rightarrow> host_thread" where
  "host_interrupt s = s\<lparr>ht_io_stopped := True\<rparr>"

definition host_unlock :: "host_thread \<Rightarrow> host_thread" where
  "host_unlock s = s\<lparr>ht_open := False, ht_accepting := False\<rparr>"

definition host_log :: "exn \<Rightarrow> host_thread \<Rightarrow> host_thread" where
  "host_log e s = s\<lparr>ht_logged := ht_logged s @ [e]\<rparr>"

text \<open>
  \<^verbatim>\<open>start\<close> opens and binds the acceptor before the thread runs; \<open>bound\<close> is the exception of a port that
  is in use. An acceptor that is open cannot be opened again.
\<close>

definition host_begin :: "exn option \<Rightarrow> host_thread \<Rightarrow> exn + host_thread" where
  "host_begin bound s =
     (if ht_open s then Inl (asio_error ''already open'')
      else case bound of Some e \<Rightarrow> Inl e | None \<Rightarrow> Inr (s\<lparr>ht_open := True\<rparr>))"

type_synonym host_run = "host_thread \<Rightarrow> int \<Rightarrow> exn option \<times> host_thread \<times> int"

definition host_round :: "host_run \<Rightarrow> host_thread round" where
  "host_round run s now =
     (case run (s\<lparr>ht_deadline := Some (now + 5000)\<rparr>) now of (e, s, now) \<Rightarrow>
        let s = s\<lparr>ht_deadline := None\<rparr> in
        (case e of
           None \<Rightarrow> Some (False, s, now)
         | Some interrupt_exception \<Rightarrow> Some (True, s, now)
         | Some e \<Rightarrow> Some (False, host_log e s, now)))"

text \<open>\<open>listen\<close> is the exception of \<^verbatim>\<open>listen\<close>; only after it is the acceptor closed at the end.\<close>

definition host_threadproc ::
    "exn option \<Rightarrow> host_run \<Rightarrow> int option \<Rightarrow> host_thread \<Rightarrow> int \<Rightarrow> (host_thread \<times> int) option" where
  "host_threadproc listen run stop s now =
     (case listen of
        Some e \<Rightarrow> Some (host_log e s, now)
      | None \<Rightarrow>
          Option.bind (worker_loop stop (host_round run) 1000 (s\<lparr>ht_accepting := True\<rparr>) now) (\<lambda>(s, now).
            Some (host_unlock s, now)))"

section \<open>Blocking calls\<close>

text \<open>
  What the operating system promises of a call that blocks in a thread stopped at \<open>stop\<close>: it returns,
  and within \<open>delay\<close> of the stop when that comes first, because the interrupt function has shut the
  sockets down or stopped the \<^verbatim>\<open>io_service\<close>.
\<close>

definition prompt_call :: "int \<Rightarrow> int \<Rightarrow> int \<Rightarrow> int \<Rightarrow> bool" where
  "prompt_call stop delay now now' \<longleftrightarrow> now \<le> now' \<and> now' \<le> max now stop + delay"

text \<open>What the completions of a session leave as it is.\<close>

definition kept :: "session \<Rightarrow> session \<Rightarrow> bool" where
  "kept s s' \<longleftrightarrow> mp_acceptor s' = mp_acceptor s
     \<and> (length (m_remote_data s) = 1025 \<longrightarrow> length (m_remote_data s') = 1025)"

lemma kept_refl [simp]: "kept s s"
  by (simp add: kept_def)

lemma kept_trans: "kept s t \<Longrightarrow> kept t u \<Longrightarrow> kept s u"
  by (simp add: kept_def)

lemma handler_kept:
  "handle_local_read env h er n s = Some (e, s') \<Longrightarrow> kept s s'"
  "handle_local_write env sk er s = Some (e, s') \<Longrightarrow> kept s s'"
  "handle_remote_write i er s = Some (e, s') \<Longrightarrow> kept s s'"
  "handle_accept sk er s = Some (e, s') \<Longrightarrow> kept s s'"
  "check_deadline env er s = Some (e, s') \<Longrightarrow> kept s s'"
  "handle_handshake env er s = Some (e, s') \<Longrightarrow> kept s s'"
  by (auto simp: handle_local_read_def handle_local_write_def handle_remote_write_def handle_accept_def
        check_deadline_def handle_handshake_def kept_def Let_def record_ops remove_socket_def finish_def throw_def
      split: option.splits if_splits prod.splits)

lemma foldl_start_op:
  "mp_acceptor (foldl (\<lambda>s h. start_op (f h) s) s hs) = mp_acceptor s"
  "m_remote_data (foldl (\<lambda>s h. start_op (f h) s) s hs) = m_remote_data s"
  by (induction hs arbitrary: s) (simp_all add: start_op_def)

lemma remote_read_kept: "handle_remote_read env er n s = Some (e, s') \<Longrightarrow> kept s s'"
  by (auto simp: handle_remote_read_def kept_def Let_def expires_from_now_def finish_def throw_def foldl_start_op
      split: option.splits if_splits)

lemma arrive_kept: "possible op r s \<Longrightarrow> kept s (arrive op r s)"
  by (auto simp: arrive_def kept_def split: async_op.splits result.splits)

lemma dispatch_kept: "dispatch env op r s = Some (e, s') \<Longrightarrow> kept s s'"
  by (cases op) (auto simp: dispatch_def split: if_splits intro: handler_kept remote_read_kept)

lemma complete_kept: "possible op r s \<Longrightarrow> complete env op r s = Some (e, s') \<Longrightarrow> kept s s'"
proof -
  assume p: "possible op r s" and c: "complete env op r s = Some (e, s')"
  let ?s = "s\<lparr>pending := remove1 op (pending s)\<rparr>"
  have "possible op r ?s"
    using p by (cases "(op, r, s)" rule: possible.cases) auto
  then have "kept ?s (arrive op r ?s)"
    by (rule arrive_kept)
  moreover have "kept s ?s"
    by (simp add: kept_def)
  ultimately show "kept s s'"
    using c dispatch_kept unfolding complete_def by (meson kept_trans)
qed

lemma run_session_kept: "run_session es s = Some (e, s') \<Longrightarrow> kept s s'"
proof (induction es s rule: run_session.induct)
  case (2 env op r es s)
  show ?case
  proof (cases "op \<in> set (pending s) \<and> possible op r s")
    case True
    obtain e1 t where t: "complete env op r s = Some (e1, t)"
      using 2(2) True by (cases "complete env op r s") auto
    have "kept s t"
      using complete_kept True t by blast
    then show ?thesis
      using 2 True t by (cases e1) (auto intro: kept_trans)
  next
    case False
    then show ?thesis
      using 2(2) by (auto simp: throw_def)
  qed
qed simp

lemma go_out_end_kept:
  "kept s (snd (go_out_end e s)) \<and> \<not> mp_remote_socket (snd (go_out_end e s)) \<and> m_pdeadline (snd (go_out_end e s)) = None"
  by (auto simp: go_out_end_def kept_def Let_def)

lemma go_out_begin_cases:
  obtains t where "go_out_begin env c s = Some (c, t)" "kept s t"
  by (cases c) (auto simp: go_out_begin_def kept_def Let_def record_ops finish_def throw_def)

lemma go_out_close_session: "lt_session (snd (go_out_close e s)) = snd (go_out_end e (lt_session s))"
  by (simp add: go_out_close_def split: prod.splits)

text \<open>
  The environment of a client's thread that is stopped at \<open>stop\<close>. The behaviour of every handler is
  assumed to be defined.
\<close>

locale prompt_local_world =
  fixes w :: local_world and stop delay :: int
  assumes accept_prompt: "prompt_call stop delay now (snd (w_accept w now))"
    and connect_prompt: "prompt_call stop delay now (snd (w_connect w s now))"
    and run_prompt: "prompt_call stop delay now (snd (w_run w s now))"
    and run_defined: "run_session (fst (w_run w s now)) (lt_session s) \<noteq> None"
begin

lemma delay_nonneg: "0 \<le> delay"
  using accept_prompt [of stop] by (simp add: prompt_call_def)

lemma go_out_prompt:
  "\<exists>e s' now'. go_out w s now = Some (e, s', now') \<and> now \<le> now' \<and> now' \<le> max now stop + 2 * delay
     \<and> kept (lt_session s) (lt_session s') \<and> \<not> mp_remote_socket (lt_session s') \<and> m_pdeadline (lt_session s') = None"
proof -
  obtain c now1 where c: "w_connect w s now = (c, now1)"
    by (metis prod.exhaust)
  then have n1: "now \<le> now1" "now1 \<le> max now stop + delay"
    using connect_prompt [of now s] by (auto simp: prompt_call_def)
  obtain t where t: "go_out_begin (w_env w now1) c (lt_session s) = Some (c, t)" and kt: "kept (lt_session s) t"
    by (rule go_out_begin_cases)
  let ?s = "s\<lparr>lt_session := t\<rparr>"
  obtain es now2 where r: "w_run w ?s now1 = (es, now2)"
    by (metis prod.exhaust)
  then have n2: "now1 \<le> now2" "now2 \<le> max now stop + 2 * delay"
    using run_prompt [of now1 ?s] n1 delay_nonneg by (auto simp: prompt_call_def)
  obtain e u where u: "run_session es t = Some (e, u)"
    using run_defined [of ?s now1] r by auto
  have ku: "kept (lt_session s) u"
    using kt run_session_kept [OF u] kept_trans by blast
  let ?f = "if c = None then (e, s\<lparr>lt_session := u\<rparr>, now2) else (c, ?s, now1)"
  have g: "go_out w s now = (case ?f of (e, s, now) \<Rightarrow> case go_out_close e s of (r, s) \<Rightarrow> Some (r, s, now))"
    using c t r u by (auto simp: go_out_def Let_def split: prod.splits)
  then show ?thesis
    using n1 n2 kt ku delay_nonneg go_out_end_kept [of u e] go_out_end_kept [of t c]
    by (auto intro: kept_trans simp: go_out_close_def split: prod.splits if_splits)
qed

lemma reconnect_loop_ends:
  "\<exists>e s' now'. reconnect_loop w (Some stop) s now = Some (e, s', now') \<and>
     now \<le> now' \<and> now' \<le> max now stop + 2 * delay + 5000
     \<and> kept (lt_session s) (lt_session s') \<and> \<not> mp_remote_socket (lt_session s') \<and> m_pdeadline (lt_session s') = None"
proof (induction "nat (stop - now)" arbitrary: s now rule: less_induct)
  case less
  have pick: "lt_session (pick_proxy w now s) = lt_session s"
    by (simp add: pick_proxy_def)
  obtain e s1 now1 where g: "go_out w (pick_proxy w now s) now = Some (e, s1, now1)"
      and n: "now \<le> now1" "now1 \<le> max now stop + 2 * delay"
      and k: "kept (lt_session s) (lt_session s1)" "\<not> mp_remote_socket (lt_session s1)" "m_pdeadline (lt_session s1) = None"
    using go_out_prompt [of "pick_proxy w now s" now] pick by auto
  obtain i now2 where sl: "sleep (Some stop) now1 5000 = (i, now2)"
    by (metis prod.exhaust)
  have n2: "now1 \<le> now2" "now2 \<le> max now stop + 2 * delay + 5000"
    using sleep_forward(1) [of now1 "Some stop" 5000] sleep_forward(2) [of 5000 "Some stop" now1] sl n by simp_all
  show ?case
  proof (cases "e = None \<and> \<not> i \<and> now2 < stop")
    case True
    then have "now2 = now1 + 5000"
      using sleep_flag [of 5000 "Some stop" now1] sl by simp
    then have "nat (stop - now2) < nat (stop - now)"
      using n True by simp
    from less [OF this, of s1] obtain e' s' now' where r: "reconnect_loop w (Some stop) s1 now2 = Some (e', s', now')"
        "now2 \<le> now'" "now' \<le> max now2 stop + 2 * delay + 5000" "kept (lt_session s1) (lt_session s')"
        "\<not> mp_remote_socket (lt_session s')" "m_pdeadline (lt_session s') = None"
      by blast
    then show ?thesis
      using True n n2 delay_nonneg k kept_trans [OF k(1) r(4)]
      by (subst reconnect_loop.simps) (auto simp: g sl)
  next
    case False
    then show ?thesis
      using n n2 k delay_nonneg by (subst reconnect_loop.simps) (auto simp: g sl)
  qed
qed

end

text \<open>
  A client at rest holds no socket and no operation, and none of the pointers other threads use to
  interrupt it is left dangling.
\<close>

definition resting :: "local_thread \<Rightarrow> bool" where
  "resting s \<longleftrightarrow> (let t = lt_session s in idle t \<and> \<not> mp_acceptor t \<and> \<not> mp_io_service t
     \<and> \<not> mp_remote_socket t \<and> m_pdeadline t = None)"

lemma log_thread_session [simp]: "lt_session (log_thread e s) = lt_session s"
  by (simp add: log_thread_def split: option.splits)

lemma round_done_simps [simp]:
  "snd (snd (round_done e s now)) = now" "resting (fst (snd (round_done e s now))) = resting s"
  by (auto simp: round_done_def resting_def on_session_def idle_def Let_def)

lemma leave_round_Some:
  "mp_acceptor t \<Longrightarrow> \<exists>u. leave_round t = Some u \<and> (length (m_remote_data t) = 1025 \<longrightarrow> \<not> mp_remote_socket t \<longrightarrow>
     m_pdeadline t = None \<longrightarrow> resting (s\<lparr>lt_session := u\<rparr>))"
  by (simp add: leave_round_def local_interrupt_def local_cleanup_def resting_def idle_def Let_def)

lemma restingD: "resting s \<Longrightarrow> length (m_remote_data (lt_session s)) = 1025"
  "resting s \<Longrightarrow> \<not> mp_remote_socket (lt_session s) \<and> m_pdeadline (lt_session s) = None"
  by (auto simp: resting_def idle_def Let_def)

context prompt_local_world
begin

lemma local_round_prompt:
  assumes "now < stop"
  shows "\<exists>r. local_round w (Some stop) s now = Some r \<and> now \<le> snd (snd r)
     \<and> snd (snd r) \<le> stop + (3 * delay + 5000) \<and> (resting s \<longrightarrow> resting (fst (snd r)))"
proof (cases "w_bind w now")
  case (Some e)
  then show ?thesis
    using assms delay_nonneg by (auto simp: local_round_def)
next
  case None
  obtain a now1 where a: "w_accept w now = (a, now1)"
    by (metis prod.exhaust)
  then have n1: "now \<le> now1" "now1 \<le> stop + delay"
    using accept_prompt [of now] assms by (auto simp: prompt_call_def)
  show ?thesis
  proof (cases a)
    case (Inl e)
    let ?t = "(lt_session s)\<lparr>mp_io_service := True, mp_acceptor := True\<rparr>"
    obtain u where "leave_round ?t = Some u" "resting s \<Longrightarrow> resting (s\<lparr>lt_session := u\<rparr>)"
      using leave_round_Some [of ?t s] restingD [of s] by (cases "resting s") auto
    then show ?thesis
      using None a Inl n1 delay_nonneg by (auto simp: local_round_def)
  next
    case (Inr h)
    let ?s = "on_session (threadproc_accepted h) s"
    obtain e s2 now2 where l: "reconnect_loop w (Some stop) ?s now1 = Some (e, s2, now2)"
        "now1 \<le> now2" "now2 \<le> max now1 stop + 2 * delay + 5000"
        and k: "kept (lt_session ?s) (lt_session s2)" "\<not> mp_remote_socket (lt_session s2)" "m_pdeadline (lt_session s2) = None"
      using reconnect_loop_ends [of ?s now1] by blast
    have acc: "mp_acceptor (lt_session ?s)" "m_remote_data (lt_session ?s) = m_remote_data (lt_session s)"
      by (simp_all add: on_session_def threadproc_accepted_def Let_def start_op_def)
    then have "mp_acceptor (lt_session s2)" "resting s \<Longrightarrow> length (m_remote_data (lt_session s2)) = 1025"
      using k(1) restingD(1) by (auto simp: kept_def)
    then obtain u where "leave_round (lt_session s2) = Some u" "resting s \<Longrightarrow> resting (s2\<lparr>lt_session := u\<rparr>)"
      using k(2,3) leave_round_Some [of "lt_session s2" s2] by auto
    then show ?thesis
      using None a Inr n1 l delay_nonneg by (auto simp: local_round_def)
  qed
qed

end

sublocale prompt_local_world \<subseteq> thread: prompt_round resting stop "local_round w (Some stop)" 1500 "3 * delay + 5000"
proof
  fix now s
  assume "resting s" "now < stop"
  with local_round_prompt [OF this(2), of s]
  show "\<exists>interrupted s' now'. local_round w (Some stop) s now = Some (interrupted, s', now') \<and> resting s' \<and>
      now \<le> now' \<and> now' \<le> stop + (3 * delay + 5000) \<and> (\<not> interrupted \<longrightarrow> now < now' + 1500)"
    by fastforce
qed (use delay_nonneg in auto)

context prompt_local_world
begin

lemma ends_at_rest:
  "resting s \<Longrightarrow> \<exists>s' e. local_host_threadproc w (Some stop) s now = Some (s', e) \<and>
           e \<le> max now (stop + 3 * delay + 6500) \<and> resting s'"
  using thread.ends [of s now] by (auto simp: local_host_threadproc_def)

end

lemma host_round_time:
  "host_round run s now = Some (i, s', now') \<Longrightarrow>
     (\<exists>e t. run (s\<lparr>ht_deadline := Some (now + 5000)\<rparr>) now = (e, t, now') \<and> (i \<longleftrightarrow> e = Some interrupt_exception)
        \<and> ht_host s' = ht_host t \<and> ht_io_stopped s' = ht_io_stopped t)"
  by (auto simp: host_round_def host_log_def Let_def split: prod.splits option.splits exn.splits)

lemma host_round_total: "\<exists>r. host_round run s now = Some r"
  by (auto simp: host_round_def Let_def split: prod.splits option.splits exn.splits)

locale prompt_host =
  fixes run :: host_run and stop delay :: int
  assumes run_prompt: "prompt_call stop delay now (snd (snd (run s now)))"

sublocale prompt_host \<subseteq> thread: prompt_round "\<lambda>_. True" stop "host_round run" 1000 delay
proof
  fix now s
  assume "now < stop"
  moreover obtain i s' now' where "host_round run s now = Some (i, s', now')"
    using host_round_total by (metis prod.exhaust)
  ultimately show "\<exists>i s' now'. host_round run s now = Some (i, s', now') \<and> True \<and> now \<le> now' \<and> now' \<le> stop + delay
      \<and> (\<not> i \<longrightarrow> now < now' + 1000)"
    using host_round_time [of run s now i s' now'] run_prompt [of now "s\<lparr>ht_deadline := Some (now + 5000)\<rparr>"]
    by (auto simp: prompt_call_def)
next
  show "0 \<le> delay"
    using run_prompt [of stop undefined] by (simp add: prompt_call_def)
qed simp

context prompt_host
begin

lemma host_ends:
  "\<exists>s' e. host_threadproc None run (Some stop) s now = Some (s', e) \<and> e \<le> max now (stop + delay + 1000)
     \<and> \<not> ht_open s' \<and> \<not> ht_accepting s'"
  using thread.ends [of "s\<lparr>ht_accepting := True\<rparr>" now] by (auto simp: host_threadproc_def host_unlock_def)

end

text \<open>
  The documented behaviour of a stopped \<^verbatim>\<open>io_service\<close>: it returns from every run at once. A thread
  with such a service waits for its own stop and does nothing else.
\<close>

definition still :: "remote_host \<Rightarrow> host_thread \<Rightarrow> bool" where
  "still h s \<longleftrightarrow> ht_io_stopped s \<and> ht_host s = h"

locale stopped_service = prompt_host +
  assumes stopped: "ht_io_stopped s \<Longrightarrow> run s now = (None, s, now)"
begin

lemma still_round: "still h s \<Longrightarrow> host_round run s now = Some (i, s', now') \<Longrightarrow> \<not> i \<and> still h s'"
  using host_round_time [of run s now i s' now'] by (auto simp: stopped still_def)

end

sublocale stopped_service \<subseteq> still: prompt_round "still h" stop "host_round run" 1000 delay for h
proof
  fix now s
  assume "still h s" "now < stop"
  then show "\<exists>i s' now'. host_round run s now = Some (i, s', now') \<and> still h s' \<and> now \<le> now' \<and> now' \<le> stop + delay
      \<and> (\<not> i \<longrightarrow> now < now' + 1000)"
    using thread.prompt [of now s] still_round [of h s now] by blast
qed (use thread.delay in auto)

context stopped_service
begin

lemma host_still:
  assumes "ht_io_stopped s"
  shows "\<exists>s' e. host_threadproc None run (Some stop) s now = Some (s', e) \<and> stop \<le> e \<and> ht_host s' = ht_host s"
proof -
  let ?h = "ht_host s"
  have "still ?h (s\<lparr>ht_accepting := True\<rparr>)"
    using assms by (simp add: still_def)
  from still.ends [OF this, of now] obtain s' e where
    r: "worker_loop (Some stop) (host_round run) 1000 (s\<lparr>ht_accepting := True\<rparr>) now = Some (s', e)"
    and "still ?h s'" "stop \<le> e \<or> (\<exists>t n. still ?h t \<and> host_round run t n = Some (True, s', e))"
    by blast
  moreover from this(3) have "stop \<le> e"
    using still_round by blast
  ultimately show ?thesis
    by (auto simp: host_threadproc_def host_unlock_def still_def)
qed

end

section \<open>Properties\<close>


text \<open>
  A host that is stopped closes its port. When every run of the \<^verbatim>\<open>io_service\<close> returns within
  \<open>delay\<close> of the stop, the thread of the host returns at most that delay and one second after it, and
  the acceptor is closed then, so that the port can be bound again.
\<close>

theorem host_thread_ends:
  assumes "\<And>x t. prompt_call stop delay t (snd (snd (run x t)))"
  shows "\<exists>s' e. host_threadproc None run (Some stop) s now = Some (s', e) \<and> e \<le> max now (stop + delay + 1000)
     \<and> \<not> ht_open s' \<and> \<not> ht_accepting s'"
  using assms by (intro prompt_host.host_ends prompt_host.intro)

text \<open>
  C28: a host that was stopped and is started again accepts nobody. The interrupt stops the
  \<^verbatim>\<open>io_service\<close> and nothing resets it; a stopped service returns from every run at once. So starting
  the host again succeeds, and its thread runs until it is stopped, but no connection is ever added:
  nothing of the host changes.
\<close>

theorem restarted_host_deaf:
  assumes stopped: "\<And>x t. ht_io_stopped x \<Longrightarrow> run x t = (None, x, t)"
    and prompt: "\<And>x t. prompt_call stop delay t (snd (snd (run x t)))"
  shows "\<exists>s1 s' e. host_begin None (host_unlock (host_interrupt s)) = Inr s1
     \<and> host_threadproc None run (Some stop) s1 now = Some (s', e)
     \<and> stop \<le> e \<and> ht_host s' = ht_host s"
proof -
  have "stopped_service run stop delay"
    using assms by unfold_locales
  then show ?thesis
    using stopped_service.host_still [of run stop delay "host_unlock (host_interrupt s)\<lparr>ht_open := True\<rparr>" now]
    by (simp add: host_begin_def host_unlock_def host_interrupt_def)
qed

section \<open>Concrete threads\<close>

text \<open>
  A client whose remote proxy sends nothing until its sockets are shut down ten seconds later, and a
  host that nobody connects to.
\<close>

definition quiet_world :: local_world where
  "quiet_world =
     \<lparr>w_env = (\<lambda>_. calm), w_bind = (\<lambda>_. None), w_accept = (\<lambda>t. (Inr 7, t)), w_index = (\<lambda>_ _. 0),
      w_connect = (\<lambda>_ t. (None, t)), w_run = (\<lambda>_ t. ([], max t 10000))\<rparr>"

interpretation quiet: prompt_local_world quiet_world 10000 0
  by unfold_locales (auto simp: quiet_world_def prompt_call_def)

definition resting_client :: local_thread where
  "resting_client = \<lparr>lt_session = sample_session 2, lt_proxy_endpoints = [], lt_proxy_index = 0, lt_logged = []\<rparr>"


definition quiet_run :: host_run where
  "quiet_run x t = (None, x, if ht_io_stopped x then t else max t 4000)"

interpretation quiet_host: stopped_service quiet_run 4000 0
  by unfold_locales (auto simp: quiet_run_def prompt_call_def)

definition sample_thread :: host_thread where
  "sample_thread =
     \<lparr>ht_host = RemoteProxyHost_ctor 1 12 4000 [] [] standard_plugin, ht_open = True, ht_accepting = False,
      ht_io_stopped = False, ht_deadline = None, ht_logged = []\<rparr>"

theorem host_thread_ends_witness:
  "\<exists>s' e. host_threadproc None quiet_run (Some 4000) sample_thread 0 = Some (s', e) \<and> e \<le> 5000
     \<and> \<not> ht_open s' \<and> \<not> ht_accepting s'"
  using host_thread_ends [OF quiet_host.run_prompt, where s = sample_thread and now = 0] by simp

theorem restarted_host_deaf_witness:
  "\<exists>s1 s' e. host_begin None (host_unlock (host_interrupt sample_thread)) = Inr s1
     \<and> host_threadproc None quiet_run (Some 4000) s1 0 = Some (s', e)
     \<and> 4000 \<le> e \<and> rh_clients (ht_host s') = []"
proof -
  from restarted_host_deaf [OF quiet_host.stopped quiet_host.run_prompt, where s = sample_thread and now = 0]
  show ?thesis
    by (auto simp: sample_thread_def RemoteProxyHost_ctor_def)
qed

end
