(* ===== verification/ProviderThread.thy ===== *)
theory ProviderThread
  imports Provider HostThreads
begin

text \<open>
  The threads of a provider, \<^verbatim>\<open>threadproc_reader\<close> and the connection of \<^verbatim>\<open>threadproc_writer\<close> of
  \<^verbatim>\<open>src/src/providerclient.cpp\<close>. The calls that block are arguments with the time they return, as in
  \<^verbatim>\<open>HostThreads.thy\<close>; the steps of the writer on the buffer are those of \<^verbatim>\<open>Provider.thy\<close>.
\<close>

section \<open>State and environment\<close>

record provider_client =
  pc_local_endpoints :: "LocalEndpoint list"
  pc_proxy_endpoints :: "RemoteEndpoint list"
  pc_use_buffer :: bool
  pc_local_index :: nat
  pc_proxy_index :: nat
  pc_timeout :: int
  pc_thread_write :: thread
  pc_state :: provider
  pc_logged :: "exn list"

text \<open>
  \<open>pw_available\<close> is \<^verbatim>\<open>certificate_available\<close>, \<open>pw_order\<close> the shuffled indices. \<open>pw_reads\<close> are the reads of a
  connection until one raises: the data, the result of the write of what the filter makes of it, and
  the steady clock.
\<close>

type_synonym read_pass = "string \<times> (string \<Rightarrow> exn + nat) \<times> nat"

record provider_world =
  pw_available :: "int \<Rightarrow> string \<Rightarrow> bool"
  pw_local :: "LocalEndpoint \<Rightarrow> int \<Rightarrow> exn option \<times> int"
  pw_order :: "int \<Rightarrow> nat list"
  pw_remote :: "RemoteEndpoint \<Rightarrow> int \<Rightarrow> exn option \<times> int"
  pw_handshake :: "int \<Rightarrow> exn option \<times> int"
  pw_reads :: "int \<Rightarrow> read_pass list \<times> exn \<times> int"

definition log_provider :: "exn \<Rightarrow> provider_client \<Rightarrow> provider_client" where
  "log_provider e c = c\<lparr>pc_logged := pc_logged c @ [e]\<rparr>"

section \<open>Connections\<close>

text \<open>
  The loop of \<^verbatim>\<open>connect_remote\<close>: an end point without a certificate is skipped, a failure is logged. The
  result is the interrupt of the thread, whether a connection was made, the last index and the time.
\<close>

fun remote_attempts ::
    "provider_world \<Rightarrow> int option \<Rightarrow> RemoteEndpoint list \<Rightarrow> nat list \<Rightarrow> nat \<Rightarrow> int \<Rightarrow> exn option \<times> bool \<times> nat \<times> int" where
  "remote_attempts W stop eps [] idx now = (None, False, idx, now)"
| "remote_attempts W stop eps (i # is) idx now =
     (if is_stopped stop now then (Some interrupt_exception, False, idx, now)
      else if pw_available W now (re_name (eps ! i)) then
        (case pw_remote W (eps ! i) now of (failed, now) \<Rightarrow>
           if failed = None then (None, True, i, now) else remote_attempts W stop eps is i now)
      else remote_attempts W stop eps is i now)"

definition connect_remote ::
    "provider_world \<Rightarrow> int option \<Rightarrow> provider_client \<Rightarrow> int \<Rightarrow> exn option \<times> provider_client \<times> int" where
  "connect_remote W stop c now =
     (case remote_attempts W stop (pc_proxy_endpoints c) (pw_order W now) (pc_proxy_index c) now of
        (interrupted, connected, i, now) \<Rightarrow>
          let c = c\<lparr>pc_proxy_index := i\<rparr> in
          if interrupted \<noteq> None then (interrupted, c, now)
          else if \<not> connected
          then (Some (system_error socket_invalid ''Provider failed connection to remote host''), c, now)
          else (case pw_handshake W now of (e, now) \<Rightarrow> (e, c, now)))"

fun connect_locals ::
    "(LocalEndpoint \<Rightarrow> int \<Rightarrow> exn option \<times> int) \<Rightarrow> LocalEndpoint list \<Rightarrow> nat \<Rightarrow> int \<Rightarrow> nat option \<times> int" where
  "connect_locals connect [] i now = (None, now)"
| "connect_locals connect (ep # eps) i now =
     (case connect ep now of (failed, now) \<Rightarrow>
        if failed = None then (Some i, now) else connect_locals connect eps (i + 1) now)"

section \<open>The reader\<close>

text \<open>Without a buffer every block goes through the filter and to the remote at once.\<close>

fun direct_loop :: "plugin \<Rightarrow> read_pass list \<Rightarrow> provider \<Rightarrow> exn option \<times> provider" where
  "direct_loop P [] p = (None, p)"
| "direct_loop P ((data, write_some, now) # rs) p =
     (if length data > 0 then
        (case message_filter_local2remote P data of (pass, buffer) \<Rightarrow>
           if pass then
             (case write_some buffer of
                Inl e \<Rightarrow> (Some e, p)
              | Inr n \<Rightarrow> direct_loop P rs (p\<lparr>pv_sent := pv_sent p @ [take n buffer],
                  pv_count_out := data_flow_add now (of_nat n) (pv_count_out p)\<rparr>))
           else direct_loop P rs p)
      else direct_loop P rs p)"

definition buffered_loop :: "read_pass list \<Rightarrow> provider \<Rightarrow> provider" where
  "buffered_loop rs p = foldl (\<lambda>p (data, _, _). if length data > 0 then store_block data p else p) p rs"

text \<open>The handler of a round lets the interrupt exception pass and logs every other.\<close>

definition reader_catch :: "exn \<Rightarrow> provider_client \<Rightarrow> int \<Rightarrow> (bool \<times> provider_client \<times> int) option" where
  "reader_catch e c now =
     (if e = interrupt_exception then Some (True, c, now) else Some (False, log_provider e c, now))"

definition forward_direct ::
    "plugin \<Rightarrow> provider_world \<Rightarrow> int option \<Rightarrow> provider_client \<Rightarrow> int \<Rightarrow> (bool \<times> provider_client \<times> int) option" where
  "forward_direct P W stop c now =
     (case connect_remote W stop c now of
        (Some e, c, now) \<Rightarrow> reader_catch e c now
      | (None, c, now) \<Rightarrow>
          (case pw_reads W now of (rs, e, now) \<Rightarrow>
             case direct_loop P rs (pc_state c) of (failed, p) \<Rightarrow>
               reader_catch (case failed of None \<Rightarrow> e | Some e \<Rightarrow> e) (c\<lparr>pc_state := p\<rparr>) now))"

definition forward_buffered ::
    "provider_world \<Rightarrow> provider_client \<Rightarrow> int \<Rightarrow> (bool \<times> provider_client \<times> int) option" where
  "forward_buffered W c now =
     (case thread_start (pc_thread_write c) of
        Inl e \<Rightarrow> reader_catch e c now
      | Inr th \<Rightarrow>
          (case pw_reads W now of (rs, e, now) \<Rightarrow>
             reader_catch e (c\<lparr>pc_thread_write := th, pc_state := buffered_loop rs (pc_state c)\<rparr>) now))"

definition reader_round :: "plugin \<Rightarrow> provider_world \<Rightarrow> int option \<Rightarrow> provider_client round" where
  "reader_round P W stop c now =
     (let c = (if pc_timeout c < 60000 then c\<lparr>pc_timeout := pc_timeout c + 5000\<rparr> else c) in
      case sleep stop now (pc_timeout c) of (interrupted, now) \<Rightarrow>
        if interrupted then Some (True, c, now)
        else if \<not> list_ex (\<lambda>ep. pw_available W now (re_name ep)) (pc_proxy_endpoints c) then Some (False, c, now)
        else
          let c = c\<lparr>pc_proxy_index := 0, pc_local_index := 0\<rparr> in
          case connect_locals (pw_local W) (pc_local_endpoints c) 0 now of
            (None, now) \<Rightarrow> reader_catch (system_error socket_invalid ''Provider failed connection to local host'') c now
          | (Some i, now) \<Rightarrow>
              let c = c\<lparr>pc_local_index := i\<rparr> in
              if pc_use_buffer c then forward_buffered W c now else forward_direct P W stop c now)"

definition threadproc_reader ::
    "plugin \<Rightarrow> provider_world \<Rightarrow> int option \<Rightarrow> provider_client \<Rightarrow> int \<Rightarrow> (provider_client \<times> int) option" where
  "threadproc_reader P W stop c now = worker_loop stop (reader_round P W stop) 0 (c\<lparr>pc_timeout := 5000\<rparr>) now"

text \<open>The pause of the writer, which every round raises to ten seconds at once.\<close>

function writer_timeout :: "int \<Rightarrow> int" where
  "writer_timeout timeout = (if timeout < 10000 then writer_timeout (timeout + 1000) else timeout)"
  by pat_completeness auto
termination
  by (relation "measure (\<lambda>t. nat (10000 - t))") auto

declare writer_timeout.simps [simp del]

section \<open>Start and stop\<close>

definition provider_stop :: "bool \<Rightarrow> bool \<Rightarrow> thread \<Rightarrow> provider_client \<Rightarrow> thread \<times> provider_client" where
  "provider_stop self self_write th c =
     (case thread_stop True self_write (pc_thread_write c) of (_, tw) \<Rightarrow>
      case thread_stop True self th of (_, th) \<Rightarrow> (th, c\<lparr>pc_thread_write := tw\<rparr>))"

definition local_hostname :: "provider_client \<Rightarrow> string option" where
  "local_hostname c = (if pc_local_index c < length (pc_local_endpoints c)
     then Some (le_hostname (pc_local_endpoints c ! pc_local_index c)) else None)"

definition local_hostnames :: "provider_client \<Rightarrow> string list" where
  "local_hostnames c = map le_hostname (pc_local_endpoints c)"

section \<open>Times\<close>

text \<open>At most \<open>k\<close> blocking calls lie between the two times.\<close>

definition within :: "int \<Rightarrow> int \<Rightarrow> nat \<Rightarrow> int \<Rightarrow> int \<Rightarrow> bool" where
  "within stop delay k now now' \<longleftrightarrow> now \<le> now' \<and> now' \<le> max now stop + int k * delay"

lemma within_call: "prompt_call stop delay now now' \<Longrightarrow> within stop delay 1 now now'"
  by (simp add: within_def prompt_call_def)

lemma within_trans:
  assumes "within stop delay k now now1" "within stop delay m now1 now2" "0 \<le> delay"
  shows "within stop delay (k + m) now now2"
proof -
  have "0 \<le> int k * delay" "int (k + m) * delay = int k * delay + int m * delay"
    using assms(3) by (simp_all add: algebra_simps)
  then show ?thesis
    using assms(1,2) unfolding within_def by linarith
qed

lemma within_mono: "within stop delay k now now' \<Longrightarrow> k \<le> m \<Longrightarrow> 0 \<le> delay \<Longrightarrow> within stop delay m now now'"
  using mult_right_mono [of "int k" "int m" delay] by (simp add: within_def)

lemma within_refl: "0 \<le> delay \<Longrightarrow> within stop delay k now now"
  using mult_nonneg_nonneg [of "int k" delay] unfolding within_def by linarith

locale prompt_provider =
  fixes W :: provider_world and stop delay :: int and remotes :: nat
  assumes local_prompt: "prompt_call stop delay now (snd (pw_local W ep now))"
    and remote_prompt: "prompt_call stop delay now (snd (pw_remote W rep now))"
    and handshake_prompt: "prompt_call stop delay now (snd (pw_handshake W now))"
    and reads_prompt: "prompt_call stop delay now (snd (snd (pw_reads W now)))"
    and order_length: "length (pw_order W now) \<le> remotes"
begin

lemma delay_nonneg: "0 \<le> delay"
  using handshake_prompt [of stop] by (simp add: prompt_call_def)

lemma connect_locals_prompt:
  "connect_locals (pw_local W) eps i now = (r, now') \<Longrightarrow> within stop delay (length eps) now now'"
proof (induction eps arbitrary: i now)
  case (Cons ep eps)
  obtain f now1 where f: "pw_local W ep now = (f, now1)"
    by (metis prod.exhaust)
  then have p: "within stop delay 1 now now1"
    using local_prompt [of now ep] within_call by simp
  show ?case
  proof (cases "f = None")
    case True
    then show ?thesis
      using Cons(2) f within_mono [OF p] delay_nonneg by auto
  next
    case False
    then have "within stop delay (length eps) now1 now'"
      using Cons f by auto
    then show ?thesis
      using within_trans [OF p _ delay_nonneg] by simp
  qed
qed (simp add: within_refl delay_nonneg)

lemma remote_attempts_prompt:
  "remote_attempts W (Some stop) eps is idx now = (e, b, i, now') \<Longrightarrow> within stop delay (length is) now now'"
proof (induction "is" arbitrary: idx now)
  case (Cons j js)
  obtain f now1 where f: "pw_remote W (eps ! j) now = (f, now1)"
    by (metis prod.exhaust)
  then have p: "within stop delay 1 now now1"
    using remote_prompt [of now "eps ! j"] within_call by simp
  consider "now' = now" | "now' = now1" | "within stop delay (length js) now1 now'" | "within stop delay (length js) now now'"
    using Cons(1) [of j now] Cons(1) [of j now1] Cons(2) f by (fastforce split: if_splits)
  then show ?case
  proof cases
    case 1
    then show ?thesis
      by (simp add: within_refl delay_nonneg)
  next
    case 2
    then show ?thesis
      using within_mono [OF p] delay_nonneg by simp
  next
    case 3
    then show ?thesis
      using within_trans [OF p _ delay_nonneg] by simp
  next
    case 4
    then show ?thesis
      using within_mono delay_nonneg by simp
  qed
qed (simp add: within_refl delay_nonneg)

lemma connect_remote_prompt:
  assumes "connect_remote W (Some stop) c now = (e, c', now')"
  shows "within stop delay (remotes + 1) now now'"
proof -
  obtain e1 b i now1 where r: "remote_attempts W (Some stop) (pc_proxy_endpoints c) (pw_order W now) (pc_proxy_index c) now = (e1, b, i, now1)"
    by (metis prod.exhaust)
  have n1: "within stop delay remotes now now1"
    using within_mono [OF remote_attempts_prompt [OF r] order_length delay_nonneg] .
  have "now' = now1 \<or> within stop delay 1 now1 now'"
    using assms r within_call [OF handshake_prompt, of now1]
    by (auto simp: connect_remote_def Let_def split: if_splits prod.splits)
  then show ?thesis
    using within_mono [OF n1] within_trans [OF n1 _ delay_nonneg] delay_nonneg by fastforce
qed

lemma reader_catch_Some: "\<exists>b c'. reader_catch e c now = Some (b, c', now)"
  by (auto simp: reader_catch_def)

lemma forward_direct_prompt:
  "\<exists>b c' now'. forward_direct P W (Some stop) c now = Some (b, c', now') \<and> within stop delay (remotes + 2) now now'"
proof -
  obtain e c1 now1 where r: "connect_remote W (Some stop) c now = (e, c1, now1)"
    by (metis prod.exhaust)
  note n1 = connect_remote_prompt [OF r]
  obtain rs e2 now2 where rd: "pw_reads W now1 = (rs, e2, now2)"
    by (metis prod.exhaust)
  have "within stop delay (remotes + 1 + 1) now now2"
    using within_trans [OF n1 within_call [OF reads_prompt] delay_nonneg] rd by simp
  moreover have "within stop delay (remotes + 1 + 1) now now1"
    using within_mono [OF n1] delay_nonneg by simp
  ultimately show ?thesis
    using r rd by (auto simp: forward_direct_def reader_catch_def split: option.splits prod.splits)
qed

lemma forward_buffered_prompt:
  "\<exists>b c' now'. forward_buffered W c now = Some (b, c', now') \<and> within stop delay (remotes + 2) now now'"
proof -
  obtain rs e2 now2 where rd: "pw_reads W now = (rs, e2, now2)"
    by (metis prod.exhaust)
  have "within stop delay (remotes + 2) now now2"
    using within_mono [OF within_call [OF reads_prompt [of now]]] delay_nonneg rd by simp
  moreover have "within stop delay (remotes + 2) now now"
    using within_refl delay_nonneg by blast
  ultimately show ?thesis
    using rd by (auto simp: forward_buffered_def reader_catch_def split: sum.splits)
qed

end

text \<open>The sleep of the reader is a multiple of the slice, between ten seconds and a minute.\<close>

definition reading :: "nat \<Rightarrow> provider_client \<Rightarrow> bool" where
  "reading n c \<longleftrightarrow> length (pc_local_endpoints c) = n \<and> 5000 dvd pc_timeout c \<and> 5000 \<le> pc_timeout c \<and> pc_timeout c \<le> 60000"

text \<open>What the rest of a round keeps.\<close>

definition same_setup :: "provider_client \<Rightarrow> provider_client \<Rightarrow> bool" where
  "same_setup c c' \<longleftrightarrow> pc_local_endpoints c' = pc_local_endpoints c \<and> pc_timeout c' = pc_timeout c
     \<and> pc_use_buffer c' = pc_use_buffer c"

lemma forward_setup:
  "forward_direct P W stop c now = Some (b, c', now') \<Longrightarrow> same_setup c c'"
  "forward_buffered W c now = Some (b, c', now') \<Longrightarrow> same_setup c c'"
  by (auto simp: forward_direct_def forward_buffered_def connect_remote_def reader_catch_def log_provider_def same_setup_def
        Let_def split: option.splits prod.splits sum.splits if_splits)

lemma connected_state:
  "connect_remote W stop c now = (e, c', now') \<Longrightarrow> pc_state c' = pc_state c \<and> pc_thread_write c' = pc_thread_write c"
  by (auto simp: connect_remote_def Let_def split: prod.splits if_splits)

lemma reading_next:
  "reading n c \<Longrightarrow> reading n (if pc_timeout c < 60000 then c\<lparr>pc_timeout := pc_timeout c + 5000\<rparr> else c)"
  by (auto simp: reading_def)

lemma same_setup_reading: "same_setup c c' \<Longrightarrow> reading n c' = reading n c"
  by (simp add: same_setup_def reading_def)

lemma reader_catch_setup: "reader_catch e c now = Some (b, c', now') \<Longrightarrow> same_setup c c'"
  by (auto simp: reader_catch_def log_provider_def same_setup_def split: if_splits)

context prompt_provider
begin

lemma reader_round_prompt:
  assumes "reading n c" "now < stop"
  shows "\<exists>b c' now'. reader_round P W (Some stop) c now = Some (b, c', now') \<and> reading n c'
     \<and> now \<le> now' \<and> now' \<le> stop + (5000 + int (n + remotes + 2) * delay) \<and> (\<not> b \<longrightarrow> now < now')"
proof -
  define c1 where "c1 = (if pc_timeout c < 60000 then c\<lparr>pc_timeout := pc_timeout c + 5000\<rparr> else c)"
  have c1: "reading n c1"
    using reading_next assms(1) by (simp add: c1_def)
  then have ms: "5000 \<le> pc_timeout c1" "pc_timeout c1 mod 5000 = 0"
    by (auto simp: reading_def)
  obtain caught now1 where sl: "sleep (Some stop) now (pc_timeout c1) = (caught, now1)"
    by (metis prod.exhaust)
  have b1: "now \<le> now1" "now1 \<le> stop + 5000"
    using sleep_forward(1) [of now "Some stop" "pc_timeout c1"] sleep_prompt [of "pc_timeout c1" stop now] ms sl assms(2)
    by simp_all
  have nn: "0 \<le> int (n + remotes + 2) * delay"
    using delay_nonneg by simp
  show ?thesis
  proof (cases caught)
    case True
    then show ?thesis
      using sl b1 nn c1 by (auto simp: reader_round_def simp flip: c1_def)
  next
    case False
    then have t: "now1 = now + pc_timeout c1" "now1 < stop"
      using sleep_flag [of "pc_timeout c1" "Some stop" now] sl ms by auto
    let ?c = "c1\<lparr>pc_proxy_index := 0, pc_local_index := 0\<rparr>"
    obtain i now2 where cl: "connect_locals (pw_local W) (pc_local_endpoints ?c) 0 now1 = (i, now2)"
      by (metis prod.exhaust)
    have w2: "within stop delay n now1 now2"
      using connect_locals_prompt [OF cl] c1 by (simp add: reading_def)
    let ?d = "?c\<lparr>pc_local_index := the i\<rparr>"
    let ?next = "if i = None then reader_catch (system_error socket_invalid ''Provider failed connection to local host'') ?c now2
      else if pc_use_buffer ?d then forward_buffered W ?d now2 else forward_direct P W (Some stop) ?d now2"
    obtain b c' now3 where nx: "?next = Some (b, c', now3)" and w3: "within stop delay (remotes + 2) now2 now3"
      using forward_buffered_prompt [of ?d now2] forward_direct_prompt [of P ?d now2]
        within_refl [OF delay_nonneg, of stop "remotes + 2" now2] 
      by (cases "i = None"; cases "pc_use_buffer c1") (auto simp: reader_catch_def)
    have "same_setup ?d c' \<or> same_setup ?c c'"
      using nx forward_setup(1) [of P W "Some stop" ?d now2 b c' now3] forward_setup(2) [of W ?d now2 b c' now3]
        reader_catch_setup [of _ ?c now2 b c' now3] by (simp split: if_splits)
    then have "same_setup ?c c'"
      by (auto simp: same_setup_def)
    then have r: "reading n c'"
      using c1 same_setup_reading [of ?c c' n] by (simp add: reading_def)
    have "within stop delay (n + (remotes + 2)) now1 now3"
      by (rule within_trans [OF w2 w3 delay_nonneg])
    then have "now1 \<le> now3" "now3 \<le> stop + (5000 + int (n + remotes + 2) * delay)"
      using t by (simp_all add: within_def add.assoc)
    moreover have "reader_round P W (Some stop) c now =
        (if list_ex (\<lambda>ep. pw_available W now1 (re_name ep)) (pc_proxy_endpoints c1) then ?next else Some (False, c1, now1))"
      using sl False cl by (cases i) (simp_all add: reader_round_def Let_def flip: c1_def)
    ultimately show ?thesis
      using nx r c1 t ms nn b1 by auto
  qed
qed

end

sublocale prompt_provider \<subseteq> reader: prompt_round "reading n" stop "reader_round P W (Some stop)" 0
    "5000 + int (n + remotes + 2) * delay" for n P
proof
  fix now s
  assume "reading n s" "now < stop"
  then show "\<exists>b s' now'. reader_round P W (Some stop) s now = Some (b, s', now') \<and> reading n s'
      \<and> now \<le> now' \<and> now' \<le> stop + (5000 + int (n + remotes + 2) * delay) \<and> (\<not> b \<longrightarrow> now < now' + 0)"
    using reader_round_prompt [of n s now P] by simp
qed (use delay_nonneg in simp_all)

text \<open>
  Once the writer was started it is joinable until the provider is stopped, so that a round cannot
  start it again and stores nothing.
\<close>

definition stalled :: "nat \<Rightarrow> provider \<Rightarrow> provider_client \<Rightarrow> bool" where
  "stalled n p c \<longleftrightarrow> reading n c \<and> pc_use_buffer c \<and> joinable (pc_thread_write c) \<and> pc_state c = p"

lemma buffered_stall:
  "joinable (pc_thread_write c) \<Longrightarrow> forward_buffered W c now = Some (b, c', now') \<Longrightarrow>
     pc_state c' = pc_state c \<and> pc_thread_write c' = pc_thread_write c"
  by (auto simp: forward_buffered_def thread_start_def reader_catch_def log_provider_def split: if_splits)

lemma reader_round_stall:
  assumes "joinable (pc_thread_write c)" "pc_use_buffer c" "reader_round P W stop c now = Some (b, c', now')"
  shows "pc_state c' = pc_state c \<and> pc_thread_write c' = pc_thread_write c \<and> pc_use_buffer c'"
proof -
  have f: "pc_state c' = pc_state d \<and> pc_thread_write c' = pc_thread_write d \<and> pc_use_buffer c' = pc_use_buffer d"
    if "joinable (pc_thread_write d)" "forward_buffered W d t = Some (b, c', now')" for d t
    using buffered_stall [OF that] forward_setup(2) [OF that(2)] by (simp add: same_setup_def)
  show ?thesis
    using assms
    by (auto simp: reader_round_def reader_catch_def log_provider_def Let_def dest!: f [rotated]
        split: prod.splits if_splits option.splits)
qed

text \<open>A round that has changed the buffer has started the writer.\<close>

lemma stored_joinable:
  assumes "pc_use_buffer c" "reader_round P W stop c now = Some (b, c', now')" "pc_state c' \<noteq> pc_state c"
  shows "joinable (pc_thread_write c') \<and> pc_use_buffer c'"
proof -
  have f: "(joinable (pc_thread_write c') \<or> pc_state c' = pc_state d) \<and> pc_use_buffer c' = pc_use_buffer d"
    if "forward_buffered W d t = Some (b, c', now')" for d t
    using that forward_setup(2) [OF that]
    by (auto simp: forward_buffered_def thread_start_def reader_catch_def log_provider_def joinable_def same_setup_def
        split: if_splits prod.splits)
  show ?thesis
    using assms
    by (auto simp: reader_round_def reader_catch_def log_provider_def Let_def dest!: f
        split: prod.splits if_splits option.splits)
qed

sublocale prompt_provider \<subseteq> stalled: prompt_round "stalled n p" stop "reader_round P W (Some stop)" 0
    "5000 + int (n + remotes + 2) * delay" for n p P
proof
  fix now s
  assume "stalled n p s" "now < stop"
  then show "\<exists>b s' now'. reader_round P W (Some stop) s now = Some (b, s', now') \<and> stalled n p s'
      \<and> now \<le> now' \<and> now' \<le> stop + (5000 + int (n + remotes + 2) * delay) \<and> (\<not> b \<longrightarrow> now < now' + 0)"
    using reader_round_prompt [of n s now P] reader_round_stall [of s P W "Some stop" now] by (fastforce simp: stalled_def)
qed (use delay_nonneg in simp_all)

lemma writer_timeout_bounds: "timeout \<le> 10000 \<Longrightarrow> 10000 \<le> writer_timeout timeout \<and> writer_timeout timeout < 11000"
proof (induction timeout rule: writer_timeout.induct)
  case (1 timeout)
  then show ?case
    by (subst (1 2) writer_timeout.simps) (cases "timeout + 1000 \<le> 10000", auto simp: writer_timeout.simps)
qed

context prompt_provider
begin

lemma reader_ends:
  "\<exists>c' e. threadproc_reader P W (Some stop) c now = Some (c', e)
     \<and> e \<le> max now (stop + 5000 + int (length (pc_local_endpoints c) + remotes + 2) * delay)
     \<and> 5000 \<le> pc_timeout c' \<and> pc_timeout c' \<le> 60000"
proof -
  have "reading (length (pc_local_endpoints c)) (c\<lparr>pc_timeout := 5000\<rparr>)"
    by (simp add: reading_def)
  from reader.ends [OF this, of P now] show ?thesis
    by (auto simp: threadproc_reader_def reading_def add.assoc)
qed

lemma reader_stalls:
  assumes "stalled n p c"
  shows "\<exists>c' e. worker_loop (Some stop) (reader_round P W (Some stop)) 0 c now = Some (c', e) \<and> pc_state c' = p"
  using stalled.ends [OF assms, of P now] by (auto simp: stalled_def)

end

section \<open>Properties\<close>


text \<open>
  C29: a buffering provider forwards data of its first local connection only. Once a round has stored
  anything, the writer's thread runs and is joined only when the provider is stopped; every later
  round connects to the local side, cannot start the writer again and raises \<^verbatim>\<open>thread_already_running\<close>
  before it reads. So in the rest of the thread's life nothing more is stored.
\<close>

theorem provider_never_resumes:
  assumes "\<And>ep t. prompt_call stop delay t (snd (pw_local W ep t))"
    and "\<And>ep t. prompt_call stop delay t (snd (pw_remote W ep t))"
    and "\<And>t. prompt_call stop delay t (snd (pw_handshake W t))"
    and "\<And>t. prompt_call stop delay t (snd (snd (pw_reads W t)))"
    and "\<And>t. length (pw_order W t) \<le> remotes"
    and "reader_round P W (Some stop) c0 t0 = Some (False, c, now)" and "pc_use_buffer c0"
    and "pc_state c \<noteq> pc_state c0" and "5000 dvd pc_timeout c" "5000 \<le> pc_timeout c" "pc_timeout c \<le> 60000"
  shows "\<exists>c' e. worker_loop (Some stop) (reader_round P W (Some stop)) 0 c now = Some (c', e) \<and> pc_state c' = pc_state c"
proof -
  have W: "prompt_provider W stop delay remotes"
    using assms(1-5) by unfold_locales
  have "joinable (pc_thread_write c) \<and> pc_use_buffer c"
    using stored_joinable [OF assms(7,6,8)] .
  then have "stalled (length (pc_local_endpoints c)) (pc_state c) c"
    using assms(9-) by (simp add: stalled_def reading_def)
  then show ?thesis
    by (rule prompt_provider.reader_stalls [OF W])
qed

section \<open>A concrete provider\<close>

text \<open>A source that sends a few bytes and closes; the provider is stopped after forty seconds.\<close>

definition short_world :: provider_world where
  "short_world =
     \<lparr>pw_available = (\<lambda>_ _. True), pw_local = (\<lambda>_ t. (None, t)), pw_order = (\<lambda>_. [0]), pw_remote = (\<lambda>_ t. (None, t)),
      pw_handshake = (\<lambda>t. (None, t)),
      pw_reads = (\<lambda>t. ([(''data'', \<lambda>b. Inr (length b), 0)], asio_error ''End of file'', t))\<rparr>"

interpretation short: prompt_provider short_world 40000 0 1
  by unfold_locales (auto simp: short_world_def prompt_call_def)

definition sample_provider :: provider_client where
  "sample_provider =
     \<lparr>pc_local_endpoints = [LocalEndpoint_ctor], pc_proxy_endpoints = [RemoteEndpoint_ctor], pc_use_buffer = True,
      pc_local_index = 0, pc_proxy_index = 0, pc_timeout = 5000, pc_thread_write = thread_ctor True,
      pc_state = provider_start 1000000 0, pc_logged = []\<rparr>"

lemmas short_prompt = short.local_prompt short.remote_prompt short.handshake_prompt short.reads_prompt short.order_length


definition after_first :: provider_client where
  "after_first = (case reader_round standard_plugin short_world (Some 40000) sample_provider 0 of Some (_, c, _) \<Rightarrow> c)"

lemma after_first_round:
  "reader_round standard_plugin short_world (Some 40000) sample_provider 0 = Some (False, after_first, 10000)"
  "pv_buffer (pc_state after_first) = [''data'']" "pc_timeout after_first = 10000"
proof -
  have "sleep (Some 40000) 0 10000 = (False, 10000)"
    by (simp add: sleep_undisturbed)
  then show "reader_round standard_plugin short_world (Some 40000) sample_provider 0 = Some (False, after_first, 10000)"
    "pv_buffer (pc_state after_first) = [''data'']" "pc_timeout after_first = 10000"
    by (simp_all add: after_first_def reader_round_def sample_provider_def short_world_def forward_buffered_def thread_start_def
        joinable_def thread_ctor_def reader_catch_def log_provider_def buffered_loop_def store_block_def provider_start_def Let_def)
qed

theorem provider_never_resumes_witness:
  "\<exists>c' e. worker_loop (Some 40000) (reader_round standard_plugin short_world (Some 40000)) 0 after_first 10000 = Some (c', e)
     \<and> pv_buffer (pc_state c') = [''data'']"
proof -
  have "pc_use_buffer sample_provider" "pc_state after_first \<noteq> pc_state sample_provider"
    "5000 dvd pc_timeout after_first" "5000 \<le> pc_timeout after_first" "pc_timeout after_first \<le> 60000"
    using after_first_round(2,3) by (auto simp: sample_provider_def provider_start_def)
  from provider_never_resumes [OF short_prompt after_first_round(1) this] show ?thesis
    using after_first_round(2) by auto
qed

end
