(* ===== verification/HttpClient.thy ===== *)
theory HttpClient
  imports StrUtil
begin

text \<open>
  The HTTP client of \<^verbatim>\<open>src/src/httpclient.cpp\<close>: one request, and the answer read through the buffer of a
  socket. The socket is a parameter: it takes the request and delivers the answer in the segments it
  chooses, ended by the peer or by an error. What the code uses of the input stream over the buffer, its
  two state bits included, is written out.
\<close>

section \<open>The input stream\<close>

record istream =
  is_buf :: string
  is_eof :: bool
  is_fail :: bool

definition good :: "istream \<Rightarrow> bool" where
  "good s \<longleftrightarrow> \<not> is_eof s \<and> \<not> is_fail s"

text \<open>\<^verbatim>\<open>operator>>\<close> into a string: blanks are skipped, and what follows up to a blank is taken.\<close>

definition extract_string :: "istream \<Rightarrow> string \<times> istream" where
  "extract_string s =
     (if \<not> good s then ([], s\<lparr>is_fail := True\<rparr>)
      else
        let word = dropWhile is_space (is_buf s);
            rest = dropWhile (\<lambda>c. \<not> is_space c) word in
        (takeWhile (\<lambda>c. \<not> is_space c) word,
         s\<lparr>is_buf := rest, is_eof := (rest = []), is_fail := (word = [])\<rparr>))"

text \<open>
  \<^verbatim>\<open>operator>>\<close> into an \<^verbatim>\<open>unsigned int\<close>: a sign is taken and a negative number wraps; a number that is
  too large gives the largest one and a failure, and a text without a digit gives zero and a failure.
\<close>

definition extract_unsigned :: "istream \<Rightarrow> u32 \<times> istream" where
  "extract_unsigned s =
     (if \<not> good s then (0, s\<lparr>is_fail := True\<rparr>)
      else
        let t = dropWhile is_space (is_buf s);
            neg = (t \<noteq> [] \<and> hd t = CHR ''-'');
            body = (if t \<noteq> [] \<and> hd t \<in> {CHR ''-'', CHR ''+''} then tl t else t);
            digits = takeWhile is_digit body;
            rest = dropWhile is_digit body;
            n = read_digits digits;
            wide = (n \<ge> 2 ^ 32) in
        (if digits = [] then 0 else if wide then - 1 else if neg then - of_nat n else of_nat n,
         s\<lparr>is_buf := rest, is_eof := (rest = []), is_fail := (digits = [] \<or> wide)\<rparr>))"

text \<open>\<^verbatim>\<open>std::getline\<close>: the rest of the line without its line feed, which is dropped.\<close>

definition get_line :: "istream \<Rightarrow> string \<times> istream" where
  "get_line s =
     (if \<not> good s then ([], s\<lparr>is_fail := True\<rparr>)
      else
        let rest = dropWhile (\<lambda>c. c \<noteq> CHR 0x0A) (is_buf s) in
        (takeWhile (\<lambda>c. c \<noteq> CHR 0x0A) (is_buf s),
         s\<lparr>is_buf := drop 1 rest, is_eof := (rest = []), is_fail := (is_buf s = [])\<rparr>))"

lemma get_line_shorter: "\<not> is_fail (snd (get_line s)) \<Longrightarrow> length (is_buf (snd (get_line s))) < length (is_buf s)"
proof -
  assume "\<not> is_fail (snd (get_line s))"
  then have "is_buf s \<noteq> []" "good s"
    by (auto simp: get_line_def Let_def split: if_splits)
  moreover have "length (dropWhile (\<lambda>c. c \<noteq> CHR 0x0A) (is_buf s)) \<le> length (is_buf s)"
    by (rule length_dropWhile_le)
  ultimately show ?thesis
    by (cases "is_buf s") (auto simp: get_line_def Let_def)
qed

section \<open>Reading\<close>

text \<open>\<^verbatim>\<open>boost::asio::read_until\<close>: segments are appended until the buffer holds the text; the end raises.\<close>

fun read_until :: "string \<Rightarrow> string \<Rightarrow> string list \<Rightarrow> (string \<times> string list) option" where
  "read_until d buf [] = (if find_sub d buf \<noteq> None then Some (buf, []) else None)"
| "read_until d buf (seg # segs) =
     (if find_sub d buf \<noteq> None then Some (buf, seg # segs) else read_until d (buf @ seg) segs)"

text \<open>The headers are passed over up to the empty line.\<close>

function header_loop :: "istream \<Rightarrow> istream" where
  "header_loop s =
     (case get_line s of (header, s') \<Rightarrow>
        if \<not> is_fail s' \<and> header \<noteq> [CHR 0x0D] then header_loop s' else s')"
  by pat_completeness auto
termination
  by (relation "measure (\<lambda>s. length (is_buf s))") (auto, metis get_line_shorter snd_conv)

declare header_loop.simps [simp del]

section \<open>A request\<close>

text \<open>
  The peer: whether a connection comes about, whether the request is taken, and the answer with the
  error that ended it, \<open>None\<close> for the end of the stream.
\<close>

record http_peer =
  hp_connect :: "string \<Rightarrow> string \<Rightarrow> exn option"
  hp_write :: "string \<Rightarrow> exn option"
  hp_answer :: "string \<Rightarrow> string list \<times> exn option"

abbreviation crlf :: string where "crlf \<equiv> [CHR 0x0D, CHR 0x0A]"

definition request_text :: "string \<Rightarrow> string \<Rightarrow> string" where
  "request_text hostname url =
     ''GET '' @ url @ '' HTTP/1.0'' @ crlf @ ''Host: '' @ hostname @ crlf @ ''Accept: */*'' @ crlf @ ''Connection: close'' @ crlf @ crlf"

text \<open>
  The answer. Behind the headers everything is content: what the buffer holds, and every further read
  up to the end of the stream. Each \<^verbatim>\<open>return false\<close> and each exception is \<open>None\<close>.
\<close>

definition read_answer :: "string list \<Rightarrow> exn option \<Rightarrow> string option" where
  "read_answer segs e =
     (case read_until crlf [] segs of
        None \<Rightarrow> None
      | Some (buf, segs) \<Rightarrow>
          (let (http_version, s) = extract_string \<lparr>is_buf = buf, is_eof = False, is_fail = False\<rparr>;
               (status_code, s) = extract_unsigned s;
               (status_message, s) = get_line s in
           if is_fail s \<or> take 5 http_version \<noteq> ''HTTP/'' then None
           else if status_code \<noteq> 200 then None
           else
             case read_until (crlf @ crlf) (is_buf s) segs of
               None \<Rightarrow> None
             | Some (buf, segs) \<Rightarrow>
                 (let s = header_loop (s\<lparr>is_buf := buf\<rparr>) in
                  if e \<noteq> None then None else Some (is_buf s @ concat segs))))"

definition sync :: "http_peer \<Rightarrow> string \<Rightarrow> string \<Rightarrow> string option" where
  "sync W hostnameport url =
     (let vec = split hostnameport (CHR '':'') in
      if length vec < 1 \<or> length vec > 2 then None
      else
        let hostname = vec ! 0;
            port = (if length vec > 1 then vec ! 1 else ''http'');
            request = request_text hostname url in
        if hp_connect W hostname port \<noteq> None then None
        else if hp_write W request \<noteq> None then None
        else case hp_answer W request of (segs, e) \<Rightarrow> read_answer segs e)"

section \<open>Searching and segments\<close>

lemma find_sub_iff: "find_sub pat s \<noteq> None \<longleftrightarrow> (\<exists>ps ss. s = ps @ pat @ ss)"
proof (induction s)
  case Nil
  then show ?case by simp
next
  case (Cons x xs)
  have "take (length pat) (x # xs) = pat \<longleftrightarrow> (\<exists>ss. x # xs = pat @ ss)"
    by (metis append_eq_conv_conj append_take_drop_id)
  moreover have "(\<exists>ps ss. x # xs = ps @ pat @ ss) \<longleftrightarrow> (\<exists>ss. x # xs = pat @ ss) \<or> (\<exists>ps ss. xs = ps @ pat @ ss)"
    by (metis append.left_neutral append_Cons append_eq_Cons_conv)
  ultimately show ?case
    using Cons by auto
qed

lemma find_sub_append: "find_sub d s \<noteq> None \<Longrightarrow> find_sub d (p @ s @ q) \<noteq> None"
  unfolding find_sub_iff by (metis append.assoc)

text \<open>What a search reads does not depend on the segments: it holds the text, and nothing is lost.\<close>

lemma read_until_result:
  "read_until d buf segs = Some (buf', segs') \<Longrightarrow> buf' @ concat segs' = buf @ concat segs \<and> find_sub d buf' \<noteq> None"
  by (induction d buf segs rule: read_until.induct) (auto split: if_splits)

lemma read_until_finds:
  "find_sub d (buf @ concat segs) \<noteq> None \<Longrightarrow> \<exists>buf' segs'. read_until d buf segs = Some (buf', segs')"
  by (induction d buf segs rule: read_until.induct) auto

lemma read_until_misses:
  "find_sub d (buf @ concat segs) = None \<Longrightarrow> read_until d buf segs = None"
proof (induction d buf segs rule: read_until.induct)
  case (2 d buf seg segs)
  have "find_sub d buf = None"
    using 2(2) find_sub_append [of d buf "[]" "concat (seg # segs)"] by fastforce
  with 2 show ?case by simp
qed simp

section \<open>Well formed answers\<close>

definition header_block :: "string list \<Rightarrow> string" where
  "header_block hs = concat (map (\<lambda>h. h @ crlf) hs) @ crlf"

definition status_line :: "string \<Rightarrow> string \<Rightarrow> string" where
  "status_line version reason = ''HTTP/'' @ version @ '' 200'' @ reason @ crlf"

definition plain_line :: "string \<Rightarrow> bool" where
  "plain_line l \<longleftrightarrow> CHR 0x0A \<notin> set l"

definition answer_text :: "string \<Rightarrow> string \<Rightarrow> string list \<Rightarrow> string \<Rightarrow> string" where
  "answer_text version reason hs body = status_line version reason @ header_block hs @ body"

lemma first_line_in_prefix:
  assumes "buf @ rest = l @ CHR 0x0A # t" "CHR 0x0A \<in> set buf" "plain_line l"
  obtains b where "buf = l @ CHR 0x0A # b" "b @ rest = t"
proof -
  have "length l < length buf"
  proof (rule ccontr)
    assume "\<not> length l < length buf"
    then obtain x where "l = buf @ x"
      using assms(1) by (auto simp: append_eq_append_conv2)
    then show False
      using assms(2,3) by (simp add: plain_line_def)
  qed
  then obtain b where "buf = l @ CHR 0x0A # b"
    using assms(1) by (auto simp: append_eq_append_conv2 append_eq_Cons_conv)
  then show ?thesis
    using assms(1) that by simp
qed

lemma line_unique: "l @ CHR 0x0A # a = l' @ CHR 0x0A # b \<Longrightarrow> plain_line l \<Longrightarrow> plain_line l' \<Longrightarrow> a = b"
  by (induction l arbitrary: l') (auto simp: plain_line_def Cons_eq_append_conv)

lemma get_line_plain:
  assumes "plain_line l" "good s" "is_buf s = l @ CHR 0x0A # b"
  shows "get_line s = (l, s\<lparr>is_buf := b\<rparr>)"
proof -
  have "takeWhile (\<lambda>c. c \<noteq> CHR 0x0A) (l @ CHR 0x0A # b) = l" "dropWhile (\<lambda>c. c \<noteq> CHR 0x0A) (l @ CHR 0x0A # b) = CHR 0x0A # b"
    using assms(1) by (auto simp: plain_line_def takeWhile_append dropWhile_append)
  then show ?thesis
    using assms(2,3) by (cases s) (simp add: get_line_def good_def Let_def)
qed

lemma header_loop_block:
  assumes "good s" "is_buf s = header_block hs @ b" "list_all (\<lambda>h. plain_line h \<and> h \<noteq> []) hs"
  shows "header_loop s = s\<lparr>is_buf := b\<rparr>"
  using assms
proof (induction hs arbitrary: s)
  case Nil
  then have "get_line s = ([CHR 0x0D], s\<lparr>is_buf := b\<rparr>)"
    by (intro get_line_plain) (simp_all add: header_block_def plain_line_def)
  then show ?case
    by (subst header_loop.simps) simp
next
  case (Cons h hs)
  then have "get_line s = (h @ [CHR 0x0D], s\<lparr>is_buf := header_block hs @ b\<rparr>)"
    by (intro get_line_plain) (simp_all add: header_block_def plain_line_def)
  moreover have "header_loop (s\<lparr>is_buf := header_block hs @ b\<rparr>) = s\<lparr>is_buf := header_block hs @ b, is_buf := b\<rparr>"
    using Cons(2,4) by (intro Cons(1)) (simp_all add: good_def)
  ultimately show ?case
    using Cons(2,4) by (subst header_loop.simps) (simp add: good_def)
qed

text \<open>The search for the empty line stops behind the headers, not before.\<close>

lemma block_in_prefix:
  assumes "buf @ rest = header_block hs @ body" "find_sub (crlf @ crlf) buf \<noteq> None" "list_all (\<lambda>h. plain_line h \<and> h \<noteq> []) hs"
  shows "\<exists>b. buf = header_block hs @ b \<and> b @ rest = body"
  using assms
proof (induction hs arbitrary: buf)
  case Nil
  then obtain ps ss where "buf = ps @ crlf @ crlf @ ss"
    by (metis find_sub_iff append.assoc)
  then have "2 \<le> length buf"
    by simp
  then show ?case
    using Nil(1) by (auto simp: header_block_def append_eq_append_conv2 append_eq_Cons_conv)
next
  case (Cons h hs)
  obtain ps ss where occ: "buf = ps @ CHR 0x0D # CHR 0x0A # crlf @ ss"
    using Cons(3) find_sub_iff [of "crlf @ crlf" buf] by auto
  have "buf @ rest = (h @ [CHR 0x0D]) @ CHR 0x0A # header_block hs @ body" "plain_line (h @ [CHR 0x0D])"
    using Cons(2,4) by (simp_all add: header_block_def plain_line_def)
  then obtain b where b: "buf = (h @ [CHR 0x0D]) @ CHR 0x0A # b" "b @ rest = header_block hs @ body"
    using first_line_in_prefix [of buf rest "h @ [CHR 0x0D]" "header_block hs @ body"] occ by auto
  have "b = crlf @ ss \<or> find_sub (crlf @ crlf) b \<noteq> None"
  proof (cases "CHR 0x0A \<in> set ps")
    case True
    then obtain ps' where "ps = (h @ [CHR 0x0D]) @ CHR 0x0A # ps'"
      using first_line_in_prefix [of ps "CHR 0x0D # CHR 0x0A # crlf @ ss" "h @ [CHR 0x0D]" b] occ b(1) \<open>plain_line (h @ [CHR 0x0D])\<close> by auto
    then have "b = ps' @ (crlf @ crlf) @ ss"
      using occ b(1) by simp
    then show ?thesis
      using find_sub_iff [of "crlf @ crlf" b] by blast
  next
    case False
    have "(ps @ [CHR 0x0D]) @ CHR 0x0A # crlf @ ss = (h @ [CHR 0x0D]) @ CHR 0x0A # b"
      using occ b(1) by simp
    moreover have "plain_line (ps @ [CHR 0x0D])"
      using False by (simp add: plain_line_def)
    ultimately have "crlf @ ss = b"
      using line_unique \<open>plain_line (h @ [CHR 0x0D])\<close> by blast
    then show ?thesis
      by simp
  qed
  moreover have "hs = []" if "b = crlf @ ss"
  proof (rule ccontr)
    assume "hs \<noteq> []"
    then obtain h' hs' where "hs = h' # hs'"
      by (cases hs) auto
    then show False
      using that b(2) Cons(4) by (cases h') (auto simp: header_block_def plain_line_def append_eq_Cons_conv Cons_eq_append_conv)
  qed
  ultimately show ?case
    using Cons(1) [OF b(2)] Cons(4) b by (auto simp: header_block_def)
qed

text \<open>The status line of an answer: a version without blanks, and a reason that does not go on with a digit.\<close>

definition plain_status :: "string \<Rightarrow> string \<Rightarrow> bool" where
  "plain_status version reason \<longleftrightarrow> list_all (\<lambda>c. \<not> is_space c) version \<and> plain_line reason \<and> (reason = [] \<or> \<not> is_digit (hd reason))"

lemma space_chars: "is_space (CHR '' '')" "\<not> is_space (CHR ''H'')" "\<not> is_space (CHR ''T'')" "\<not> is_space (CHR ''P'')" "\<not> is_space (CHR ''/'')" "\<not> is_space (CHR ''2'')"
  "is_digit (CHR ''2'')" "is_digit (CHR ''0'')" "\<not> is_digit (CHR 0x0D)"
  by (simp_all add: is_space_def is_digit_def)

lemma status_version:
  assumes "list_all (\<lambda>c. \<not> is_space c) version"
  shows "extract_string \<lparr>is_buf = ''HTTP/'' @ version @ CHR '' '' # t, is_eof = False, is_fail = False\<rparr>
    = (''HTTP/'' @ version, \<lparr>is_buf = CHR '' '' # t, is_eof = False, is_fail = False\<rparr>)"
proof -
  have "takeWhile (\<lambda>c. \<not> is_space c) (version @ CHR '' '' # t) = version" "dropWhile (\<lambda>c. \<not> is_space c) (version @ CHR '' '' # t) = CHR '' '' # t"
    using assms by (auto simp: takeWhile_append dropWhile_append list_all_iff space_chars)
  then show ?thesis
    by (simp add: extract_string_def good_def space_chars Let_def)
qed

lemma status_code:
  assumes "reason = [] \<or> \<not> is_digit (hd reason)"
  shows "extract_unsigned \<lparr>is_buf = '' 200'' @ reason @ crlf @ b, is_eof = False, is_fail = False\<rparr>
    = (200, \<lparr>is_buf = reason @ crlf @ b, is_eof = False, is_fail = False\<rparr>)"
proof -
  have "takeWhile is_digit (''200'' @ reason @ crlf @ b) = ''200''" "dropWhile is_digit (''200'' @ reason @ crlf @ b) = reason @ crlf @ b"
    using assms by (cases reason; simp add: space_chars)+
  then show ?thesis
    by (simp add: extract_unsigned_def good_def space_chars Let_def read_digits_def digit_value_def)
qed

lemma status_line_read:
  assumes "plain_status version reason"
  shows "(let (v, s) = extract_string \<lparr>is_buf = status_line version reason @ b, is_eof = False, is_fail = False\<rparr>;
              (code, s) = extract_unsigned s; (msg, s) = get_line s in P v code s)
    = P (''HTTP/'' @ version) 200 \<lparr>is_buf = b, is_eof = False, is_fail = False\<rparr>"
proof -
  have "get_line \<lparr>is_buf = (reason @ [CHR 0x0D]) @ CHR 0x0A # b, is_eof = False, is_fail = False\<rparr>
      = (reason @ [CHR 0x0D], \<lparr>is_buf = b, is_eof = False, is_fail = False\<rparr>)"
    using assms by (subst get_line_plain) (auto simp: plain_status_def plain_line_def good_def)
  then show ?thesis
    using assms status_version [of version "''200'' @ reason @ crlf @ b"] status_code [of reason b]
    by (simp add: status_line_def plain_status_def)
qed

text \<open>The first search reads the status line whole.\<close>

lemma status_in_prefix:
  assumes "plain_status version reason" "buf @ rest = status_line version reason @ t" "find_sub crlf buf \<noteq> None"
  shows "\<exists>b. buf = status_line version reason @ b \<and> b @ rest = t"
proof -
  let ?l = "''HTTP/'' @ version @ '' 200'' @ reason @ [CHR 0x0D]"
  have "plain_line ?l"
    using assms(1) by (auto simp: plain_status_def plain_line_def list_all_iff is_space_def)
  moreover have "CHR 0x0A \<in> set buf"
    using assms(3) find_sub_iff [of crlf buf] by auto
  moreover have "buf @ rest = ?l @ CHR 0x0A # t"
    using assms(2) by (simp add: status_line_def)
  ultimately obtain b where "buf = ?l @ CHR 0x0A # b" "b @ rest = t"
    using first_line_in_prefix [of buf rest ?l t] by blast
  then show ?thesis
    by (simp add: status_line_def)
qed

lemma read_answer_status:
  assumes "plain_status version reason" "concat segs = status_line version reason @ t"
  shows "\<exists>buf segs'. buf @ concat segs' = t \<and> read_answer segs e =
    (case read_until (crlf @ crlf) buf segs' of
       None \<Rightarrow> None
     | Some (buf, segs) \<Rightarrow>
         if e \<noteq> None then None
         else Some (is_buf (header_loop \<lparr>is_buf = buf, is_eof = False, is_fail = False\<rparr>) @ concat segs))"
proof -
  have "find_sub crlf ([] @ concat segs) \<noteq> None"
    using assms(2) find_sub_append [of crlf crlf "''HTTP/'' @ version @ '' 200'' @ reason" t] by (simp add: status_line_def)
  then obtain buf segs' where r: "read_until crlf [] segs = Some (buf, segs')"
    using read_until_finds by blast
  note rr = read_until_result [OF r]
  then obtain b where b: "buf = status_line version reason @ b" "b @ concat segs' = t"
    using status_in_prefix [OF assms(1), of buf "concat segs'" t] assms(2) by auto
  show ?thesis
    using status_line_read [OF assms(1), of b "\<lambda>v code s. if is_fail s \<or> take 5 v \<noteq> ''HTTP/'' then None else if code \<noteq> 200 then None
        else case read_until (crlf @ crlf) (is_buf s) segs' of None \<Rightarrow> None
          | Some (buf, segs) \<Rightarrow> (let s = header_loop (s\<lparr>is_buf := buf\<rparr>) in if e \<noteq> None then None else Some (is_buf s @ concat segs))"] r b
    by (intro exI [of _ b] exI [of _ segs']) (simp add: read_answer_def Let_def split: option.split)
qed

lemma read_answer_body:
  assumes "plain_status version reason" "concat segs = answer_text version reason hs body"
    and "hs \<noteq> []" "list_all (\<lambda>h. plain_line h \<and> h \<noteq> []) hs"
  shows "read_answer segs e = (if e = None then Some body else None)"
proof -
  obtain buf segs' where b: "buf @ concat segs' = header_block hs @ body"
    and a: "read_answer segs e =
      (case read_until (crlf @ crlf) buf segs' of
         None \<Rightarrow> None
       | Some (buf, segs) \<Rightarrow>
           if e \<noteq> None then None
           else Some (is_buf (header_loop \<lparr>is_buf = buf, is_eof = False, is_fail = False\<rparr>) @ concat segs))"
    using read_answer_status [OF assms(1), of segs "header_block hs @ body" e] assms(2) by (auto simp: answer_text_def)
  have "header_block hs = concat (map (\<lambda>h. h @ crlf) (butlast hs)) @ last hs @ crlf @ crlf"
    using assms(3) by (cases hs rule: rev_cases) (simp_all add: header_block_def)
  then have "find_sub (crlf @ crlf) (buf @ concat segs') \<noteq> None"
    using b find_sub_append [of "crlf @ crlf" "crlf @ crlf" "concat (map (\<lambda>h. h @ crlf) (butlast hs)) @ last hs" body] by simp
  then obtain buf' segs'' where r: "read_until (crlf @ crlf) buf segs' = Some (buf', segs'')"
    using read_until_finds by blast
  then obtain c where c: "buf' = header_block hs @ c" "c @ concat segs'' = body"
    using read_until_result [OF r] b block_in_prefix [of buf' "concat segs''" hs body] assms(4) by auto
  have "header_loop \<lparr>is_buf = buf', is_eof = False, is_fail = False\<rparr> = \<lparr>is_buf = c, is_eof = False, is_fail = False\<rparr>"
    using header_loop_block [of "\<lparr>is_buf = buf', is_eof = False, is_fail = False\<rparr>" hs c] c(1) assms(4) by (simp add: good_def)
  then show ?thesis
    using a r c(2) by simp
qed

lemma read_answer_headerless:
  assumes "plain_status version reason" "concat segs = answer_text version reason [] body" "find_sub (crlf @ crlf) (crlf @ body) = None"
  shows "read_answer segs e = None"
  using read_answer_status [OF assms(1), of segs "crlf @ body" e] assms(2,3) read_until_misses
  by (fastforce simp: answer_text_def header_block_def)

lemma split_two:
  assumes "CHR '':'' \<notin> set host" "CHR '':'' \<notin> set port" "port \<noteq> []"
  shows "split (host @ CHR '':'' # port) (CHR '':'') = [host, port]"
  using split_item [OF assms(1), of port] split_last [OF assms(2,3)] by simp


lemma sync_answer:
  assumes "CHR '':'' \<notin> set host" "CHR '':'' \<notin> set port" "port \<noteq> []"
    and "hp_connect W host port = None" "hp_write W (request_text host url) = None" "hp_answer W (request_text host url) = (segs, e)"
  shows "sync W (host @ CHR '':'' # port) url = read_answer segs e"
  using assms(4-6) split_two [OF assms(1-3)] by (simp add: sync_def)

section \<open>Properties\<close>

text \<open>
  C32: a download gives exactly the content. When the peer accepts the connection and the request and
  answers with status 200 and at least one header line, then \<^verbatim>\<open>httpclient::sync\<close> gives the content, byte
  for byte, however the network cuts the answer into segments; and when the connection breaks before
  the peer ended it, the download fails instead of giving a part.
\<close>

theorem http_body_returned:
  assumes "CHR '':'' \<notin> set host" "CHR '':'' \<notin> set port" "port \<noteq> []"
    and "hp_connect W host port = None" "hp_write W (request_text host url) = None" "hp_answer W (request_text host url) = (segs, e)"
    and "concat segs = answer_text version reason hs body" "plain_status version reason"
    and "hs \<noteq> []" "list_all (\<lambda>h. plain_line h \<and> h \<noteq> []) hs"
  shows "sync W (host @ CHR '':'' # port) url = (if e = None then Some body else None)"
  using sync_answer [OF assms(1-6)] read_answer_body [OF assms(8,7,9,10)] by simp

text \<open>
  An answer without a header line is refused, although HTTP allows it: the search for the empty line
  begins behind the status line, whose end is a part of what is searched for.
\<close>

theorem http_headerless_rejected:
  assumes "CHR '':'' \<notin> set host" "CHR '':'' \<notin> set port" "port \<noteq> []"
    and "hp_connect W host port = None" "hp_write W (request_text host url) = None" "hp_answer W (request_text host url) = (segs, e)"
    and "concat segs = answer_text version reason [] body" "plain_status version reason" "find_sub (crlf @ crlf) (crlf @ body) = None"
  shows "sync W (host @ CHR '':'' # port) url = None"
  using sync_answer [OF assms(1-6)] read_answer_headerless [OF assms(8,7,9)] by simp

text \<open>A peer that answers each request in two segments, cut between the two characters of a line end.\<close>

definition sample_server :: "string \<Rightarrow> http_peer" where
  "sample_server body =
     \<lparr>hp_connect = (\<lambda>_ _. None), hp_write = (\<lambda>_. None),
      hp_answer = (\<lambda>_. ([''HTTP/1.1 200 OK'' @ [CHR 0x0D], CHR 0x0A # ''Server: x'' @ crlf @ crlf @ body], None))\<rparr>"

theorem http_body_returned_witness: "sync (sample_server ''abc'') ''localhost:8085'' ''/'' = Some ''abc''"
  using http_body_returned [of "''localhost''" "''8085''" "sample_server ''abc''" "''/''" _ _ "''1.1''" "'' OK''" "[''Server: x'']" "''abc''"]
  by (simp add: sample_server_def answer_text_def status_line_def header_block_def plain_status_def plain_line_def is_space_def is_digit_def)

theorem http_headerless_rejected_witness:
  "sync ((sample_server [])\<lparr>hp_answer := (\<lambda>_. ([''HTTP/1.0 200 OK'' @ crlf @ crlf @ ''abc''], None))\<rparr>) ''localhost:8085'' ''/'' = None"
  using http_headerless_rejected [of "''localhost''" "''8085''" "(sample_server [])\<lparr>hp_answer := (\<lambda>_. ([''HTTP/1.0 200 OK'' @ crlf @ crlf @ ''abc''], None))\<rparr>" "''/''" _ _ "''1.0''" "'' OK''" "''abc''"]
  by (simp add: sample_server_def answer_text_def status_line_def header_block_def plain_status_def plain_line_def is_space_def is_digit_def)

end
