(* ===== verification/ActivateHost.thy ===== *)
theory ActivateHost
  imports Certificates
begin

text \<open>
  The activation list, \<^verbatim>\<open>activate_host\<close> of \<^verbatim>\<open>src/src/proxy_global.cpp\<close>: the names whose certificates may be
  received for a limited time, and one round of the thread that receives them. The clock is an
  argument; within one operation it is read once.
\<close>

section \<open>The list\<close>

record activate_t =
  m_activate_stamp :: int
  m_activate_name :: string

fun activate_cleanup :: "int \<Rightarrow> activate_t list \<Rightarrow> activate_t list" where
  "activate_cleanup now [] = []"
| "activate_cleanup now (a # as) =
     (if m_activate_stamp a \<le> now then activate_cleanup now as else a # activate_cleanup now as)"

definition activate_size :: "activate_t list \<Rightarrow> nat" where
  "activate_size l = length l"

definition activate_add :: "int \<Rightarrow> int \<Rightarrow> string \<Rightarrow> activate_t list \<Rightarrow> activate_t list" where
  "activate_add timeout now certname l =
     (let l = activate_cleanup now l in
      if find (\<lambda>a. m_activate_name a = certname) l = None
      then l @ [\<lparr>m_activate_stamp = now + timeout, m_activate_name = certname\<rparr>] else l)"

definition activate_remove :: "int \<Rightarrow> string \<Rightarrow> activate_t list \<Rightarrow> bool \<times> activate_t list" where
  "activate_remove now certname l =
     erase_first (\<lambda>a. m_activate_name a = certname) (activate_cleanup now l)"

definition is_in_list :: "int \<Rightarrow> string \<Rightarrow> activate_t list \<Rightarrow> int option \<times> activate_t list" where
  "is_in_list now certname l =
     (let l = activate_cleanup now l in
      (case find (\<lambda>a. m_activate_name a = certname) l of
         None \<Rightarrow> (None, l) | Some a \<Rightarrow> (Some (m_activate_stamp a), l)))"

section \<open>One round of the thread\<close>

text \<open>
  The names offered to \<^verbatim>\<open>SetupCertificatesServer\<close> are those that have not timed out when a client
  connects. After a successful exchange the first entry of the name is erased, without a clean-up.
\<close>

definition active_names :: "int \<Rightarrow> activate_t list \<Rightarrow> string list" where
  "active_names now l = map m_activate_name (filter (\<lambda>a. m_activate_stamp a > now) l)"

definition activate_round ::
    "'c x509 \<Rightarrow> string \<Rightarrow> int \<Rightarrow> string \<Rightarrow> (string \<Rightarrow> exn + nat) \<Rightarrow> activate_t list \<Rightarrow> cert_state
       \<Rightarrow> (string \<times> activate_t list \<times> cert_state) option" where
  "activate_round X tmp now received write_some l st =
     (case SetupCertificatesServer X tmp received (active_names now l) st of
        None \<Rightarrow> None
      | Some (certname, st1) \<Rightarrow>
          (if certname \<noteq> [] then
             case SetupCertificatesClient write_some certname st1 of
               (ok, _, st2) \<Rightarrow>
                 Some (certname,
                   if ok then snd (erase_first (\<lambda>a. m_activate_name a = certname) l) else l, st2)
           else Some ([], l, st1)))"

section \<open>The list as a set of names with an expiry\<close>

text \<open>What a name's entry says at a time: nothing once it has expired.\<close>

definition live :: "int \<Rightarrow> (string \<rightharpoonup> int) \<Rightarrow> string \<rightharpoonup> int" where
  "live now m n = (case m n of None \<Rightarrow> None | Some e \<Rightarrow> if now < e then Some e else None)"

definition spec_add :: "int \<Rightarrow> int \<Rightarrow> string \<Rightarrow> (string \<rightharpoonup> int) \<Rightarrow> (string \<rightharpoonup> int)" where
  "spec_add timeout now n m = (if live now m n = None then m(n \<mapsto> now + timeout) else m)"

definition entries :: "activate_t list \<Rightarrow> (string \<rightharpoonup> int)" where
  "entries l = map_of (map (\<lambda>a. (m_activate_name a, m_activate_stamp a)) l)"

text \<open>The list stands for a map from time \<open>t\<close> on.\<close>

definition stands_for :: "activate_t list \<Rightarrow> (string \<rightharpoonup> int) \<Rightarrow> int \<Rightarrow> bool" where
  "stands_for l m t \<longleftrightarrow> distinct (map m_activate_name l) \<and> (\<forall>u \<ge> t. live u (entries l) = live u m)"

lemma cleanup_filter: "activate_cleanup now l = filter (\<lambda>a. now < m_activate_stamp a) l"
  by (induction l) auto

lemma entries_Cons: "entries (a # l) = (entries l)(m_activate_name a \<mapsto> m_activate_stamp a)"
  by (simp add: entries_def)

lemma entries_None: "entries l n = None \<longleftrightarrow> n \<notin> set (map m_activate_name l)"
  by (auto simp: entries_def map_of_eq_None_iff image_image)

lemma entries_append_new: "n \<notin> set (map m_activate_name l) \<Longrightarrow>
   entries (l @ [\<lparr>m_activate_stamp = e, m_activate_name = n\<rparr>]) = (entries l)(n \<mapsto> e)"
  by (induction l) (auto simp: entries_def fun_upd_twist)

lemma entries_cleanup:
  assumes "distinct (map m_activate_name l)" "t \<le> u"
  shows "live u (entries (activate_cleanup t l)) = live u (entries l)"
proof
  fix n
  show "live u (entries (activate_cleanup t l)) n = live u (entries l) n"
    using assms(1)
  proof (induction l)
    case (Cons a l)
    show ?case
    proof (cases "n = m_activate_name a")
      case True
      then have "n \<notin> set (map m_activate_name l)" using Cons.prems by simp
      then have "entries (activate_cleanup t l) n = None" by (auto simp: entries_None cleanup_filter)
      with True assms(2) show ?thesis by (auto simp: entries_Cons live_def)
    next
      case False
      with Cons show ?thesis by (auto simp: entries_Cons live_def)
    qed
  qed (simp add: entries_def)
qed

lemma stands_for_cleanup:
  assumes "stands_for l m t" "t \<le> now"
  shows "stands_for (activate_cleanup now l) m now"
  using assms entries_cleanup [of l now]
  by (auto simp: stands_for_def cleanup_filter distinct_map_filter)

lemma find_entries: "find (\<lambda>a. m_activate_name a = n) l = None \<longleftrightarrow> entries l n = None"
  "find (\<lambda>a. m_activate_name a = n) l = Some a \<Longrightarrow> entries l n = Some (m_activate_stamp a)"
  by (induction l) (auto simp: entries_def split: if_splits)

lemma cleaned_live: "live now (entries (activate_cleanup now l)) = entries (activate_cleanup now l)"
proof
  fix n show "live now (entries (activate_cleanup now l)) n = entries (activate_cleanup now l) n"
    by (induction l) (auto simp: entries_def live_def split: option.splits)
qed

lemma erase_first_entries:
  "distinct (map m_activate_name l) \<Longrightarrow> entries (snd (erase_first (\<lambda>a. m_activate_name a = n) l)) = (entries l)(n := None)
     \<and> distinct (map m_activate_name (snd (erase_first (\<lambda>a. m_activate_name a = n) l)))
     \<and> set (snd (erase_first (\<lambda>a. m_activate_name a = n) l)) \<subseteq> set l"
proof (induction l)
  case (Cons a l)
  show ?case
  proof (cases "m_activate_name a = n")
    case True
    then have "entries l n = None" using Cons.prems by (simp add: entries_None)
    then have "(entries (a # l))(n := None) = entries l" using True by (auto simp: entries_Cons fun_eq_iff)
    with True Cons.prems show ?thesis by auto
  next
    case False
    with Cons show ?thesis
      by (auto simp: entries_Cons fun_upd_twist split: prod.splits)
  qed
qed (simp add: entries_def fun_eq_iff)


section \<open>The contract\<close>

text \<open>
  What the rest of the program relies on: adding makes a name live for the timeout unless it is live
  already, removing ends it, asking tells the expiry, and nothing else changes what is live later.
\<close>

locale expiring_names =
  fixes add :: "int \<Rightarrow> int \<Rightarrow> string \<Rightarrow> 's \<Rightarrow> 's"
    and rem :: "int \<Rightarrow> string \<Rightarrow> 's \<Rightarrow> bool \<times> 's"
    and ask :: "int \<Rightarrow> string \<Rightarrow> 's \<Rightarrow> int option \<times> 's"
    and rep :: "'s \<Rightarrow> (string \<rightharpoonup> int) \<Rightarrow> int \<Rightarrow> bool"
  assumes rep_add: "rep s m t \<Longrightarrow> t \<le> now \<Longrightarrow> rep (add timeout now n s) (spec_add timeout now n m) now"
    and rep_rem: "rep s m t \<Longrightarrow> t \<le> now \<Longrightarrow>
      fst (rem now n s) = (live now m n \<noteq> None) \<and> rep (snd (rem now n s)) (m(n := None)) now"
    and rep_ask: "rep s m t \<Longrightarrow> t \<le> now \<Longrightarrow> fst (ask now n s) = live now m n \<and> rep (snd (ask now n s)) m now"

text \<open>Courses of calls, each with the clock, and the answers of the questions.\<close>

datatype activate_op = Activate int string | Withdraw int string | Ask int string

fun in_time :: "int \<Rightarrow> activate_op list \<Rightarrow> bool" where
  "in_time t [] = True"
| "in_time t (Activate now n # ops) = (t \<le> now \<and> in_time now ops)"
| "in_time t (Withdraw now n # ops) = (t \<le> now \<and> in_time now ops)"
| "in_time t (Ask now n # ops) = (t \<le> now \<and> in_time now ops)"

fun spec_answers :: "int \<Rightarrow> (string \<rightharpoonup> int) \<Rightarrow> activate_op list \<Rightarrow> int option list" where
  "spec_answers timeout m [] = []"
| "spec_answers timeout m (Activate now n # ops) = spec_answers timeout (spec_add timeout now n m) ops"
| "spec_answers timeout m (Withdraw now n # ops) = spec_answers timeout (m(n := None)) ops"
| "spec_answers timeout m (Ask now n # ops) = live now m n # spec_answers timeout m ops"

fun answers :: "(int \<Rightarrow> int \<Rightarrow> string \<Rightarrow> 's \<Rightarrow> 's) \<Rightarrow> (int \<Rightarrow> string \<Rightarrow> 's \<Rightarrow> bool \<times> 's)
    \<Rightarrow> (int \<Rightarrow> string \<Rightarrow> 's \<Rightarrow> int option \<times> 's) \<Rightarrow> int \<Rightarrow> 's \<Rightarrow> activate_op list \<Rightarrow> int option list" where
  "answers ad rm ak timeout s [] = []"
| "answers ad rm ak timeout s (Activate now n # ops) = answers ad rm ak timeout (ad timeout now n s) ops"
| "answers ad rm ak timeout s (Withdraw now n # ops) = answers ad rm ak timeout (snd (rm now n s)) ops"
| "answers ad rm ak timeout s (Ask now n # ops) =
     (case ak now n s of (r, s') \<Rightarrow> r # answers ad rm ak timeout s' ops)"

context expiring_names
begin

lemma answers_refine: "rep s m t \<Longrightarrow> in_time t ops \<Longrightarrow> answers add rem ask timeout s ops = spec_answers timeout m ops"
proof (induction timeout m ops arbitrary: s t rule: spec_answers.induct)
  case (2 timeout m now n ops)
  then have "rep (add timeout now n s) (spec_add timeout now n m) now" by (simp add: rep_add)
  with 2 show ?case by simp
next
  case (3 timeout m now n ops)
  then have "rep (snd (rem now n s)) (m(n := None)) now" "in_time now ops" by (simp_all add: rep_rem)
  then show ?case using 3(1) [of "snd (rem now n s)" now] by (simp del: fun_upd_apply)
next
  case (4 timeout m now n ops)
  then have "fst (ask now n s) = live now m n" "rep (snd (ask now n s)) m now" by (simp_all add: rep_ask)
  with 4 show ?case by (simp add: case_prod_unfold)
qed simp

end

lemma stands_for_add:
  assumes "stands_for l m t" "t \<le> now"
  shows "stands_for (activate_add timeout now n l) (spec_add timeout now n m) now"
proof -
  let ?l = "activate_cleanup now l"
  have c: "stands_for ?l m now" by (rule stands_for_cleanup [OF assms])
  then have lv: "live now m n = entries ?l n" using cleaned_live [of now l] by (metis order_refl stands_for_def)
  show ?thesis
  proof (cases "entries ?l n = None")
    case True
    then have "n \<notin> set (map m_activate_name ?l)" by (simp add: entries_None)
    moreover have "live u ((entries ?l)(n \<mapsto> e)) = live u (m(n \<mapsto> e))" if "now \<le> u" for u e
      using c that by (auto simp: stands_for_def live_def fun_eq_iff)
    ultimately show ?thesis
      using True lv c find_entries(1) [of n ?l] entries_append_new [of n ?l "now + timeout"]
      by (auto simp: activate_add_def spec_add_def stands_for_def Let_def)
  next
    case False
    then have "find (\<lambda>a. m_activate_name a = n) ?l \<noteq> None" "live now m n \<noteq> None"
      using lv find_entries(1) [of n ?l] by simp_all
    with c show ?thesis by (simp only: activate_add_def spec_add_def Let_def if_False)
  qed
qed

lemma stands_for_remove:
  assumes "stands_for l m t" "t \<le> now"
  shows "fst (activate_remove now n l) = (live now m n \<noteq> None)
    \<and> stands_for (snd (activate_remove now n l)) (m(n := None)) now"
proof -
  let ?l = "activate_cleanup now l"
  have c: "stands_for ?l m now" by (rule stands_for_cleanup [OF assms])
  then have lv: "live now m n = entries ?l n" using cleaned_live [of now l] by (metis order_refl stands_for_def)
  have "fst (activate_remove now n l) = (entries ?l n \<noteq> None)"
    using erase_first_hit [of "\<lambda>a. m_activate_name a = n" ?l] entries_None [of ?l n]
    by (auto simp: activate_remove_def list_ex_iff)
  moreover have "stands_for (snd (activate_remove now n l)) (m(n := None)) now"
    using c erase_first_entries [of ?l n]
    by (auto simp: activate_remove_def stands_for_def live_def fun_eq_iff)
  ultimately show ?thesis using lv by simp
qed

lemma stands_for_ask:
  assumes "stands_for l m t" "t \<le> now"
  shows "fst (is_in_list now n l) = live now m n \<and> stands_for (snd (is_in_list now n l)) m now"
proof -
  let ?l = "activate_cleanup now l"
  have c: "stands_for ?l m now" by (rule stands_for_cleanup [OF assms])
  then have "live now m n = entries ?l n" using cleaned_live [of now l] by (metis order_refl stands_for_def)
  with c show ?thesis
    using find_entries [of n ?l] by (auto simp: is_in_list_def Let_def split: option.splits)
qed

interpretation activation: expiring_names activate_add activate_remove is_in_list stands_for
  by unfold_locales (simp_all add: stands_for_add stands_for_remove stands_for_ask)

text \<open>
  C34: the activation list does what it promises. For every course of activations, withdrawals and
  questions with a clock that does not go back, a question about a name is answered with its expiry
  exactly while the name is live: from an activation, for the timeout, unless it was withdrawn, a
  second activation of a live name prolonging nothing.
\<close>

theorem activation_list_refines:
  "in_time t ops \<Longrightarrow> answers activate_add activate_remove is_in_list timeout [] ops = spec_answers timeout Map.empty ops"
  by (rule activation.answers_refine) (simp_all add: stands_for_def entries_def)

theorem activation_list_refines_witness:
  "answers activate_add activate_remove is_in_list 60 []
     [Activate 0 ''a'', Activate 30 ''a'', Ask 59 ''a'', Ask 60 ''a'', Activate 61 ''b'', Withdraw 62 ''b'', Ask 63 ''b'']
   = [Some 60, None, None]"
  using activation_list_refines [of 0 "[Activate 0 ''a'', Activate 30 ''a'', Ask 59 ''a'', Ask 60 ''a'', Activate 61 ''b'', Withdraw 62 ''b'', Ask 63 ''b'']" 60]
  by (simp add: spec_add_def live_def)

end
