(* ===== verification/ProxyGlobal.thy ===== *)
theory ProxyGlobal
  imports RemoteHost ActivateHost
begin

text \<open>
  The running configuration: the members of \<^verbatim>\<open>BaseClient\<close> (\<^verbatim>\<open>src/src/baseclient.cpp\<close>) and of its two
  subclasses that a configuration sets, and \<^verbatim>\<open>proxy_global\<close> of \<^verbatim>\<open>src/src/proxy_global.cpp\<close> with the loading of
  a configuration, its comparison with what runs, and the commands on hosts and clients. The JSON
  library and the reading of durations are parameters; a configuration is taken to be an object.
\<close>

section \<open>Clients\<close>

datatype client_kind = LocalKind int bool | ProviderKind "LocalEndpoint list" u64 bool

record base_client =
  bc_id :: int
  bc_active :: bool
  bc_local_port :: u16
  bc_activate_port :: u16
  bc_proxy_endpoints :: "RemoteEndpoint list"
  bc_proxy_index :: nat
  bc_max_connections :: int
  bc_activate_stamp :: int
  bc_activating :: "nat option"
  bc_running :: bool
  bc_kind :: client_kind

text \<open>The constructor logs the first remote end point, without a check that there is one.\<close>

definition BaseClient_ctor ::
    "int \<Rightarrow> int \<Rightarrow> bool \<Rightarrow> u16 \<Rightarrow> u16 \<Rightarrow> RemoteEndpoint list \<Rightarrow> int \<Rightarrow> client_kind \<Rightarrow> base_client outcome" where
  "BaseClient_ctor now ident active port aport eps maxc kind =
     (if eps = [] then None
      else ret \<lparr>bc_id = ident, bc_active = active, bc_local_port = port, bc_activate_port = aport,
             bc_proxy_endpoints = eps, bc_proxy_index = 0, bc_max_connections = maxc,
             bc_activate_stamp = now, bc_activating = None, bc_running = False, bc_kind = kind\<rparr>)"

definition remote_port :: "base_client \<Rightarrow> u16 option" where
  "remote_port c = (if bc_proxy_index c < length (bc_proxy_endpoints c)
     then Some (re_port (bc_proxy_endpoints c ! bc_proxy_index c)) else None)"

definition remote_hostname :: "base_client \<Rightarrow> string option" where
  "remote_hostname c = (if bc_proxy_index c < length (bc_proxy_endpoints c)
     then Some (re_hostname (bc_proxy_endpoints c ! bc_proxy_index c)) else None)"

definition is_provider :: "base_client \<Rightarrow> bool" where
  "is_provider c = (case bc_kind c of ProviderKind _ _ _ \<Rightarrow> True | LocalKind _ _ \<Rightarrow> False)"

text \<open>
  The constructor of a provider: the buffer size is computed in \<^verbatim>\<open>int\<close> and overflows beyond 2047
  megabytes; a blank text leaves the number uninitialised.
\<close>

definition ProviderClient_ctor ::
    "'j json_api \<Rightarrow> int \<Rightarrow> int \<Rightarrow> bool \<Rightarrow> u16 \<Rightarrow> LocalEndpoint list \<Rightarrow> RemoteEndpoint list \<Rightarrow> 'j \<Rightarrow> base_client outcome" where
  "ProviderClient_ctor J now ident active aport locals eps json =
     after (BaseClient_ctor now ident active 0 aport eps 1 (ProviderKind locals 1000000 False)) (\<lambda>c.
     after (check_int_ref J json ''buffer_size'' None) (\<lambda>(ok, i).
     after (if ok then
              (case i of
                 None \<Rightarrow> None
               | Some i \<Rightarrow> if - (2 ^ 31) \<le> i * 1048576 \<and> i * 1048576 < 2 ^ 31
                           then ret (of_int (i * 1048576)) else None)
            else ret 1000000) (\<lambda>bsize.
     after (check_bool_ref J json ''use_buffer'' False) (\<lambda>(_, use_buffer).
       ret (c\<lparr>bc_kind := ProviderKind locals bsize use_buffer\<rparr>)))))"

definition LocalHost_ctor ::
    "int \<Rightarrow> int \<Rightarrow> bool \<Rightarrow> u16 \<Rightarrow> u16 \<Rightarrow> RemoteEndpoint list \<Rightarrow> int \<Rightarrow> int \<Rightarrow> bool \<Rightarrow> base_client outcome" where
  "LocalHost_ctor now ident active port aport eps maxc read_timeout auto_reconnect =
     BaseClient_ctor now ident active port aport eps maxc (LocalKind read_timeout auto_reconnect)"

definition client_run :: "base_client \<Rightarrow> base_client" where
  "client_run c = c\<lparr>bc_running := True\<rparr>"

definition client_halt :: "base_client \<Rightarrow> base_client" where
  "client_halt c = c\<lparr>bc_running := False, bc_activating := None\<rparr>"

text \<open>\<^verbatim>\<open>activate\<close>: the exchange with the first end point of the name is started, for thirty seconds.\<close>

definition client_activate_name :: "int \<Rightarrow> string \<Rightarrow> base_client \<Rightarrow> bool \<times> base_client" where
  "client_activate_name now name c =
     (let i = length (takeWhile (\<lambda>r. re_name r \<noteq> name) (bc_proxy_endpoints c)) in
      if i < length (bc_proxy_endpoints c)
      then (True, c\<lparr>bc_activate_stamp := now + 30, bc_activating := Some i\<rparr>)
      else (False, c))"

definition client_set_active_id :: "int \<Rightarrow> bool \<Rightarrow> base_client \<Rightarrow> bool \<times> base_client" where
  "client_set_active_id ident active c =
     (if bc_id c = ident
      then (True, if active then client_run (c\<lparr>bc_active := True\<rparr>) else client_halt (c\<lparr>bc_active := False\<rparr>))
      else (False, c))"

definition certificate_exists :: "string \<Rightarrow> base_client \<Rightarrow> bool" where
  "certificate_exists certname c = list_ex (\<lambda>r. re_name r = certname) (bc_proxy_endpoints c)"

text \<open>
  \<^verbatim>\<open>threadproc_activate\<close> on a connection to the activation port of the end point: the own certificate
  is sent, then one of that name is expected. \<open>connected\<close> is the exception of the connection.
\<close>

definition threadproc_activate ::
    "'c x509 \<Rightarrow> string \<Rightarrow> int \<Rightarrow> nat \<Rightarrow> exn option \<Rightarrow> string \<Rightarrow> (string \<Rightarrow> exn + nat) \<Rightarrow> base_client \<Rightarrow> cert_state
       \<Rightarrow> (bool \<times> base_client \<times> cert_state) option" where
  "threadproc_activate X tmp now i connected received write_some c st =
     (if now < bc_activate_stamp c then
        let c = c\<lparr>bc_proxy_index := i\<rparr> in
        if \<not> i < length (bc_proxy_endpoints c) then None
        else if connected \<noteq> None then Some (False, c, st)
        else
          let name = re_name (bc_proxy_endpoints c ! i);
              c = c\<lparr>bc_activate_stamp := now\<rparr> in
          (case SetupCertificatesClient write_some name st of
             (False, _, st1) \<Rightarrow> Some (False, c, st1)
           | (True, _, st1) \<Rightarrow>
               (case SetupCertificatesServer X tmp received [name] st1 of
                  None \<Rightarrow> None
                | Some (certname, st2) \<Rightarrow> Some (certname \<noteq> [], c, st2)))
      else Some (False, c, st))"

section \<open>The global state\<close>

record proxy_global =
  remotehosts :: "remote_host list"
  localclients :: "base_client list"
  uniproxies :: "LocalEndpoint list"
  m_web_port :: u16
  m_debug_flag :: bool
  m_own_name :: string
  m_log_path :: string
  m_activate_timeout :: int
  m_activate_port :: u16
  accept_short_certs :: bool
  min_tls_protocol :: int
  m_activate :: "activate_t list"
  static_local_id :: int
  static_remote_count :: int

text \<open>
  What surrounds an operation: the clock, the registered plugins, the reading of durations, and the
  exception of a TLS context whose certificate or key cannot be used.
\<close>

record setting =
  se_now :: int
  se_plugins :: "plugin list"
  se_duration :: "string \<Rightarrow> int \<Rightarrow> int"
  se_seconds :: "string \<Rightarrow> int \<Rightarrow> int"
  se_context :: "exn option"

definition reset :: "proxy_global \<Rightarrow> proxy_global" where
  "reset g = g\<lparr>m_activate_port := 25500, accept_short_certs := True, min_tls_protocol := 12\<rparr>"

section \<open>Comparing with what runs\<close>

definition array_of :: "'j json_api \<Rightarrow> 'j \<Rightarrow> string \<Rightarrow> 'j list" where
  "array_of J obj name = (if jtype J (jfind J obj name) = is_array then jarray J (jfind J obj name) else [])"

text \<open>The comparison of a client is switched off: everything counts as changed.\<close>

definition is_same_client :: "base_client \<Rightarrow> 'j \<Rightarrow> bool \<times> bool \<times> bool" where
  "is_same_client c obj = (False, True, True)"

definition load_failed :: exn where
  "load_failed = runtime_error ''Failed to load remote item in new configuration''"

fun added_loop :: "'j json_api \<Rightarrow> RemoteEndpoint list \<Rightarrow> 'j list \<Rightarrow> RemoteEndpoint list \<Rightarrow> RemoteEndpoint list outcome" where
  "added_loop J eps [] added = ret added"
| "added_loop J eps (rem # rems) added =
     after (RemoteEndpoint_load J RemoteEndpoint_ctor rem) (\<lambda>(ok, ep).
       if \<not> ok then raise load_failed
       else added_loop J eps rems (if find (\<lambda>x. RemoteEndpoint_eq ep x) eps = None then added @ [ep] else added))"

fun hit_loop :: "'j json_api \<Rightarrow> RemoteEndpoint \<Rightarrow> 'j list \<Rightarrow> bool \<Rightarrow> bool outcome" where
  "hit_loop J h [] hit = ret hit"
| "hit_loop J h (rem # rems) hit =
     after (RemoteEndpoint_load J RemoteEndpoint_ctor rem) (\<lambda>(ok, ep).
       if \<not> ok then raise load_failed else hit_loop J h rems (if RemoteEndpoint_eq h ep then True else hit))"

fun removed_loop :: "'j json_api \<Rightarrow> RemoteEndpoint list \<Rightarrow> 'j list \<Rightarrow> RemoteEndpoint list \<Rightarrow> RemoteEndpoint list outcome" where
  "removed_loop J [] rems removed = ret removed"
| "removed_loop J (h # hs) rems removed =
     after (hit_loop J h rems False) (\<lambda>hit. removed_loop J hs rems (if \<not> hit then removed @ [h] else removed))"

fun locals_loop :: "'j json_api \<Rightarrow> 'j list \<Rightarrow> LocalEndpoint list \<Rightarrow> bool \<Rightarrow> bool outcome" where
  "locals_loop J (x # xs) (l # ls) changed =
     after (LocalEndpoint_load J LocalEndpoint_ctor x) (\<lambda>(ok, ep).
       locals_loop J xs ls (if \<not> ok \<or> \<not> LocalEndpoint_eq ep l then True else changed))"
| "locals_loop J _ _ changed = ret changed"

record same_result =
  sr_same :: bool
  sr_param :: bool
  sr_locals :: bool
  sr_added :: "RemoteEndpoint list"
  sr_removed :: "RemoteEndpoint list"

definition is_same_host ::
    "'j json_api \<Rightarrow> remote_host \<Rightarrow> 'j \<Rightarrow> RemoteEndpoint list \<Rightarrow> RemoteEndpoint list \<Rightarrow> same_result outcome" where
  "is_same_host J h obj added removed =
     (let no = \<lparr>sr_same = False, sr_param = False, sr_locals = False, sr_added = added, sr_removed = removed\<rparr> in
      after (check_port J obj ''port'' 0) (\<lambda>(_, host_port).
        if rh_port h \<noteq> host_port then ret no
        else if host_port > 0 then
          let res = jfind J obj ''remotes'' in
          if jtype J res \<noteq> is_array
          then raise (runtime_error ''Invalid host without remotes in new configuration'')
          else
            after (added_loop J (rh_remote_ep h) (jarray J res) added) (\<lambda>added.
            after (removed_loop J (rh_remote_ep h) (jarray J res) removed) (\<lambda>removed.
            after (let loc = jfind J obj ''locals'' in
                   if jtype J loc = is_array \<and> length (jarray J loc) = length (rh_local_ep h)
                   then locals_loop J (jarray J loc) (rh_local_ep h) False else ret True) (\<lambda>locals_changed.
            after (check_string J obj ''type'' [] False) (\<lambda>ty.
              ret \<lparr>sr_same = True, sr_param = (pl_type (rh_plugin h) \<noteq> ty), sr_locals = locals_changed,
                   sr_added = added, sr_removed = removed\<rparr>))))
        else ret no))"

section \<open>Removing what is not in a new configuration\<close>

fun keep_client :: "base_client \<Rightarrow> 'j list \<Rightarrow> bool \<Rightarrow> bool" where
  "keep_client c [] keep = keep"
| "keep_client c (x # xs) keep =
     (case is_same_client c x of (same, param, connections) \<Rightarrow>
        keep_client c xs (if same then \<not> (param \<or> connections) else keep))"

fun unpopulate_clients :: "'j list \<Rightarrow> base_client list \<Rightarrow> base_client list" where
  "unpopulate_clients items [] = []"
| "unpopulate_clients items (c # cs) =
     (if keep_client c items False then c # unpopulate_clients items cs else unpopulate_clients items cs)"

fun keep_host :: "'j json_api \<Rightarrow> remote_host \<Rightarrow> 'j list \<Rightarrow> bool \<Rightarrow> RemoteEndpoint list \<Rightarrow> RemoteEndpoint list
    \<Rightarrow> (bool \<times> RemoteEndpoint list) outcome" where
  "keep_host J h [] keep added removed = ret (keep, removed)"
| "keep_host J h (x # xs) keep added removed =
     after (is_same_host J h x added removed) (\<lambda>r.
       keep_host J h xs (if sr_same r then \<not> (sr_param r \<or> sr_locals r) else keep) (sr_added r) (sr_removed r))"

fun unpopulate_hosts :: "'j json_api \<Rightarrow> 'j list \<Rightarrow> remote_host list \<Rightarrow> remote_host list outcome" where
  "unpopulate_hosts J items [] = ret []"
| "unpopulate_hosts J items (h # hs) =
     after (keep_host J h items False [] []) (\<lambda>(keep, removed).
     after (unpopulate_hosts J items hs) (\<lambda>hs'.
       ret (if keep then remove_any removed h # hs' else hs')))"

definition unpopulate_json :: "'j json_api \<Rightarrow> 'j \<Rightarrow> proxy_global \<Rightarrow> proxy_global outcome" where
  "unpopulate_json J obj g =
     (let g = g\<lparr>localclients := unpopulate_clients (array_of J obj ''clients'') (localclients g)\<rparr> in
      after (unpopulate_hosts J (array_of J obj ''hosts'') (remotehosts g)) (\<lambda>hs. ret (g\<lparr>remotehosts := hs\<rparr>)))"

section \<open>Loading a configuration\<close>

fun load_valid :: "('j \<Rightarrow> (bool \<times> 'e) outcome) \<Rightarrow> 'j list \<Rightarrow> 'e list \<Rightarrow> 'e list outcome" where
  "load_valid ld [] eps = ret eps"
| "load_valid ld (x # xs) eps = after (ld x) (\<lambda>(ok, ep). load_valid ld xs (if ok then eps @ [ep] else eps))"

definition populate_client :: "'j json_api \<Rightarrow> setting \<Rightarrow> proxy_global \<Rightarrow> 'j \<Rightarrow> proxy_global outcome" where
  "populate_client J S g item =
     after (check_bool J item ''active'' True False) (\<lambda>active.
     after (check_bool J item ''provider'' False False) (\<lambda>provider.
     after (check_int J item ''port'' 0 (\<not> provider)) (\<lambda>port.
     after (check_int J item ''activate.port'' 25500 False) (\<lambda>aport.
       let client_port = of_int port; activate_port = of_int aport in
       if find (\<lambda>c. client_port = bc_local_port c) (localclients g) \<noteq> None then ret g
       else
         let (ok, shelp) = check_string_ref J item ''read_timeout'' [];
             read_timeout = (if ok \<and> shelp \<noteq> [] then se_duration S shelp 300 else 300) in
         after (check_bool_ref J item ''auto_reconnect'' False) (\<lambda>(_, auto_reconnect).
         after (check_int J item ''max_connections'' 1 False) (\<lambda>max_connections.
         after (load_valid (RemoteEndpoint_load J RemoteEndpoint_ctor) (array_of J item ''remotes'') []) (\<lambda>proxy_endpoints.
           if provider then
             after (load_valid (LocalEndpoint_load J LocalEndpoint_ctor) (array_of J item ''locals'') []) (\<lambda>provider_endpoints.
               if length provider_endpoints > 0 then
                 after (ProviderClient_ctor J (se_now S) (static_local_id g + 1) active activate_port provider_endpoints
                          proxy_endpoints item) (\<lambda>c.
                   ret (g\<lparr>localclients := localclients g @ [c], static_local_id := static_local_id g + 1\<rparr>))
               else ret g)
           else if active \<and> length proxy_endpoints > 0 then
             after (LocalHost_ctor (se_now S) (static_local_id g + 1) active client_port activate_port proxy_endpoints
                      max_connections read_timeout auto_reconnect) (\<lambda>c.
               ret (g\<lparr>localclients := localclients g @ [c], static_local_id := static_local_id g + 1\<rparr>))
           else ret g)))))))"

fun populate_clients :: "'j json_api \<Rightarrow> setting \<Rightarrow> 'j list \<Rightarrow> proxy_global \<Rightarrow> proxy_global outcome" where
  "populate_clients J S [] g = ret g"
| "populate_clients J S (x # xs) g = after (populate_client J S g x) (populate_clients J S xs)"

text \<open>The running hosts that match an item get its new end points and lose the others.\<close>

fun update_hosts :: "'j json_api \<Rightarrow> 'j \<Rightarrow> remote_host list \<Rightarrow> (bool \<times> remote_host list) outcome" where
  "update_hosts J item [] = ret (False, [])"
| "update_hosts J item (h # hs) =
     after (is_same_host J h item [] []) (\<lambda>r.
       if sr_same r \<and> (sr_param r \<or> sr_locals r)
       then raise (runtime_error (''Host should have been deleted: '' @ show_int (uint (rh_port h))))
       else
         after (update_hosts J item hs) (\<lambda>(found, hs').
           ret (sr_same r \<or> found,
                (if sr_same r then remove_remotes (sr_removed r) (add_remotes (sr_added r) h) else h) # hs')))"

text \<open>The last registered plugin of the type; the standard one when there is none.\<close>

definition choose_plugin :: "plugin list \<Rightarrow> string \<Rightarrow> plugin" where
  "choose_plugin ps ty =
     (if length ty > 0 then foldl (\<lambda>p q. if pl_type q = ty then q else p) standard_plugin ps else standard_plugin)"

definition populate_host :: "'j json_api \<Rightarrow> setting \<Rightarrow> proxy_global \<Rightarrow> 'j \<Rightarrow> proxy_global outcome" where
  "populate_host J S g item =
     after (update_hosts J item (remotehosts g)) (\<lambda>(found, hosts).
       if found then ret (g\<lparr>remotehosts := hosts\<rparr>)
       else
         after (check_int J item ''port'' 0 True) (\<lambda>port.
         after (load_valid (LocalEndpoint_load J LocalEndpoint_ctor) (array_of J item ''locals'') []) (\<lambda>local_endpoints.
         after (load_valid (RemoteEndpoint_load J RemoteEndpoint_ctor) (array_of J item ''remotes'') []) (\<lambda>remote_endpoints.
         after (check_string J item ''type'' [] False) (\<lambda>ty.
           if length remote_endpoints > 0 \<and> length local_endpoints > 0 then
             (case se_context S of
                Some e \<Rightarrow> raise e
              | None \<Rightarrow>
                  ret (g\<lparr>remotehosts := hosts @ [RemoteProxyHost_ctor (static_remote_count g + 1) (min_tls_protocol g) (of_int port)
                           remote_endpoints local_endpoints (choose_plugin (se_plugins S) ty)],
                         static_remote_count := static_remote_count g + 1\<rparr>))
           else ret (g\<lparr>remotehosts := hosts\<rparr>))))))"

fun populate_hosts :: "'j json_api \<Rightarrow> setting \<Rightarrow> 'j list \<Rightarrow> proxy_global \<Rightarrow> proxy_global outcome" where
  "populate_hosts J S [] g = ret g"
| "populate_hosts J S (x # xs) g = after (populate_host J S g x) (populate_hosts J S xs)"

fun populate_proxies :: "'j json_api \<Rightarrow> 'j list \<Rightarrow> LocalEndpoint list \<Rightarrow> LocalEndpoint list outcome" where
  "populate_proxies J [] eps = ret eps"
| "populate_proxies J (x # xs) eps =
     after (LocalEndpoint_load J (LocalEndpoint_ctor\<lparr>le_port := 8085\<rparr>) x) (\<lambda>(ok, ep).
       populate_proxies J xs
         (if ok \<and> find (\<lambda>e. LocalEndpoint_eq e ep) eps = None then eps @ [ep] else eps))"

definition populate_config :: "'j json_api \<Rightarrow> setting \<Rightarrow> 'j \<Rightarrow> proxy_global \<Rightarrow> proxy_global outcome" where
  "populate_config J S obj g =
     (let g = g\<lparr>m_own_name := snd (check_string_ref J obj ''name'' (m_own_name g))\<rparr> in
      after (check_bool_ref J obj ''debug'' (m_debug_flag g)) (\<lambda>(_, dbg).
        let g = g\<lparr>m_debug_flag := dbg, m_log_path := snd (check_string_ref J obj ''log_path'' (m_log_path g))\<rparr> in
        after (check_int_ref J obj ''activate.timeout'' None) (\<lambda>(ok, i).
        after (if ok then (case i of None \<Rightarrow> None | Some i \<Rightarrow> ret i)
               else (case check_string_ref J obj ''activate.timeout'' [] of
                       (True, s) \<Rightarrow> ret (se_seconds S s (m_activate_timeout g))
                     | (False, _) \<Rightarrow> ret (m_activate_timeout g))) (\<lambda>timeout.
        after (check_port J obj ''activate.port'' (m_activate_port g)) (\<lambda>(_, aport).
        after (check_int_ref J obj ''min_tls_protocol'' (Some (min_tls_protocol g))) (\<lambda>(_, tls).
        after (check_bool_ref J obj ''accept_short_certificates'' (accept_short_certs g)) (\<lambda>(_, short).
          (case tls of
             None \<Rightarrow> None
           | Some tls \<Rightarrow>
               if \<not> (12 \<le> tls \<and> tls \<le> 13)
               then raise (system_error parse_file_failed
                      (''Invalid TLS protocol, must be 12 r 13 is: '' @ show_int tls))
               else
                 after (populate_proxies J (array_of J obj ''uniproxies'') (uniproxies g)) (\<lambda>eps.
                   ret (g\<lparr>m_activate_timeout := timeout, m_activate_port := aport, min_tls_protocol := tls,
                          accept_short_certs := short, uniproxies := eps\<rparr>))))))))))"

text \<open>\<^verbatim>\<open>populate_json\<close>; the parts to load are the bits of \<open>acl\<close>: hosts, clients, web, config.\<close>

definition populate_json :: "'j json_api \<Rightarrow> setting \<Rightarrow> nat \<Rightarrow> 'j \<Rightarrow> proxy_global \<Rightarrow> proxy_global outcome" where
  "populate_json J S acl obj g =
     (let g = reset g in
      after (if bit acl 1 then populate_clients J S (array_of J obj ''clients'') g else ret g) (\<lambda>g.
      after (if bit acl 0 then populate_hosts J S (array_of J obj ''hosts'') g else ret g) (\<lambda>g.
      after (if bit acl 2 \<and> jtype J (jfind J obj ''web'') = is_object
             then after (check_port J (jfind J obj ''web'') ''port'' (m_web_port g)) (\<lambda>(_, p). ret (g\<lparr>m_web_port := p\<rparr>))
             else ret g) (\<lambda>g.
        if bit acl 3 \<and> jtype J (jfind J obj ''config'') = is_object
        then populate_config J S (jfind J obj ''config'') g else ret g))))"

text \<open>
  \<^verbatim>\<open>is_new_configuration\<close>. The end points are read without the default port of \<^verbatim>\<open>populate_json\<close>, and
  their number is compared only when the new configuration has none.
\<close>

fun new_proxy :: "'j json_api \<Rightarrow> 'j list \<Rightarrow> LocalEndpoint list \<Rightarrow> bool outcome" where
  "new_proxy J [] eps = ret False"
| "new_proxy J (x # xs) eps =
     after (LocalEndpoint_load J LocalEndpoint_ctor x) (\<lambda>(ok, ep).
       if \<not> ok then ret True
       else if find (\<lambda>e. LocalEndpoint_eq e ep) eps = None then ret True else new_proxy J xs eps)"

definition is_new_configuration :: "'j json_api \<Rightarrow> 'j \<Rightarrow> proxy_global \<Rightarrow> bool outcome" where
  "is_new_configuration J obj g =
     (if m_own_name g = [] then ret True
      else if jtype J (jfind J obj ''config'') \<noteq> is_object then ret True
      else
        after (check_string J obj ''config.name'' [] False) (\<lambda>name.
          if name \<noteq> m_own_name g then ret True
          else
            let proxies = jfind J obj ''config.uniproxies'' in
            if jtype J proxies = is_array then new_proxy J (jarray J proxies) (uniproxies g)
            else ret (uniproxies g \<noteq> [])))"

section \<open>Commands\<close>

text \<open>\<^verbatim>\<open>lock\<close> starts everything: \<open>bound\<close> gives the exception of a host whose port cannot be bound.\<close>

fun start_hosts :: "(u16 \<Rightarrow> exn option) \<Rightarrow> remote_host list \<Rightarrow> remote_host list outcome" where
  "start_hosts bound [] = ret []"
| "start_hosts bound (h # hs) =
     after (host_start (bound (rh_port h)) h) (\<lambda>h'. after (start_hosts bound hs) (\<lambda>hs'. ret (h' # hs')))"

definition global_lock :: "(u16 \<Rightarrow> exn option) \<Rightarrow> proxy_global \<Rightarrow> proxy_global outcome" where
  "global_lock bound g =
     after (start_hosts bound (remotehosts g)) (\<lambda>hs.
       ret (g\<lparr>remotehosts := hs,
              localclients := map (\<lambda>c. if bc_active c then client_run c else c) (localclients g)\<rparr>))"

definition stopall :: "proxy_global \<Rightarrow> proxy_global" where
  "stopall g = g\<lparr>remotehosts := [], localclients := []\<rparr>"

definition host_activate :: "setting \<Rightarrow> string \<Rightarrow> proxy_global \<Rightarrow> bool \<times> proxy_global" where
  "host_activate S param g =
     (if list_ex (\<lambda>h. list_ex (\<lambda>ep. re_name ep = param) (rh_remote_ep h)) (remotehosts g)
      then (True, g\<lparr>m_activate := activate_add (m_activate_timeout g) (se_now S) param (m_activate g)\<rparr>)
      else (False, g))"

text \<open>A client that is not selected is not touched; the first that accepts ends the loop.\<close>

fun first_client :: "(base_client \<Rightarrow> bool \<times> base_client) \<Rightarrow> base_client list \<Rightarrow> bool \<times> base_client list" where
  "first_client f [] = (False, [])"
| "first_client f (c # cs) =
     (case f c of
        (True, c') \<Rightarrow> (True, c' # cs)
      | (False, c') \<Rightarrow> (case first_client f cs of (b, cs') \<Rightarrow> (b, c' # cs')))"

text \<open>A blank identifier leaves the number uninitialised.\<close>

definition client_activate :: "setting \<Rightarrow> string \<Rightarrow> string \<Rightarrow> proxy_global \<Rightarrow> (bool \<times> proxy_global) option" where
  "client_activate S param sid g =
     (if localclients g = [] then Some (False, g)
      else case from_string sid None of
        None \<Rightarrow> None
      | Some ident \<Rightarrow>
          (case first_client (\<lambda>c. if bc_id c = ident then client_activate_name (se_now S) param c else (False, c))
                  (localclients g) of
             (b, cs) \<Rightarrow> Some (b, g\<lparr>localclients := cs\<rparr>)))"

definition client_set_active :: "int \<Rightarrow> bool \<Rightarrow> proxy_global \<Rightarrow> proxy_global" where
  "client_set_active ident active g =
     g\<lparr>localclients := snd (first_client (client_set_active_id ident active) (localclients g))\<rparr>"

text \<open>
  \<^verbatim>\<open>host_test\<close>: the status and how often the list's mutex is unlocked for the one time it was locked.
\<close>

definition host_test :: "string \<Rightarrow> outside \<Rightarrow> nat \<Rightarrow> proxy_global \<Rightarrow> int \<times> nat" where
  "host_test param W now g =
     (case find (\<lambda>h. list_ex (\<lambda>ep. re_name ep = param) (rh_remote_ep h)) (remotehosts g) of
        Some h \<Rightarrow> (host_test_local param W now h, 2)
      | None \<Rightarrow> (422, 1))"

fun host_active_loop :: "(u16 \<Rightarrow> exn option) \<Rightarrow> int \<Rightarrow> int \<Rightarrow> bool \<Rightarrow> remote_host list \<Rightarrow> remote_host list outcome" where
  "host_active_loop bound now ident active [] = ret []"
| "host_active_loop bound now ident active (h # hs) =
     after (if rh_id h = ident then
              if active then host_start (bound (rh_port h)) (h\<lparr>rh_active := True\<rparr>)
              else ret (host_stop now (h\<lparr>rh_active := False\<rparr>))
            else ret h) (\<lambda>h'.
     after (host_active_loop bound now ident active hs) (\<lambda>hs'. ret (h' # hs')))"

text \<open>What an exception of a start has left: the hosts before it are changed, its own flag is set.\<close>

fun host_active_left :: "(u16 \<Rightarrow> exn option) \<Rightarrow> int \<Rightarrow> int \<Rightarrow> bool \<Rightarrow> remote_host list \<Rightarrow> remote_host list" where
  "host_active_left bound now ident active [] = []"
| "host_active_left bound now ident active (h # hs) =
     (if rh_id h = ident then
        if active then
          (case host_start (bound (rh_port h)) (h\<lparr>rh_active := True\<rparr>) of
             Some (Inr h') \<Rightarrow> h' # host_active_left bound now ident active hs
           | _ \<Rightarrow> h\<lparr>rh_active := True\<rparr> # hs)
        else host_stop now (h\<lparr>rh_active := False\<rparr>) # host_active_left bound now ident active hs
      else h # host_active_left bound now ident active hs)"

definition host_set_active :: "(u16 \<Rightarrow> exn option) \<Rightarrow> int \<Rightarrow> int \<Rightarrow> bool \<Rightarrow> proxy_global \<Rightarrow> proxy_global outcome" where
  "host_set_active bound now ident active g =
     after (host_active_loop bound now ident active (remotehosts g)) (\<lambda>hs. ret (g\<lparr>remotehosts := hs\<rparr>))"

definition client_certificate_exists :: "string \<Rightarrow> proxy_global \<Rightarrow> bool" where
  "client_certificate_exists certname g = list_ex (certificate_exists certname) (localclients g)"

definition host_certificate_exists :: "string \<Rightarrow> proxy_global \<Rightarrow> bool" where
  "host_certificate_exists certname g =
     list_ex (\<lambda>h. list_ex (\<lambda>ep. re_name ep = certname) (rh_remote_ep h)) (remotehosts g)"

section \<open>A configured host and its description\<close>

record host_config =
  hc_port :: u16
  hc_type :: string
  hc_remotes :: "RemoteEndpoint list"
  hc_locals :: "LocalEndpoint list"

definition describes :: "'j json_api \<Rightarrow> 'j \<Rightarrow> host_config \<Rightarrow> bool" where
  "describes J item cfg \<longleftrightarrow> jfind J item ''port'' = of_number J (uint (hc_port cfg))
     \<and> jfind J item ''type'' = of_string J (hc_type cfg)
     \<and> jfind J item ''remotes'' = of_array J (map (RemoteEndpoint_save J) (hc_remotes cfg))
     \<and> jfind J item ''locals'' = of_array J (map (LocalEndpoint_save J) (hc_locals cfg))"

definition well_formed :: "host_config \<Rightarrow> bool" where
  "well_formed cfg \<longleftrightarrow> hc_port cfg > 0 \<and> hc_remotes cfg \<noteq> [] \<and> list_all (\<lambda>ep. re_name ep \<noteq> []) (hc_remotes cfg)
     \<and> hc_locals cfg \<noteq> [] \<and> list_all (\<lambda>ep. le_port ep > 0) (hc_locals cfg)"

lemma remote_eq_refl [simp]: "RemoteEndpoint_eq a a"
  by (simp add: RemoteEndpoint_eq_def)

lemma remote_eq_sym: "RemoteEndpoint_eq a b = RemoteEndpoint_eq b a"
  by (auto simp: RemoteEndpoint_eq_def)

lemma remote_eq_trans: "RemoteEndpoint_eq a b \<Longrightarrow> RemoteEndpoint_eq a x = RemoteEndpoint_eq b x"
  by (auto simp: RemoteEndpoint_eq_def)

lemma local_eq_iff: "LocalEndpoint_eq a b \<longleftrightarrow> a = b"
  by (auto simp: LocalEndpoint_eq_def)

lemma find_None_list_ex: "find P xs = None \<longleftrightarrow> \<not> list_ex P xs"
  by (induction xs) auto

lemma load_valid_remotes:
  "json_laws J \<Longrightarrow> list_all (\<lambda>ep. re_name ep \<noteq> []) rs \<Longrightarrow>
   load_valid (RemoteEndpoint_load J RemoteEndpoint_ctor) (map (RemoteEndpoint_save J) rs) acc = ret (acc @ rs)"
  by (induction rs arbitrary: acc) (auto simp: RemoteEndpoint_load_save)

lemma load_valid_locals:
  "json_laws J \<Longrightarrow> list_all (\<lambda>ep. le_port ep > 0) ls \<Longrightarrow>
   load_valid (LocalEndpoint_load J LocalEndpoint_ctor) (map (LocalEndpoint_save J) ls) acc = ret (acc @ ls)"
  by (induction ls arbitrary: acc) (auto simp: LocalEndpoint_load_save)

lemma added_loop_eq:
  "json_laws J \<Longrightarrow> list_all (\<lambda>ep. re_name ep \<noteq> []) rs \<Longrightarrow>
   added_loop J eps (map (RemoteEndpoint_save J) rs) acc = ret (acc @ filter (\<lambda>e. \<not> list_ex (RemoteEndpoint_eq e) eps) rs)"
  by (induction rs arbitrary: acc) (auto simp: RemoteEndpoint_load_save find_None_list_ex)

lemma hit_loop_eq:
  "json_laws J \<Longrightarrow> list_all (\<lambda>ep. re_name ep \<noteq> []) rs \<Longrightarrow>
   hit_loop J h (map (RemoteEndpoint_save J) rs) hit = ret (hit \<or> list_ex (RemoteEndpoint_eq h) rs)"
  by (induction rs arbitrary: hit) (auto simp: RemoteEndpoint_load_save)

lemma removed_loop_eq:
  "json_laws J \<Longrightarrow> list_all (\<lambda>ep. re_name ep \<noteq> []) rs \<Longrightarrow>
   removed_loop J hs (map (RemoteEndpoint_save J) rs) acc = ret (acc @ filter (\<lambda>h. \<not> list_ex (RemoteEndpoint_eq h) rs) hs)"
  by (induction hs arbitrary: acc) (auto simp: hit_loop_eq)

lemma locals_loop_eq:
  "json_laws J \<Longrightarrow> list_all (\<lambda>ep. le_port ep > 0) ls \<Longrightarrow> length ls = length ls' \<Longrightarrow>
   locals_loop J (map (LocalEndpoint_save J) ls) ls' changed = ret (changed \<or> ls \<noteq> ls')"
proof (induction ls arbitrary: ls' changed)
  case (Cons l ls)
  then obtain l' rest where "ls' = l' # rest" by (cases ls') auto
  with Cons show ?case by (auto simp: LocalEndpoint_load_save local_eq_iff)
qed simp

lemma describes_port:
  assumes "json_laws J" "describes J item cfg"
  shows "check_port J item ''port'' p = ret (True, hc_port cfg)" "check_int J item ''port'' d req = ret (uint (hc_port cfg))"
  using assms uint16_bound [of "hc_port cfg"]
  by (simp_all add: describes_def check_port_def check_int_ref_def check_int_def json_values Let_def)

lemma describes_rest:
  assumes "json_laws J" "describes J item cfg"
  shows "check_string J item ''type'' [] False = ret (hc_type cfg)"
    "array_of J item ''remotes'' = map (RemoteEndpoint_save J) (hc_remotes cfg)"
    "array_of J item ''locals'' = map (LocalEndpoint_save J) (hc_locals cfg)"
  using assms by (simp_all add: describes_def check_string_def array_of_def json_values)

lemma is_same_host_eq:
  assumes "json_laws J" "describes J item cfg" "well_formed cfg"
  shows "is_same_host J h item added removed =
    ret (if rh_port h = hc_port cfg
         then \<lparr>sr_same = True, sr_param = (pl_type (rh_plugin h) \<noteq> hc_type cfg), sr_locals = (hc_locals cfg \<noteq> rh_local_ep h),
               sr_added = added @ filter (\<lambda>e. \<not> list_ex (RemoteEndpoint_eq e) (rh_remote_ep h)) (hc_remotes cfg),
               sr_removed = removed @ filter (\<lambda>e. \<not> list_ex (RemoteEndpoint_eq e) (hc_remotes cfg)) (rh_remote_ep h)\<rparr>
         else \<lparr>sr_same = False, sr_param = False, sr_locals = False, sr_added = added, sr_removed = removed\<rparr>)"
proof -
  have w: "list_all (\<lambda>ep. re_name ep \<noteq> []) (hc_remotes cfg)" "list_all (\<lambda>ep. le_port ep > 0) (hc_locals cfg)" "hc_port cfg > 0"
    using assms(3) by (simp_all add: well_formed_def)
  have a: "jfind J item ''remotes'' = of_array J (map (RemoteEndpoint_save J) (hc_remotes cfg))"
    "jfind J item ''locals'' = of_array J (map (LocalEndpoint_save J) (hc_locals cfg))"
    using assms(2) by (simp_all add: describes_def)
  show ?thesis
    using describes_port(1) [OF assms(1,2), of 0] describes_rest(1) [OF assms(1,2)] w
      locals_loop_eq [OF assms(1) w(2), of "rh_local_ep h" False]
    by (auto simp: is_same_host_def Let_def a json_values [OF assms(1)] added_loop_eq [OF assms(1) w(1)]
        removed_loop_eq [OF assms(1) w(1)])
qed

section \<open>Live changes of the remote end points\<close>

lemma erase_skip:
  "\<forall>p \<in> set pre. \<not> RemoteEndpoint_eq p x \<Longrightarrow> erase_equal x (pre @ ys) = pre @ erase_equal x ys"
  by (induction pre) auto

lemma erase_all:
  assumes "\<And>a b. RemoteEndpoint_eq a b \<Longrightarrow> P a = P b"
  shows "\<forall>p \<in> set pre. \<not> P p \<Longrightarrow>
    foldl (\<lambda>l x. erase_equal x l) (pre @ xs @ ys) (filter P xs) = pre @ filter (\<lambda>x. \<not> P x) xs @ ys"
proof (induction xs arbitrary: pre)
  case (Cons x xs)
  show ?case
  proof (cases "P x")
    case True
    then have "\<forall>p \<in> set pre. \<not> RemoteEndpoint_eq p x" using Cons.prems assms by blast
    then have "erase_equal x (pre @ (x # xs) @ ys) = pre @ xs @ ys" by (simp add: erase_skip)
    with True Cons show ?thesis by simp
  next
    case False
    with Cons.prems Cons.IH [of "pre @ [x]"] show ?thesis by simp
  qed
qed simp

lemma remotes_after:
  "rh_remote_ep (remove_remotes (filter (\<lambda>e. \<not> list_ex (RemoteEndpoint_eq e) new) (rh_remote_ep h))
      (add_remotes (filter (\<lambda>e. \<not> list_ex (RemoteEndpoint_eq e) (rh_remote_ep h)) new) h))
   = filter (\<lambda>e. list_ex (RemoteEndpoint_eq e) new) (rh_remote_ep h)
     @ filter (\<lambda>e. \<not> list_ex (RemoteEndpoint_eq e) (rh_remote_ep h)) new"
  using erase_all [of "\<lambda>e. \<not> list_ex (RemoteEndpoint_eq e) new" "[]" "rh_remote_ep h"
      "filter (\<lambda>e. \<not> list_ex (RemoteEndpoint_eq e) (rh_remote_ep h)) new"] remote_eq_trans
  by (auto simp: remove_remotes_def add_remotes_def list_ex_iff)

lemma remove_clients_filter:
  "remove_clients removed cs = filter (\<lambda>c. \<not> list_ex (RemoteEndpoint_eq (rc_endpoint c)) removed) cs"
  by (induction cs) (auto simp: find_None_list_ex)


lemma mentioned_after:
  "list_ex (RemoteEndpoint_eq ep) (filter (\<lambda>e. list_ex (RemoteEndpoint_eq e) new) old
      @ filter (\<lambda>e. \<not> list_ex (RemoteEndpoint_eq e) old) new)
   = list_ex (RemoteEndpoint_eq ep) new"
  using remote_eq_trans remote_eq_sym by (auto simp: list_ex_iff) blast+

text \<open>
  C8: a new configuration changes the remote end points of a running host in place. When the new
  description of a host has the same port, local end points and type, taking away what is gone and
  loading the rest leaves the host running with its identifier; its remote end points are then, up
  to comparison, exactly the configured ones, and of its connections exactly those are dropped that
  belong to an end point that is no longer configured.
\<close>

theorem remotes_updated:
  assumes "json_laws J" and "describes J item cfg" and "well_formed cfg"
    and "rh_port h = hc_port cfg" and "rh_local_ep h = hc_locals cfg" and "pl_type (rh_plugin h) = hc_type cfg"
  shows "\<exists>h1 h2. unpopulate_hosts J [item] [h] = ret [h1] \<and> update_hosts J item [h1] = ret (True, [h2])
    \<and> (\<forall>ep. list_ex (RemoteEndpoint_eq ep) (rh_remote_ep h2) = list_ex (RemoteEndpoint_eq ep) (hc_remotes cfg))
    \<and> rh_clients h2 = filter (\<lambda>c. list_ex (RemoteEndpoint_eq (rc_endpoint c)) (hc_remotes cfg)
         \<or> \<not> list_ex (RemoteEndpoint_eq (rc_endpoint c)) (rh_remote_ep h)) (rh_clients h)
    \<and> h2 = h\<lparr>rh_remote_ep := rh_remote_ep h2, rh_clients := rh_clients h2\<rparr>"
proof -
  let ?new = "hc_remotes cfg" and ?old = "rh_remote_ep h"
  let ?removed = "filter (\<lambda>e. \<not> list_ex (RemoteEndpoint_eq e) ?new) ?old"
  let ?added = "filter (\<lambda>e. \<not> list_ex (RemoteEndpoint_eq e) ?old) ?new"
  let ?h1 = "remove_any ?removed h"
  let ?h2 = "remove_remotes ?removed (add_remotes ?added ?h1)"
  note same = is_same_host_eq [OF assms(1-3)]
  have 1: "unpopulate_hosts J [item] [h] = ret [?h1]" using assms(4-6) by (simp add: same)
  have 2: "update_hosts J item [?h1] = ret (True, [?h2])" using assms(4-6) by (simp add: same remove_any_def)
  have eps: "rh_remote_ep ?h2 = filter (\<lambda>e. list_ex (RemoteEndpoint_eq e) ?new) ?old @ ?added"
    using remotes_after [of ?new ?h1] by (simp add: remove_any_def)
  have "list_ex (RemoteEndpoint_eq e) ?removed \<longleftrightarrow> \<not> (list_ex (RemoteEndpoint_eq e) ?new \<or> \<not> list_ex (RemoteEndpoint_eq e) ?old)" for e
    using remote_eq_trans remote_eq_sym by (auto simp: list_ex_iff) blast+
  then have clients: "rh_clients ?h2 = filter (\<lambda>c. list_ex (RemoteEndpoint_eq (rc_endpoint c)) ?new
         \<or> \<not> list_ex (RemoteEndpoint_eq (rc_endpoint c)) ?old) (rh_clients h)"
    by (simp add: remove_any_def remove_clients_filter remove_remotes_def add_remotes_def)
  have rest: "?h2 = h\<lparr>rh_remote_ep := rh_remote_ep ?h2, rh_clients := rh_clients ?h2\<rparr>"
    by (simp add: remove_any_def remove_remotes_def add_remotes_def)
  show ?thesis
    by (intro exI conjI allI, rule 1, rule 2, subst eps, rule mentioned_after, rule clients, rule rest)
qed

section \<open>Loading the same configuration again\<close>

definition matches :: "remote_host \<Rightarrow> host_config \<Rightarrow> bool" where
  "matches h cfg \<longleftrightarrow> rh_port h = hc_port cfg \<and> rh_remote_ep h = hc_remotes cfg
     \<and> rh_local_ep h = hc_locals cfg \<and> pl_type (rh_plugin h) = hc_type cfg"

lemma filter_mentioned [simp]: "filter (\<lambda>e. \<not> list_ex (RemoteEndpoint_eq e) xs) xs = []"
  unfolding filter_empty_conv list_ex_iff by (metis remote_eq_refl)

lemma unchanged_host [simp]: "remove_any [] h = h" "remove_remotes [] (add_remotes [] h) = h"
  by (simp_all add: remove_any_def remove_clients_filter remove_remotes_def add_remotes_def)

definition known_type :: "setting \<Rightarrow> host_config \<Rightarrow> bool" where
  "known_type S cfg \<longleftrightarrow> hc_type cfg = [] \<or> hc_type cfg \<in> set (map pl_type (se_plugins S))"

lemma choose_plugin_foldl:
  "pl_type p = ty \<or> ty \<in> set (map pl_type ps) \<Longrightarrow> pl_type (foldl (\<lambda>p q. if pl_type q = ty then q else p) p ps) = ty"
  by (induction ps arbitrary: p) auto

lemma choose_plugin_type: "known_type S cfg \<Longrightarrow> pl_type (choose_plugin (se_plugins S) (hc_type cfg)) = hc_type cfg"
  using choose_plugin_foldl [of standard_plugin "hc_type cfg" "se_plugins S"]
  by (auto simp: choose_plugin_def known_type_def standard_plugin_def)

lemma keep_host_other:
  assumes "json_laws J" "list_all2 (describes J) items cfgs" "list_all well_formed cfgs" "rh_port h \<notin> set (map hc_port cfgs)"
  shows "keep_host J h items keep added removed = ret (keep, removed)" "update_hosts J item' [] = ret (False, [])"
  using assms(2-4) by (induction rule: list_all2_induct) (auto simp: is_same_host_eq [OF assms(1)])

lemma keep_host_match:
  assumes "json_laws J" "list_all2 (describes J) items cfgs" "list_all well_formed cfgs" "distinct (map hc_port cfgs)"
    "cfg \<in> set cfgs" "matches h cfg"
  shows "keep_host J h items keep [] [] = ret (True, [])"
  using assms(2-5)
proof (induction arbitrary: keep rule: list_all2_induct)
  case (Cons item items c cfgs)
  show ?case
  proof (cases "c = cfg")
    case True
    then have "rh_port h \<notin> set (map hc_port cfgs)" using Cons.prems assms(6) by (auto simp: matches_def)
    then show ?thesis
      using True Cons assms(6) keep_host_other(1) [OF assms(1) Cons(2)] is_same_host_eq [OF assms(1) Cons(1)]
      by (simp add: matches_def)
  next
    case False
    then have "cfg \<in> set cfgs" using Cons.prems by simp
    moreover from this have "rh_port h \<noteq> hc_port c" using Cons.prems assms(6) by (force simp: matches_def)
    moreover note False
    ultimately show ?thesis using Cons is_same_host_eq [OF assms(1) Cons(1)] by simp
  qed
qed simp

lemma unpopulate_same:
  assumes "json_laws J" "list_all2 (describes J) items cfgs" "list_all well_formed cfgs" "distinct (map hc_port cfgs)"
  shows "list_all (\<lambda>h. \<exists>cfg \<in> set cfgs. matches h cfg) hs \<Longrightarrow> unpopulate_hosts J items hs = ret hs"
  by (induction hs) (auto simp: keep_host_match [OF assms])

lemma update_hosts_match:
  assumes "json_laws J" "describes J item cfg" "well_formed cfg"
  shows "list_all2 matches hs cfgs \<Longrightarrow> \<forall>c \<in> set cfgs. hc_port c = hc_port cfg \<longrightarrow> c = cfg \<Longrightarrow>
    update_hosts J item hs = ret (cfg \<in> set cfgs, hs)"
  by (induction rule: list_all2_induct) (auto simp: is_same_host_eq [OF assms] matches_def)


lemma populate_host_new:
  assumes "json_laws J" "describes J item cfg" "well_formed cfg" "known_type S cfg" "list_all2 matches (remotehosts g) cfgs"
    "hc_port cfg \<notin> set (map hc_port cfgs)" "se_context S = None"
  shows "\<exists>g'. populate_host J S g item = ret g' \<and> list_all2 matches (remotehosts g') (cfgs @ [cfg])"
proof -
  let ?h = "RemoteProxyHost_ctor (static_remote_count g + 1) (min_tls_protocol g) (of_int (uint (hc_port cfg))) (hc_remotes cfg) (hc_locals cfg)
     (choose_plugin (se_plugins S) (hc_type cfg))"
  have "c \<in> set cfgs \<Longrightarrow> hc_port c \<noteq> hc_port cfg" for c using assms(6) by (metis image_eqI list.set_map)
  then have "cfg \<notin> set cfgs" "\<forall>c \<in> set cfgs. hc_port c = hc_port cfg \<longrightarrow> c = cfg" by blast+
  then have "update_hosts J item (remotehosts g) = ret (False, remotehosts g)"
    using update_hosts_match [OF assms(1-3,5)] by simp
  moreover have "matches ?h cfg" using choose_plugin_type [OF assms(4)] by (simp add: matches_def RemoteProxyHost_ctor_def)
  ultimately show ?thesis
    using assms(3,5,7) describes_port(2) [OF assms(1,2)] describes_rest [OF assms(1,2)]
    by (auto simp: populate_host_def well_formed_def load_valid_locals [OF assms(1)] load_valid_remotes [OF assms(1)] intro!: list_all2_appendI)
qed

lemma populate_hosts_new:
  assumes "json_laws J" "se_context S = None"
  shows "list_all2 (describes J) items cfgs \<Longrightarrow> list_all well_formed cfgs \<Longrightarrow> list_all (known_type S) cfgs \<Longrightarrow>
    distinct (map hc_port (before @ cfgs)) \<Longrightarrow> list_all2 matches (remotehosts g) before \<Longrightarrow>
    \<exists>g'. populate_hosts J S items g = ret g' \<and> list_all2 matches (remotehosts g') (before @ cfgs)"
proof (induction arbitrary: g before rule: list_all2_induct)
  case (Cons item items cfg cfgs)
  then obtain g1 where g1: "populate_host J S g item = ret g1" "list_all2 matches (remotehosts g1) (before @ [cfg])"
    using populate_host_new [OF assms(1) Cons(1), of S g before] assms(2) by auto
  moreover have "distinct (map hc_port ((before @ [cfg]) @ cfgs))" using Cons.prems(3) by simp
  ultimately show ?case using Cons.IH [of "before @ [cfg]" g1] Cons.prems by simp
qed simp

lemma populate_hosts_same:
  assumes "json_laws J" "list_all2 matches (remotehosts g) all" "distinct (map hc_port all)" "list_all well_formed all"
  shows "list_all2 (describes J) items cfgs \<Longrightarrow> set cfgs \<subseteq> set all \<Longrightarrow> populate_hosts J S items g = ret g"
proof (induction rule: list_all2_induct)
  case (Cons item items cfg cfgs)
  have "\<forall>c \<in> set all. hc_port c = hc_port cfg \<longrightarrow> c = cfg"
    using assms(3) Cons.prems by (auto simp: distinct_map inj_on_def)
  then have "update_hosts J item (remotehosts g) = ret (True, remotehosts g)"
    using update_hosts_match [OF assms(1) Cons(1) _ assms(2)] assms(4) Cons.prems by (auto simp: list_all_iff)
  then show ?case using Cons by (simp add: populate_host_def)
qed simp

text \<open>
  C7: loading the same hosts again disturbs nothing. For host descriptions with distinct ports, valid
  end points and known types, and with a certificate that can be used, loading them creates one host per description, in order; and whenever
  the running hosts are those described, taking away what is not configured keeps every host with its
  connections, and loading the descriptions again changes nothing at all.
\<close>

theorem reload_keeps_hosts:
  assumes "json_laws J" and "list_all2 (describes J) items cfgs" and "list_all well_formed cfgs"
    and "list_all (known_type S) cfgs" and "distinct (map hc_port cfgs)" and "remotehosts g = []" and "se_context S = None"
  shows "(\<exists>g'. populate_hosts J S items g = ret g' \<and> list_all2 matches (remotehosts g') cfgs)
    \<and> (\<forall>g' :: proxy_global. list_all2 matches (remotehosts g') cfgs \<longrightarrow>
        unpopulate_hosts J items (remotehosts g') = ret (remotehosts g') \<and> populate_hosts J S items g' = ret g')"
proof (intro conjI allI impI)
  show "\<exists>g'. populate_hosts J S items g = ret g' \<and> list_all2 matches (remotehosts g') cfgs"
    using populate_hosts_new [OF assms(1,7,2-4), of "[]" g] assms(5,6) by simp
  fix g' :: proxy_global assume m: "list_all2 matches (remotehosts g') cfgs"
  then have "list_all (\<lambda>h. \<exists>cfg \<in> set cfgs. matches h cfg) (remotehosts g')"
    by (induction rule: list_all2_induct) (auto elim: list.pred_mono_strong)
  then show "unpopulate_hosts J items (remotehosts g') = ret (remotehosts g')"
    by (rule unpopulate_same [OF assms(1-3,5)])
  show "populate_hosts J S items g' = ret g'"
    by (rule populate_hosts_same [OF assms(1) m assms(5,3,2)]) simp
qed

section \<open>Ports of the clients\<close>

lemma ctor_ids:
  "ProviderClient_ctor J now i act ap ls eps x = ret c \<Longrightarrow> bc_id c = i"
  "LocalHost_ctor now i act p ap eps m t r = ret c \<Longrightarrow> bc_id c = i"
  by (auto simp: ProviderClient_ctor_def LocalHost_ctor_def BaseClient_ctor_def after_eq_ret split: if_splits option.splits)

lemma populate_client_adds:
  "populate_client J S g x = ret g' \<Longrightarrow> g' = g
     \<or> (\<exists>c. g' = g\<lparr>localclients := localclients g @ [c], static_local_id := static_local_id g + 1\<rparr> \<and> bc_id c = static_local_id g + 1)"
  by (auto simp: populate_client_def after_eq_ret Let_def dest: ctor_ids split: if_splits prod.splits)

definition listener_ports :: "proxy_global \<Rightarrow> u16 list" where
  "listener_ports g = map bc_local_port (filter (\<lambda>c. \<not> is_provider c) (localclients g))"

lemma populate_client_ports:
  assumes "populate_client J S g item = ret g'" "distinct (listener_ports g)"
  shows "distinct (listener_ports g')"
proof -
  have new: "distinct (listener_ports (g\<lparr>localclients := localclients g @ [c], static_local_id := n\<rparr>))"
    if "is_provider c \<or> find (\<lambda>x. bc_local_port c = bc_local_port x) (localclients g) = None" for c n
    using assms(2) that by (auto simp: listener_ports_def find_None_iff)
  have prov: "is_provider c" if "ProviderClient_ctor J now i a ap ls eps x = ret c" for now i a ap ls eps x c
    using that by (auto simp: ProviderClient_ctor_def is_provider_def after_eq_ret split: if_splits option.splits)
  have loc: "bc_local_port c = p" if "LocalHost_ctor now i a p ap eps m t r = ret c" for now i a p ap eps m t r c
    using that by (auto simp: LocalHost_ctor_def BaseClient_ctor_def split: if_splits)
  show ?thesis
    using assms by (auto simp: populate_client_def after_eq_ret Let_def split: if_splits prod.splits intro!: new dest: prov loc)
qed


lemma populate_clients_ports:
  "populate_clients J S items g = ret g' \<Longrightarrow> distinct (listener_ports g) \<Longrightarrow> distinct (listener_ports g')"
  by (induction J S items g rule: populate_clients.induct) (auto simp: after_eq_ret dest: populate_client_ports)

lemma populate_host_adds:
  assumes "populate_host J S g x = ret g'"
  shows "\<exists>found hosts. update_hosts J x (remotehosts g) = ret (found, hosts) \<and> (g' = g\<lparr>remotehosts := hosts\<rparr>
    \<or> (\<exists>p rs ls pl. ls \<noteq> [] \<and> g' = g\<lparr>remotehosts := hosts @ [RemoteProxyHost_ctor (static_remote_count g + 1) (min_tls_protocol g) p rs ls pl],
         static_remote_count := static_remote_count g + 1\<rparr>))"
proof -
  obtain found hosts where u: "update_hosts J x (remotehosts g) = ret (found, hosts)"
    using assms by (auto simp: populate_host_def after_eq_ret)
  show ?thesis
  proof (cases found)
    case False
    show ?thesis
    proof (cases "se_context S")
      case None
      then show ?thesis
        using assms u False by (auto simp: populate_host_def after_eq_ret split: if_splits)
    next
      case (Some e)
      then show ?thesis
        using assms u False by (auto simp: populate_host_def after_eq_ret split: if_splits)
    qed
  qed (use assms u in \<open>auto simp: populate_host_def\<close>)
qed

lemma populate_hosts_clients: "populate_hosts J S items g = ret g' \<Longrightarrow> localclients g' = localclients g"
proof (induction J S items g rule: populate_hosts.induct)
  case (2 J S x xs g)
  then obtain g1 where g1: "populate_host J S g x = ret g1" "populate_hosts J S xs g1 = ret g'" by (auto simp: after_eq_ret)
  then have "localclients g1 = localclients g" using populate_host_adds [OF g1(1)] by auto
  with 2 g1 show ?case by simp
qed simp

lemma populate_config_clients: "populate_config J S obj g = ret g' \<Longrightarrow> localclients g' = localclients g"
  by (auto simp: populate_config_def after_eq_ret Let_def split: if_splits option.splits prod.splits)

text \<open>
  No two local listeners share a port. Loading any configuration, whatever parts of it, into a
  state in which the clients that listen on a local port have distinct ports leaves it so. A second
  provider without a port is passed over, because it shares the port number zero of the first.
\<close>

theorem client_ports_distinct:
  assumes "distinct (listener_ports g)" and "populate_json J S acl obj g = ret g'"
  shows "distinct (listener_ports g')
    \<and> (\<forall>item c. json_laws J \<longrightarrow> jfind J item ''provider'' = of_boolean J True \<longrightarrow> jfind J item ''active'' = of_boolean J True \<longrightarrow>
         jfind J item ''port'' = jundef J \<longrightarrow> jfind J item ''activate.port'' = jundef J \<longrightarrow>
         c \<in> set (localclients g) \<longrightarrow> bc_local_port c = 0 \<longrightarrow> populate_client J S g item = ret g)"
proof (intro conjI allI impI)
  have "listener_ports (reset g) = listener_ports g" by (simp add: listener_ports_def reset_def)
  moreover obtain g1 g2 g3 where
    g1: "(if bit acl 1 then populate_clients J S (array_of J obj ''clients'') (reset g) else ret (reset g)) = ret g1" and
    g2: "(if bit acl 0 then populate_hosts J S (array_of J obj ''hosts'') g1 else ret g1) = ret g2" and
    g3: "(if bit acl 2 \<and> jtype J (jfind J obj ''web'') = is_object
          then after (check_port J (jfind J obj ''web'') ''port'' (m_web_port g2)) (\<lambda>(_, p). ret (g2\<lparr>m_web_port := p\<rparr>))
          else ret g2) = ret g3" and
    g4: "(if bit acl 3 \<and> jtype J (jfind J obj ''config'') = is_object
          then populate_config J S (jfind J obj ''config'') g3 else ret g3) = ret g'"
    using assms(2) unfolding populate_json_def Let_def after_eq_ret by blast
  ultimately have "distinct (listener_ports g1)"
    using assms(1) populate_clients_ports [of J S "array_of J obj ''clients''" "reset g" g1] by (simp split: if_splits)
  moreover have "localclients g2 = localclients g1" using g2 populate_hosts_clients by (auto split: if_splits)
  moreover have "localclients g3 = localclients g2" using g3 by (auto simp: after_eq_ret split: if_splits)
  moreover have "localclients g' = localclients g3" using g4 populate_config_clients by (auto split: if_splits)
  ultimately show "distinct (listener_ports g')" by (simp add: listener_ports_def)
next
  fix item c
  assume J: "json_laws J" and it: "jfind J item ''provider'' = of_boolean J True" "jfind J item ''active'' = of_boolean J True"
    "jfind J item ''port'' = jundef J" "jfind J item ''activate.port'' = jundef J" and c: "c \<in> set (localclients g)" "bc_local_port c = 0"
  have "find (\<lambda>c. 0 = bc_local_port c) (localclients g) \<noteq> None" using c by (auto simp: find_None_iff)
  with J it show "populate_client J S g item = ret g"
    by (auto simp: populate_client_def check_bool_def check_int_def json_values Let_def)
qed

section \<open>Instances\<close>

definition sample_global :: proxy_global where
  "sample_global =
     \<lparr>remotehosts = [], localclients = [], uniproxies = [], m_web_port = 8085, m_debug_flag = False, m_own_name = ''me'',
      m_log_path = ''log/'', m_activate_timeout = 60, m_activate_port = 25500, accept_short_certs = True,
      min_tls_protocol = 12, m_activate = [], static_local_id = 0, static_remote_count = 0\<rparr>"

definition sample_setting :: setting where
  "sample_setting = \<lparr>se_now = 0, se_plugins = [], se_duration = (\<lambda>s d. d), se_seconds = (\<lambda>s d. d), se_context = None\<rparr>"

definition sample_config :: "RemoteEndpoint list \<Rightarrow> host_config" where
  "sample_config eps = \<lparr>hc_port = 8700, hc_type = [], hc_remotes = eps, hc_locals = [\<lparr>le_hostname = ''h'', le_port = 80\<rparr>]\<rparr>"

definition sample_item :: "RemoteEndpoint list \<Rightarrow> tree" where
  "sample_item eps = Object [(''port'', Number 8700), (''type'', String []), (''remotes'', Array (map (RemoteEndpoint_save tree_api) eps)),
     (''locals'', Array (map (LocalEndpoint_save tree_api) [\<lparr>le_hostname = ''h'', le_port = 80\<rparr>]))]"

lemma sample_describes: "describes tree_api (sample_item eps) (sample_config eps)"
  by (simp add: describes_def sample_item_def sample_config_def json_simps)

definition sample_ep :: "string \<Rightarrow> RemoteEndpoint" where
  "sample_ep n = RemoteEndpoint_ctor\<lparr>re_name := n\<rparr>"

definition sample_host :: remote_host where
  "sample_host = RemoteProxyHost_ctor 1 12 8700 [sample_ep ''a'', sample_ep ''b''] [\<lparr>le_hostname = ''h'', le_port = 80\<rparr>] standard_plugin"

lemma sample_well_formed: "well_formed (sample_config [sample_ep ''b'', sample_ep ''c''])"
  by (simp add: well_formed_def sample_config_def sample_ep_def)

theorem remotes_updated_witness:
  "\<exists>h1 h2. unpopulate_hosts tree_api [sample_item [sample_ep ''b'', sample_ep ''c'']] [sample_host] = ret [h1]
    \<and> update_hosts tree_api (sample_item [sample_ep ''b'', sample_ep ''c'']) [h1] = ret (True, [h2])
    \<and> \<not> list_ex (RemoteEndpoint_eq (sample_ep ''a'')) (rh_remote_ep h2)"
proof -
  have "\<not> list_ex (RemoteEndpoint_eq (sample_ep ''a'')) (hc_remotes (sample_config [sample_ep ''b'', sample_ep ''c'']))"
    by (simp add: sample_config_def sample_ep_def RemoteEndpoint_eq_def)
  then show ?thesis
    using remotes_updated [OF tree_api_laws sample_describes sample_well_formed, of sample_host]
    by (auto simp: sample_host_def sample_config_def RemoteProxyHost_ctor_def standard_plugin_def)
qed

theorem reload_keeps_hosts_witness:
  "\<exists>g'. populate_hosts tree_api sample_setting [sample_item [sample_ep ''b'', sample_ep ''c'']] sample_global = ret g'
    \<and> populate_hosts tree_api sample_setting [sample_item [sample_ep ''b'', sample_ep ''c'']] g' = ret g'"
  using reload_keeps_hosts [OF tree_api_laws, of "[sample_item [sample_ep ''b'', sample_ep ''c'']]"
      "[sample_config [sample_ep ''b'', sample_ep ''c'']]" sample_setting sample_global] sample_describes sample_well_formed
  by (auto simp: known_type_def sample_config_def sample_global_def sample_setting_def)

theorem client_ports_distinct_witness:
  "\<exists>g'. populate_json tree_api sample_setting 15 (Object [(''web'', Object [(''port'', Number 81)])]) sample_global = ret g'
    \<and> m_web_port g' = 81 \<and> distinct (listener_ports g')"
proof -
  have "\<exists>g'. populate_json tree_api sample_setting 15 (Object [(''web'', Object [(''port'', Number 81)])]) sample_global = ret g' \<and> m_web_port g' = 81"
    by (simp add: populate_json_def array_of_def json_simps check_port_def check_int_ref_def Let_def)
  moreover have "distinct (listener_ports sample_global)" by (simp add: listener_ports_def sample_global_def)
  ultimately show ?thesis using client_ports_distinct [of sample_global tree_api sample_setting 15] by blast
qed

end
