(* ===== verification/StatusJson.thy ===== *)
theory StatusJson
  imports ProxyGlobal
begin

text \<open>
  What the proxy tells about itself as JSON: \<^verbatim>\<open>save_json_status\<close> for the web page and \<^verbatim>\<open>save_json_config\<close>
  of \<^verbatim>\<open>BaseClient\<close> (\<^verbatim>\<open>src/src/baseclient.cpp\<close>), \<^verbatim>\<open>RemoteProxyHost\<close> (\<^verbatim>\<open>src/src/remoteclient.cpp\<close>) and
  \<^verbatim>\<open>proxy_global\<close> (\<^verbatim>\<open>src/src/proxy_global.cpp\<close>). An object is built by assigning its members in order.
\<close>

section \<open>Objects and arrays\<close>

type_synonym 'j members = "(string \<times> 'j) list"

definition object_of :: "'j json_api \<Rightarrow> 'j members \<Rightarrow> 'j" where
  "object_of J ms = foldl (\<lambda>obj (k, v). jset J obj k v) (jundef J) ms"

definition opt_members :: "bool \<Rightarrow> 'a list \<Rightarrow> 'a list" where
  "opt_members b xs = (if b then xs else [])"

text \<open>Assigning the elements of an array one by one makes the member only when there is an element.\<close>

definition array_member :: "'j json_api \<Rightarrow> string \<Rightarrow> 'j list \<Rightarrow> 'j members" where
  "array_member J k xs = opt_members (xs \<noteq> []) [(k, of_array J xs)]"

text \<open>An array in which only some indices are assigned ends with the last of them.\<close>

definition sparse_member :: "'j json_api \<Rightarrow> string \<Rightarrow> 'j option list \<Rightarrow> 'j members" where
  "sparse_member J k xs =
     array_member J k (map (\<lambda>x. case x of None \<Rightarrow> jundef J | Some v \<Rightarrow> v)
       (rev (dropWhile (\<lambda>x. x = None) (rev xs))))"

lemma set_opt_members [simp]: "set (opt_members b xs) = (if b then set xs else {})"
  by (simp add: opt_members_def)

lemma foldl_members_holds:
  assumes "json_laws J"
  shows "list_all (\<lambda>(k, _). plain_name k) ms \<Longrightarrow> holds J obj f \<Longrightarrow>
     holds J (foldl (\<lambda>obj (k, v). jset J obj k v) obj ms) (f ++ map_of (rev ms))"
proof (induction ms arbitrary: obj f)
  case (Cons m ms)
  obtain k v where m: "m = (k, v)"
    by (cases m)
  have "holds J (jset J obj k v) (f(k \<mapsto> v))"
    using Cons.prems m holds_set [OF assms] by simp
  then have "holds J (foldl (\<lambda>obj (k, v). jset J obj k v) (jset J obj k v) ms) (f(k \<mapsto> v) ++ map_of (rev ms))"
    using Cons.IH Cons.prems(1) by simp
  moreover have "f ++ map_of (rev (m # ms)) = f(k \<mapsto> v) ++ map_of (rev ms)"
    by (auto simp: m map_add_def fun_eq_iff split: option.splits)
  ultimately show ?case
    by (simp only: foldl_Cons m prod.case)
qed simp

lemma object_of_holds:
  "json_laws J \<Longrightarrow> list_all (\<lambda>(k, _). plain_name k) ms \<Longrightarrow> holds J (object_of J ms) (map_of (rev ms))"
  using foldl_members_holds [OF _ _ holds_undef] by (fastforce simp: object_of_def)

lemma object_of_find:
  assumes "json_laws J" "list_all (\<lambda>(k, _). plain_name k) ms" "plain_name k"
  shows "jfind J (object_of J ms) k = (case map_of (rev ms) k of None \<Rightarrow> jundef J | Some v \<Rightarrow> v)"
  using object_of_holds [OF assms(1,2)] assms(3) by (simp add: holds_def)

lemma object_of_type:
  assumes "json_laws J" "list_all (\<lambda>(k, _). plain_name k) ms" "ms \<noteq> []"
  shows "jtype J (object_of J ms) = is_object"
  using object_of_holds [OF assms(1,2)] assms(3) by (simp add: holds_def)

section \<open>Clients\<close>

text \<open>What the sockets and counters of a client say at the moment.\<close>

record client_live =
  cl_portname :: string
  cl_local_connected :: bool
  cl_log :: string
  cl_hostnames :: "string list"
  cl_remote_connected :: bool
  cl_users :: int
  cl_count_in :: u64
  cl_count_out :: u64

text \<open>\<^verbatim>\<open>local_portname\<close>, \<^verbatim>\<open>info\<close>, and \<^verbatim>\<open>dolog\<close>, which keeps the line for the status and adds it to the log of the program.\<close>

definition local_portname :: "base_client \<Rightarrow> string" where
  "local_portname c = (if is_provider c then ''Provider'' else show_nat (unat (bc_local_port c)))"

definition client_info :: "base_client \<Rightarrow> string option" where
  "client_info c =
     (case (remote_hostname c, remote_port c) of
        (Some h, Some p) \<Rightarrow> Some (h @ '':'' @ show_nat (unat p) @ '' => :'' @ show_nat (unat (bc_local_port c)) @ '' '')
      | _ \<Rightarrow> None)"

definition client_dolog :: "string \<Rightarrow> client_live \<times> string list \<Rightarrow> client_live \<times> string list" where
  "client_dolog line = (\<lambda>(L, log). (L\<lparr>cl_log := line\<rparr>, log @ [line]))"

lemma client_info_defined: "client_info c = None \<longleftrightarrow> length (bc_proxy_endpoints c) \<le> bc_proxy_index c"
  by (simp add: client_info_def remote_hostname_def remote_port_def)

definition client_remote_connected :: "client_live \<Rightarrow> base_client \<Rightarrow> nat \<Rightarrow> bool" where
  "client_remote_connected L c i \<longleftrightarrow> cl_remote_connected L \<and> bc_proxy_index c = i"

definition any_remote :: "client_live \<Rightarrow> base_client \<Rightarrow> bool" where
  "any_remote L c \<longleftrightarrow> list_ex (client_remote_connected L c) [0..<length (bc_proxy_endpoints c)]"

text \<open>Whether the state of the remote connection is told for an end point.\<close>

definition tells_remote :: "client_live \<Rightarrow> base_client \<Rightarrow> nat \<Rightarrow> bool" where
  "tells_remote L c i \<longleftrightarrow> (cl_local_connected L \<and> client_remote_connected L c i) \<or> \<not> any_remote L c"

definition client_remote_status ::
    "'j json_api \<Rightarrow> (string \<Rightarrow> bool) \<Rightarrow> int \<Rightarrow> client_live \<Rightarrow> base_client \<Rightarrow> nat \<Rightarrow> 'j" where
  "client_remote_status J available now L c i =
     (let r = bc_proxy_endpoints c ! i; up = client_remote_connected L c i in
      object_of J
        ([(''name'', of_string J (re_name r)), (''hostname'', of_string J (re_hostname r)),
          (''port'', of_number J (uint (re_port r)))]
         @ opt_members (tells_remote L c i)
             ([(''connected_remote'', of_boolean J up)]
              @ opt_members up [(''count_in'', of_number J (uint (cl_count_in L))), (''count_out'', of_number J (uint (cl_count_out L)))])
         @ opt_members (available (re_name r)) [(''cert'', of_boolean J True)]
         @ opt_members (bc_proxy_index c = i \<and> bc_activate_stamp c > now)
             [(''activate'', of_number J (bc_activate_stamp c - now))]))"

definition client_save_json_status ::
    "'j json_api \<Rightarrow> (string \<Rightarrow> bool) \<Rightarrow> int \<Rightarrow> client_live \<Rightarrow> base_client \<Rightarrow> 'j" where
  "client_save_json_status J available now L c =
     (let idx = [0..<length (bc_proxy_endpoints c)] in
      object_of J
        ([(''id'', of_number J (bc_id c)), (''active'', of_boolean J (bc_active c)), (''port'', of_string J (cl_portname L)),
          (''activate'', object_of J [(''port'', of_number J (uint (bc_activate_port c)))]),
          (''connected_local'', of_boolean J (cl_local_connected L)), (''log'', of_string J (cl_log L))]
         @ sparse_member J ''local_hostname''
             (map (\<lambda>sz. if length sz > 0 then Some (of_string J sz) else None) (cl_hostnames L))
         @ opt_members (list_ex (tells_remote L c) idx) [(''users'', of_number J (cl_users L))]
         @ array_member J ''remotes'' (map (client_remote_status J available now L c) idx)))"

text \<open>The configuration names the end point in use; an index beyond the end points is undefined.\<close>

definition client_save_json_config :: "'j json_api \<Rightarrow> string \<Rightarrow> base_client \<Rightarrow> 'j option" where
  "client_save_json_config J portname c =
     (case (remote_hostname c, remote_port c) of
        (Some host, Some port) \<Rightarrow>
          Some (object_of J
            [(''id'', of_number J (bc_id c)), (''active'', of_boolean J (bc_active c)), (''local_port'', of_string J portname),
             (''remote_hostname'', of_string J host), (''remote_port'', of_number J (uint port)),
             (''max_connections'', of_number J (bc_max_connections c))])
      | _ \<Rightarrow> None)"

section \<open>Hosts\<close>

text \<open>The addresses and counters of a connection.\<close>

record host_live =
  hl_local :: "remote_client \<Rightarrow> string \<times> u16"
  hl_remote :: "remote_client \<Rightarrow> string"
  hl_count_in :: "remote_client \<Rightarrow> u64"
  hl_count_out :: "remote_client \<Rightarrow> u64"

definition connection_status :: "'j json_api \<Rightarrow> host_live \<Rightarrow> remote_client \<Rightarrow> 'j members" where
  "connection_status J L c =
     [(''connected_local'', of_boolean J (rc_local_connected c))]
     @ opt_members (rc_local_connected c)
         [(''local_hostname'', of_string J (fst (hl_local L c))), (''local_port'', of_number J (uint (snd (hl_local L c))))]
     @ [(''connected_remote'', of_boolean J (rc_remote_connected c))]
     @ opt_members (rc_remote_connected c)
         [(''remote_hostname'', of_string J (hl_remote L c)), (''count_in'', of_number J (uint (hl_count_in L c))),
          (''count_out'', of_number J (uint (hl_count_out L c)))]"

text \<open>The first connection of the end point is told; the activation list is cleaned by the question.\<close>

definition host_remote_status ::
    "'j json_api \<Rightarrow> (string \<Rightarrow> bool) \<Rightarrow> int \<Rightarrow> activate_t list \<Rightarrow> host_live \<Rightarrow> remote_host \<Rightarrow> RemoteEndpoint \<Rightarrow> 'j" where
  "host_remote_status J available now acts L h ep =
     object_of J
       ([(''name'', of_string J (re_name ep))]
        @ opt_members (available (re_name ep)) [(''cert'', of_boolean J True)]
        @ [(''hostname'', of_string J (re_hostname ep))]
        @ (case fst (is_in_list now (re_name ep) acts) of None \<Rightarrow> [] | Some t \<Rightarrow> [(''activate'', of_number J (t - now))])
        @ (case find (\<lambda>c. RemoteEndpoint_eq (rc_endpoint c) ep) (rh_clients h) of
             None \<Rightarrow> [] | Some c \<Rightarrow> connection_status J L c))"

definition host_save_json_status ::
    "'j json_api \<Rightarrow> (string \<Rightarrow> bool) \<Rightarrow> int \<Rightarrow> activate_t list \<Rightarrow> host_live \<Rightarrow> remote_host \<Rightarrow> 'j" where
  "host_save_json_status J available now acts L h =
     object_of J
       ([(''id'', of_number J (rh_id h)), (''port'', of_number J (uint (rh_port h))),
         (''type'', of_string J (pl_type (rh_plugin h))), (''active'', of_boolean J (rh_active h))]
        @ array_member J ''remotes'' (map (host_remote_status J available now acts L h) (rh_remote_ep h)))"

definition local_config :: "'j json_api \<Rightarrow> LocalEndpoint \<Rightarrow> 'j" where
  "local_config J ep =
     object_of J [(''hostname'', of_string J (le_hostname ep)), (''port'', of_number J (uint (le_port ep)))]"

definition remote_config :: "'j json_api \<Rightarrow> RemoteEndpoint \<Rightarrow> 'j" where
  "remote_config J ep =
     object_of J [(''name'', of_string J (re_name ep)), (''hostname'', of_string J (re_hostname ep)),
       (''username'', of_string J (re_username ep)), (''password'', of_string J (re_password ep))]"

definition host_save_json_config :: "'j json_api \<Rightarrow> remote_host \<Rightarrow> 'j" where
  "host_save_json_config J h =
     object_of J
       ([(''id'', of_number J (rh_id h)), (''port'', of_number J (uint (rh_port h))),
         (''type'', of_string J (pl_type (rh_plugin h))), (''active'', of_boolean J (rh_active h))]
        @ array_member J ''locals'' (map (local_config J) (rh_local_ep h))
        @ array_member J ''remotes'' (map (remote_config J) (rh_remote_ep h)))"

section \<open>The whole state\<close>

definition global_save_json_status ::
    "'j json_api \<Rightarrow> string \<Rightarrow> (string \<Rightarrow> bool) \<Rightarrow> int \<Rightarrow> (base_client \<Rightarrow> client_live) \<Rightarrow> host_live \<Rightarrow> proxy_global \<Rightarrow> 'j" where
  "global_save_json_status J version available now CL HL g =
     object_of J
       (array_member J ''clients'' (map (\<lambda>c. client_save_json_status J available now (CL c) c) (localclients g))
        @ array_member J ''hosts'' (map (host_save_json_status J available now (m_activate g) HL) (remotehosts g))
        @ [(''global'', object_of J [(''name'', of_string J (m_own_name g))]), (''version'', of_string J version)])"

definition global_save_json_config :: "'j json_api \<Rightarrow> (base_client \<Rightarrow> string) \<Rightarrow> string \<Rightarrow> proxy_global \<Rightarrow> 'j option" where
  "global_save_json_config J portname ip4_mask g =
     (let clients = map (\<lambda>c. client_save_json_config J (portname c) c) (localclients g) in
      if list_ex (\<lambda>c. c = None) clients then None
      else Some (object_of J
        (array_member J ''clients'' (map the clients)
         @ array_member J ''hosts'' (map (host_save_json_config J) (remotehosts g))
         @ [(''web'', object_of J [(''port'', of_number J (uint (m_web_port g))), (''ip4'', of_string J ip4_mask)]),
            (''global'', object_of J [(''debug'', of_boolean J (m_debug_flag g)), (''name'', of_string J (m_own_name g))])])))"

section \<open>The configuration of a host is recognised\<close>

lemma config_names [simp]:
  "plain_name ''id''" "plain_name ''type''" "plain_name ''active''" "plain_name ''locals''" "plain_name ''remotes''"
  "plain_name ''cert''" "plain_name ''activate''" "plain_name ''connected_local''" "plain_name ''connected_remote''"
  "plain_name ''local_hostname''" "plain_name ''local_port''" "plain_name ''remote_hostname''" "plain_name ''count_in''"
  "plain_name ''count_out''" "plain_name ''log''" "plain_name ''users''"
  by (simp_all add: plain_name_def)

lemma remote_config_load:
  assumes "json_laws J"
  shows "RemoteEndpoint_load J RemoteEndpoint_ctor (remote_config J ep) = ret (re_name ep \<noteq> [], ep\<lparr>re_port := 0\<rparr>)"
proof -
  have f: "jfind J (remote_config J ep) k = (case map_of (rev [(''name'', of_string J (re_name ep)), (''hostname'', of_string J (re_hostname ep)),
       (''username'', of_string J (re_username ep)), (''password'', of_string J (re_password ep))]) k of None \<Rightarrow> jundef J | Some v \<Rightarrow> v)"
    if "plain_name k" for k
    unfolding remote_config_def by (rule object_of_find [OF assms _ that]) simp
  have "jtype J (remote_config J ep) = is_object"
    unfolding remote_config_def by (rule object_of_type [OF assms]) simp_all
  then show ?thesis
    by (simp add: RemoteEndpoint_load_def RemoteEndpoint_ctor_def check_port_def check_int_ref_def check_string_ref_def f
        json_values [OF assms] Let_def)
qed

lemma local_config_load:
  assumes "json_laws J"
  shows "LocalEndpoint_load J LocalEndpoint_ctor (local_config J ep) = ret (le_port ep > 0, ep)"
proof -
  have f: "jfind J (local_config J ep) k = (case map_of (rev [(''hostname'', of_string J (le_hostname ep)), (''port'', of_number J (uint (le_port ep)))]) k
      of None \<Rightarrow> jundef J | Some v \<Rightarrow> v)"
    if "plain_name k" for k
    unfolding local_config_def by (rule object_of_find [OF assms _ that]) simp
  have "jtype J (local_config J ep) = is_object"
    unfolding local_config_def by (rule object_of_type [OF assms]) simp_all
  then show ?thesis
    using uint16_bound [of "le_port ep"]
    by (simp add: LocalEndpoint_load_def LocalEndpoint_ctor_def check_port_def check_int_ref_def check_string_ref_def f
        json_values [OF assms] Let_def)
qed

lemma config_eq [simp]: "RemoteEndpoint_eq (a\<lparr>re_port := p\<rparr>) = RemoteEndpoint_eq a" "RemoteEndpoint_eq a (b\<lparr>re_port := p\<rparr>) = RemoteEndpoint_eq a b"
  by (simp_all add: RemoteEndpoint_eq_def fun_eq_iff)

lemma added_loop_config:
  "json_laws J \<Longrightarrow> list_all (\<lambda>ep. re_name ep \<noteq> []) rs \<Longrightarrow> set rs \<subseteq> set eps \<Longrightarrow>
   added_loop J eps (map (remote_config J) rs) acc = ret acc"
proof (induction rs arbitrary: acc)
  case (Cons r rs)
  then have "find (RemoteEndpoint_eq r) eps \<noteq> None"
    by (auto simp: find_None_iff intro!: bexI [of _ r])
  then show ?case
    using Cons by (simp add: remote_config_load)
qed simp

lemma hit_loop_config:
  "json_laws J \<Longrightarrow> list_all (\<lambda>ep. re_name ep \<noteq> []) rs \<Longrightarrow>
   hit_loop J h (map (remote_config J) rs) hit = ret (hit \<or> list_ex (RemoteEndpoint_eq h) rs)"
  by (induction rs arbitrary: hit) (auto simp: remote_config_load)

lemma removed_loop_config:
  "json_laws J \<Longrightarrow> list_all (\<lambda>ep. re_name ep \<noteq> []) rs \<Longrightarrow> set hs \<subseteq> set rs \<Longrightarrow>
   removed_loop J hs (map (remote_config J) rs) acc = ret acc"
proof (induction hs arbitrary: acc)
  case (Cons h hs)
  then have "list_ex (RemoteEndpoint_eq h) rs"
    by (auto simp: list_ex_iff intro!: bexI [of _ h])
  then show ?case
    using Cons by (simp add: hit_loop_config)
qed simp

lemma locals_loop_config:
  "json_laws J \<Longrightarrow> list_all (\<lambda>ep. le_port ep > 0) ls \<Longrightarrow> locals_loop J (map (local_config J) ls) ls changed = ret changed"
  by (induction ls arbitrary: changed) (auto simp: local_config_load local_eq_iff)

text \<open>A host with a port, end points with names and local end points with ports.\<close>

definition proper_host :: "remote_host \<Rightarrow> bool" where
  "proper_host h \<longleftrightarrow> rh_port h > 0 \<and> rh_remote_ep h \<noteq> [] \<and> list_all (\<lambda>ep. re_name ep \<noteq> []) (rh_remote_ep h)
     \<and> rh_local_ep h \<noteq> [] \<and> list_all (\<lambda>ep. le_port ep > 0) (rh_local_ep h)"

lemma host_config_find:
  assumes "json_laws J" "proper_host h"
  shows "jfind J (host_save_json_config J h) ''port'' = of_number J (uint (rh_port h))"
    "jfind J (host_save_json_config J h) ''type'' = of_string J (pl_type (rh_plugin h))"
    "jfind J (host_save_json_config J h) ''locals'' = of_array J (map (local_config J) (rh_local_ep h))"
    "jfind J (host_save_json_config J h) ''remotes'' = of_array J (map (remote_config J) (rh_remote_ep h))"
  using assms(2)
  by (simp_all add: host_save_json_config_def object_of_find [OF assms(1)] array_member_def opt_members_def proper_host_def)

lemma is_same_config:
  assumes "json_laws J" "proper_host h" "proper_host h'" "rh_port h = rh_port h' \<Longrightarrow> h = h'"
  shows "is_same_host J h (host_save_json_config J h') added removed =
    ret \<lparr>sr_same = (rh_port h = rh_port h'), sr_param = False, sr_locals = False, sr_added = added, sr_removed = removed\<rparr>"
proof -
  have port: "check_port J (host_save_json_config J h') ''port'' 0 = ret (True, rh_port h')"
    using uint16_bound [of "rh_port h'"] host_config_find [OF assms(1,3)]
    by (simp add: check_port_def check_int_ref_def json_values [OF assms(1)] Let_def)
  show ?thesis
  proof (cases "rh_port h = rh_port h'")
    case True
    then have "h = h'"
      by (rule assms(4))
    then show ?thesis
      using assms(2) host_config_find [OF assms(1,3)] added_loop_config [OF assms(1)] removed_loop_config [OF assms(1)]
        locals_loop_config [OF assms(1)] port
      by (simp add: is_same_host_def json_values [OF assms(1)] Let_def check_string_def proper_host_def)
  qed (simp add: is_same_host_def port)
qed

lemma keep_host_config:
  assumes "json_laws J" "proper_host h"
  shows "list_all proper_host hs \<Longrightarrow> \<forall>x \<in> set hs. rh_port h = rh_port x \<longrightarrow> h = x \<Longrightarrow>
    keep_host J h (map (host_save_json_config J) hs) keep added removed = ret (h \<in> set hs \<or> keep, removed)"
proof (induction hs arbitrary: keep)
  case (Cons x hs)
  then show ?case
    using is_same_config [OF assms(1,2), of x] by auto
qed simp

lemma update_hosts_config:
  assumes "json_laws J" "proper_host x"
  shows "list_all proper_host hs \<Longrightarrow> \<forall>h \<in> set hs. rh_port h = rh_port x \<longrightarrow> h = x \<Longrightarrow>
    update_hosts J (host_save_json_config J x) hs = ret (x \<in> set hs, hs)"
proof (induction hs)
  case (Cons h hs)
  then show ?case
    using is_same_config [OF assms(1) _ assms(2), of h] by auto
qed simp

lemma unpopulate_hosts_config:
  assumes "json_laws J" "list_all proper_host items" "inj_on rh_port (set items)"
  shows "set hs \<subseteq> set items \<Longrightarrow> unpopulate_hosts J (map (host_save_json_config J) items) hs = ret hs"
proof (induction hs)
  case (Cons h hs)
  have "proper_host h" "\<forall>x \<in> set items. rh_port h = rh_port x \<longrightarrow> h = x"
    using Cons.prems assms(2,3) by (auto simp: list_all_iff inj_on_def)
  then show ?case
    using Cons keep_host_config [OF assms(1) _ assms(2)] by simp
qed simp

lemma populate_hosts_config:
  assumes "json_laws J" "list_all proper_host (remotehosts g)" "inj_on rh_port (set (remotehosts g))"
  shows "set items \<subseteq> set (remotehosts g) \<Longrightarrow> populate_hosts J S (map (host_save_json_config J) items) g = ret g"
proof (induction items)
  case (Cons x items)
  have "proper_host x" "\<forall>h \<in> set (remotehosts g). rh_port h = rh_port x \<longrightarrow> h = x" "x \<in> set (remotehosts g)"
    using Cons.prems assms(2,3) by (auto simp: list_all_iff inj_on_def)
  then show ?case
    using Cons update_hosts_config [OF assms(1) _ assms(2)] by (simp add: populate_host_def)
qed simp

section \<open>What the status tells of the end points\<close>

lemma status_names: "plain_name ''clients''" "plain_name ''hosts''" "plain_name ''global''" "plain_name ''version''" "plain_name ''web''"
  by (simp_all add: plain_name_def)

text \<open>A member that is not assigned is not there.\<close>

lemma object_of_absent:
  "json_laws J \<Longrightarrow> list_all (\<lambda>(k, _). plain_name k) ms \<Longrightarrow> plain_name k \<Longrightarrow> k \<notin> fst ` set ms \<Longrightarrow>
     jfind J (object_of J ms) k = jundef J"
  by (simp add: object_of_find map_of_eq_None_iff [THEN iffD2])

lemma list_all_opt [simp]: "list_all P (opt_members b xs) \<longleftrightarrow> (b \<longrightarrow> list_all P xs)"
  by (simp add: opt_members_def)

lemma client_remote_hides:
  assumes "json_laws J" "k \<in> {''username'', ''password''}"
  shows "jfind J (client_remote_status J available now L c i) k = jundef J"
  unfolding client_remote_status_def Let_def
  by (rule object_of_absent [OF assms(1)]) (use assms(2) in auto)

lemma host_remote_hides:
  assumes "json_laws J" "k \<in> {''username'', ''password''}"
  shows "jfind J (host_remote_status J available now acts L h ep) k = jundef J"
  unfolding host_remote_status_def connection_status_def
  by (rule object_of_absent [OF assms(1)]) (use assms(2) in \<open>auto split: option.splits\<close>)

lemma array_member_find:
  assumes "json_laws J" "list_all (\<lambda>(k, _). plain_name k) (ms @ array_member J k xs @ ms')" "plain_name k"
    "k \<notin> fst ` set ms" "k \<notin> fst ` set ms'"
  shows "array_of J (object_of J (ms @ array_member J k xs @ ms')) k = xs"
proof -
  have "map_of (rev (ms @ array_member J k xs @ ms')) k = (if xs = [] then None else Some (of_array J xs))"
    using assms(4,5) by (auto simp: array_member_def opt_members_def map_add_def map_of_eq_None_iff [THEN iffD2] split: option.splits)
  then show ?thesis
    using object_of_find [OF assms(1-3)] by (simp add: array_of_def json_values [OF assms(1)])
qed

lemmas array_member_last = array_member_find [where ms' = "[]", unfolded append_Nil2]

section \<open>Properties\<close>

text \<open>
  C13: the configuration a proxy writes describes the hosts it runs. When the hosts have distinct
  ports, named remote end points and local end points with a port, comparing them with the hosts of
  the saved configuration keeps every one with its connections and loading those hosts changes
  nothing, although the ports of the remote end points are not saved.
\<close>

theorem saved_config_keeps_hosts:
  assumes "json_laws J" and "list_all proper_host (remotehosts g)" and "distinct (map rh_port (remotehosts g))"
    and "global_save_json_config J portname ip4_mask g = Some cfg"
  shows "unpopulate_hosts J (array_of J cfg ''hosts'') (remotehosts g) = ret (remotehosts g)
    \<and> populate_hosts J S (array_of J cfg ''hosts'') g = ret g"
proof -
  let ?clients = "map (\<lambda>c. the (client_save_json_config J (portname c) c)) (localclients g)"
  have "cfg = object_of J (array_member J ''clients'' ?clients @ array_member J ''hosts'' (map (host_save_json_config J) (remotehosts g))
      @ [(''web'', object_of J [(''port'', of_number J (uint (m_web_port g))), (''ip4'', of_string J ip4_mask)]),
         (''global'', object_of J [(''debug'', of_boolean J (m_debug_flag g)), (''name'', of_string J (m_own_name g))])])"
    using assms(4) by (auto simp: global_save_json_config_def Let_def comp_def split: if_splits)
  then have "array_of J cfg ''hosts'' = map (host_save_json_config J) (remotehosts g)"
    by (simp only:) (rule array_member_find [OF assms(1)], auto simp: array_member_def status_names)
  moreover have "inj_on rh_port (set (remotehosts g))"
    using assms(3) by (simp add: distinct_map)
  ultimately show ?thesis
    using unpopulate_hosts_config [OF assms(1,2)] populate_hosts_config [OF assms(1,2)] by simp
qed


section \<open>Instances\<close>

definition running_global :: proxy_global where
  "running_global = sample_global\<lparr>remotehosts := [sample_host]\<rparr>"

theorem saved_config_keeps_hosts_witness:
  "\<exists>cfg. global_save_json_config tree_api (\<lambda>_. []) ''0.0.0.0'' running_global = Some cfg
    \<and> unpopulate_hosts tree_api (array_of tree_api cfg ''hosts'') [sample_host] = ret [sample_host]"
proof -
  obtain cfg where cfg: "global_save_json_config tree_api (\<lambda>_. []) ''0.0.0.0'' running_global = Some cfg"
    by (simp add: global_save_json_config_def running_global_def sample_global_def)
  moreover have "list_all proper_host (remotehosts running_global)" "distinct (map rh_port (remotehosts running_global))"
    by (simp_all add: running_global_def sample_host_def RemoteProxyHost_ctor_def proper_host_def sample_ep_def)
  ultimately show ?thesis
    using saved_config_keeps_hosts [OF tree_api_laws _ _ cfg] by (simp add: running_global_def)
qed

definition idle_live :: host_live where
  "idle_live = \<lparr>hl_local = (\<lambda>_. ([], 0)), hl_remote = (\<lambda>_. []), hl_count_in = (\<lambda>_. 0), hl_count_out = (\<lambda>_. 0)\<rparr>"

definition secret_host :: remote_host where
  "secret_host = sample_host\<lparr>rh_remote_ep := [(sample_ep ''a'')\<lparr>re_password := ''pw''\<rparr>]\<rparr>"


end
