(* ===== verification/Interrupted.thy ===== *)
theory Interrupted
  imports ProxyGlobal
begin

text \<open>
  What an exception leaves behind: the members of \<^verbatim>\<open>proxy_global\<close> when \<^verbatim>\<open>unpopulate_json\<close>, \<^verbatim>\<open>populate_json\<close> or \<^verbatim>\<open>lock\<close>
  of \<^verbatim>\<open>src/src/proxy_global.cpp\<close> is left in the middle. Nothing is undone, so the state is the one the
  statements before have made. Each function is used only where the operation of its name raises.
\<close>

section \<open>Removing\<close>

fun unpopulate_hosts_left :: "'j json_api \<Rightarrow> 'j list \<Rightarrow> remote_host list \<Rightarrow> remote_host list" where
  "unpopulate_hosts_left J items [] = []"
| "unpopulate_hosts_left J items (h # hs) =
     (case keep_host J h items False [] [] of
        Some (Inr (keep, removed)) \<Rightarrow>
          if keep then remove_any removed h # unpopulate_hosts_left J items hs else unpopulate_hosts_left J items hs
      | _ \<Rightarrow> h # hs)"

definition unpopulate_json_left :: "'j json_api \<Rightarrow> 'j \<Rightarrow> proxy_global \<Rightarrow> proxy_global" where
  "unpopulate_json_left J obj g =
     g\<lparr>localclients := unpopulate_clients (array_of J obj ''clients'') (localclients g),
       remotehosts := unpopulate_hosts_left J (array_of J obj ''hosts'') (remotehosts g)\<rparr>"

section \<open>Clients\<close>

text \<open>
  A client that cannot be made leaves the state alone, except that the constructor of a provider has
  counted when it fails on its own members.
\<close>

definition provider_counted :: "'j json_api \<Rightarrow> 'j \<Rightarrow> bool" where
  "provider_counted J item =
     (case after (check_bool J item ''active'' True False) (\<lambda>_.
           after (check_bool J item ''provider'' False False) (\<lambda>provider.
           after (check_int J item ''port'' 0 (\<not> provider)) (\<lambda>_.
           after (check_int J item ''activate.port'' 25500 False) (\<lambda>_.
           after (check_bool_ref J item ''auto_reconnect'' False) (\<lambda>_.
           after (check_int J item ''max_connections'' 1 False) (\<lambda>_.
           after (load_valid (RemoteEndpoint_load J RemoteEndpoint_ctor) (array_of J item ''remotes'') []) (\<lambda>_.
           after (load_valid (LocalEndpoint_load J LocalEndpoint_ctor) (array_of J item ''locals'') []) (\<lambda>locals.
             ret (provider \<and> length locals > 0))))))))) of
        Some (Inr b) \<Rightarrow> b
      | _ \<Rightarrow> False)"

definition populate_client_left :: "'j json_api \<Rightarrow> proxy_global \<Rightarrow> 'j \<Rightarrow> proxy_global" where
  "populate_client_left J g item = (if provider_counted J item then g\<lparr>static_local_id := static_local_id g + 1\<rparr> else g)"

fun populate_clients_left :: "'j json_api \<Rightarrow> setting \<Rightarrow> 'j list \<Rightarrow> proxy_global \<Rightarrow> proxy_global" where
  "populate_clients_left J S [] g = g"
| "populate_clients_left J S (x # xs) g =
     (case populate_client J S g x of
        Some (Inr g') \<Rightarrow> populate_clients_left J S xs g'
      | _ \<Rightarrow> populate_client_left J g x)"

section \<open>Hosts\<close>

fun update_hosts_left :: "'j json_api \<Rightarrow> 'j \<Rightarrow> remote_host list \<Rightarrow> remote_host list" where
  "update_hosts_left J item [] = []"
| "update_hosts_left J item (h # hs) =
     (case is_same_host J h item [] [] of
        Some (Inr r) \<Rightarrow>
          if sr_same r \<and> (sr_param r \<or> sr_locals r) then h # hs
          else (if sr_same r then remove_remotes (sr_removed r) (add_remotes (sr_added r) h) else h) # update_hosts_left J item hs
      | _ \<Rightarrow> h # hs)"

text \<open>The constructor of a host counts only behind its TLS context.\<close>

definition populate_host_left :: "'j json_api \<Rightarrow> proxy_global \<Rightarrow> 'j \<Rightarrow> proxy_global" where
  "populate_host_left J g item =
     (case update_hosts J item (remotehosts g) of
        Some (Inr (_, hosts)) \<Rightarrow> g\<lparr>remotehosts := hosts\<rparr>
      | _ \<Rightarrow> g\<lparr>remotehosts := update_hosts_left J item (remotehosts g)\<rparr>)"

fun populate_hosts_left :: "'j json_api \<Rightarrow> setting \<Rightarrow> 'j list \<Rightarrow> proxy_global \<Rightarrow> proxy_global" where
  "populate_hosts_left J S [] g = g"
| "populate_hosts_left J S (x # xs) g =
     (case populate_host J S g x of
        Some (Inr g') \<Rightarrow> populate_hosts_left J S xs g'
      | _ \<Rightarrow> populate_host_left J g x)"

section \<open>The other settings\<close>

fun populate_proxies_left :: "'j json_api \<Rightarrow> 'j list \<Rightarrow> LocalEndpoint list \<Rightarrow> LocalEndpoint list" where
  "populate_proxies_left J [] eps = eps"
| "populate_proxies_left J (x # xs) eps =
     (case LocalEndpoint_load J (LocalEndpoint_ctor\<lparr>le_port := 8085\<rparr>) x of
        Some (Inr (ok, ep)) \<Rightarrow>
          populate_proxies_left J xs (if ok \<and> find (\<lambda>e. LocalEndpoint_eq e ep) eps = None then eps @ [ep] else eps)
      | _ \<Rightarrow> eps)"

text \<open>The members are assigned in the order of the source; the TLS version before it is checked.\<close>

definition read_timeout :: "'j json_api \<Rightarrow> setting \<Rightarrow> 'j \<Rightarrow> bool \<times> int option \<Rightarrow> int \<Rightarrow> int" where
  "read_timeout J S obj oki old =
     (case oki of
        (True, Some i) \<Rightarrow> i
      | (True, None) \<Rightarrow> old
      | (False, _) \<Rightarrow> (case check_string_ref J obj ''activate.timeout'' [] of (True, s) \<Rightarrow> se_seconds S s old | (False, _) \<Rightarrow> old))"

definition populate_config_left :: "'j json_api \<Rightarrow> setting \<Rightarrow> 'j \<Rightarrow> proxy_global \<Rightarrow> proxy_global" where
  "populate_config_left J S obj g =
     (let g = g\<lparr>m_own_name := snd (check_string_ref J obj ''name'' (m_own_name g))\<rparr> in
      case check_bool_ref J obj ''debug'' (m_debug_flag g) of
        Some (Inr (_, dbg)) \<Rightarrow>
          (let g = g\<lparr>m_debug_flag := dbg, m_log_path := snd (check_string_ref J obj ''log_path'' (m_log_path g))\<rparr> in
           case check_int_ref J obj ''activate.timeout'' None of
             Some (Inr oki) \<Rightarrow>
               (let g = g\<lparr>m_activate_timeout := read_timeout J S obj oki (m_activate_timeout g)\<rparr> in
                case check_port J obj ''activate.port'' (m_activate_port g) of
                  Some (Inr (_, aport)) \<Rightarrow>
                    (let g = g\<lparr>m_activate_port := aport\<rparr> in
                     case check_int_ref J obj ''min_tls_protocol'' (Some (min_tls_protocol g)) of
                       Some (Inr (_, Some tls)) \<Rightarrow>
                         (let g = g\<lparr>min_tls_protocol := tls\<rparr> in
                          case check_bool_ref J obj ''accept_short_certificates'' (accept_short_certs g) of
                            Some (Inr (_, short)) \<Rightarrow>
                              (let g = g\<lparr>accept_short_certs := short\<rparr> in
                               if 12 \<le> tls \<and> tls \<le> 13
                               then g\<lparr>uniproxies := populate_proxies_left J (array_of J obj ''uniproxies'') (uniproxies g)\<rparr>
                               else g)
                          | _ \<Rightarrow> g)
                     | _ \<Rightarrow> g)
                | _ \<Rightarrow> g)
           | _ \<Rightarrow> g)
      | _ \<Rightarrow> g)"

section \<open>The whole configuration\<close>

definition populate_json_left :: "'j json_api \<Rightarrow> setting \<Rightarrow> nat \<Rightarrow> 'j \<Rightarrow> proxy_global \<Rightarrow> proxy_global" where
  "populate_json_left J S acl obj g =
     (let g = reset g in
      case if bit acl 1 then populate_clients J S (array_of J obj ''clients'') g else ret g of
        Some (Inr g) \<Rightarrow>
          (case if bit acl 0 then populate_hosts J S (array_of J obj ''hosts'') g else ret g of
             Some (Inr g) \<Rightarrow>
               (case if bit acl 2 \<and> jtype J (jfind J obj ''web'') = is_object
                     then after (check_port J (jfind J obj ''web'') ''port'' (m_web_port g)) (\<lambda>(_, p). ret (g\<lparr>m_web_port := p\<rparr>))
                     else ret g of
                  Some (Inr g) \<Rightarrow> populate_config_left J S (jfind J obj ''config'') g
                | _ \<Rightarrow> g)
           | _ \<Rightarrow> populate_hosts_left J S (array_of J obj ''hosts'') g)
      | _ \<Rightarrow> populate_clients_left J S (array_of J obj ''clients'') g)"

text \<open>The two steps of an upload, and \<^verbatim>\<open>lock\<close>, which has started the hosts before the one that fails and no client.\<close>

definition change_left :: "'j json_api \<Rightarrow> setting \<Rightarrow> 'j \<Rightarrow> proxy_global \<Rightarrow> proxy_global" where
  "change_left J S obj g =
     (case unpopulate_json J obj g of
        Some (Inr g) \<Rightarrow> populate_json_left J S 15 obj g
      | _ \<Rightarrow> unpopulate_json_left J obj g)"

fun start_hosts_left :: "(u16 \<Rightarrow> exn option) \<Rightarrow> remote_host list \<Rightarrow> remote_host list" where
  "start_hosts_left bound [] = []"
| "start_hosts_left bound (h # hs) =
     (case host_start (bound (rh_port h)) h of
        Some (Inr h') \<Rightarrow> h' # start_hosts_left bound hs
      | _ \<Rightarrow> h # hs)"

definition global_lock_left :: "(u16 \<Rightarrow> exn option) \<Rightarrow> proxy_global \<Rightarrow> proxy_global" where
  "global_lock_left bound g = g\<lparr>remotehosts := start_hosts_left bound (remotehosts g)\<rparr>"

end
