(* ===== verification/ProxyApp.thy ===== *)
theory ProxyApp
  imports StatusJson Interrupted
begin

text \<open>
  The application: the commands of the web interface \<^verbatim>\<open>proxy_app\<close> and the outer loop of \<^verbatim>\<open>main\<close> in
  \<^verbatim>\<open>src/src/main.cpp\<close>, and \<^verbatim>\<open>proxy_global::load_configuration\<close> of \<^verbatim>\<open>src/src/proxy_global.cpp\<close>. The JSON parser,
  the OpenSSL command and the copying of files are parameters; the entries of the log are texts. A
  \<^verbatim>\<open>reload_exception\<close> is not a \<^verbatim>\<open>std::exception\<close>: it passes the handlers and restarts the application.
\<close>

section \<open>State\<close>

record app =
  ap_global :: proxy_global
  ap_certs :: cert_state
  ap_log :: "string list"
  ap_log_all_data :: bool
  ap_data_logs :: bool

abbreviation config_filename :: string where "config_filename \<equiv> ''uniproxy.json''"
abbreviation backup_filename :: string where "backup_filename \<equiv> ''uniproxy.json.backup''"
abbreviation upload_filename :: string where "upload_filename \<equiv> ''upload.json''"

definition add_log :: "string \<Rightarrow> app \<Rightarrow> app" where
  "add_log line a = a\<lparr>ap_log := ap_log a @ [line]\<rparr>"

definition disk_file :: "string \<Rightarrow> app \<Rightarrow> string option" where
  "disk_file name a = files (cs_disk (ap_certs a)) name"

definition write_file :: "string \<Rightarrow> string \<Rightarrow> app \<Rightarrow> app" where
  "write_file name content a =
     (let st = ap_certs a; d = cs_disk st in
      if writable d name then a\<lparr>ap_certs := st\<lparr>cs_disk := d\<lparr>files := (files d)(name \<mapsto> content)\<rparr>\<rparr>\<rparr> else a)"

text \<open>
  The text of an exception; those of the JSON library and of boost have texts of their own, left empty
  here. \<^verbatim>\<open>config_upload\<close> logs an error of the program with its message in front.
\<close>

definition what :: "exn \<Rightarrow> string" where
  "what e = (case e of runtime_error m \<Rightarrow> m | system_error c m \<Rightarrow> m @ '': '' @ category_message (error_value c)
     | asio_error m \<Rightarrow> m | _ \<Rightarrow> [])"

definition upload_error :: "exn \<Rightarrow> string" where
  "upload_error e = (case e of system_error c m \<Rightarrow> ''Error: '' @ category_message (error_value c) @ '' '' @ what e
     | _ \<Rightarrow> what e)"

text \<open>A handler ends with the reload exception or without; undefined behaviour is \<open>None\<close>.\<close>

type_synonym handled_app = "(bool \<times> app) option"

section \<open>Commands\<close>

definition app_host_activate :: "setting \<Rightarrow> string \<Rightarrow> app \<Rightarrow> app" where
  "app_host_activate S param a = a\<lparr>ap_global := snd (host_activate S param (ap_global a))\<rparr>"

definition app_host_test :: "string \<Rightarrow> outside \<Rightarrow> nat \<Rightarrow> app \<Rightarrow> int" where
  "app_host_test param W now a = fst (host_test param W now (ap_global a))"

text \<open>
  A number is read into an uninitialised variable, and the command is obeyed when it is not zero. An
  exception of the command is logged by \<^verbatim>\<open>proxy_app::main\<close>.
\<close>

definition app_host_active :: "(u16 \<Rightarrow> exn option) \<Rightarrow> int \<Rightarrow> string \<Rightarrow> string \<Rightarrow> app \<Rightarrow> handled_app" where
  "app_host_active bound now sid checked a =
     (case from_string sid None of
        None \<Rightarrow> None
      | Some ident \<Rightarrow>
          (if ident \<noteq> 0 then
             (case host_set_active bound now ident (checked = ''true'') (ap_global a) of
                None \<Rightarrow> None
              | Some (Inl e) \<Rightarrow> 
                  Some (False, add_log (what e) (a\<lparr>ap_global := (ap_global a)\<lparr>remotehosts :=
                    host_active_left bound now ident (checked = ''true'') (remotehosts (ap_global a))\<rparr>\<rparr>))
              | Some (Inr g) \<Rightarrow> Some (False, a\<lparr>ap_global := g\<rparr>))
           else Some (False, a)))"

definition app_client_activate :: "setting \<Rightarrow> string \<Rightarrow> string \<Rightarrow> app \<Rightarrow> handled_app" where
  "app_client_activate S param sid a =
     (case client_activate S param sid (ap_global a) of None \<Rightarrow> None | Some (_, g) \<Rightarrow> Some (False, a\<lparr>ap_global := g\<rparr>))"

definition app_client_active :: "string \<Rightarrow> string \<Rightarrow> app \<Rightarrow> handled_app" where
  "app_client_active sid checked a =
     (case from_string sid None of
        None \<Rightarrow> None
      | Some ident \<Rightarrow>
          Some (False, if ident \<noteq> 0 then a\<lparr>ap_global := client_set_active ident (checked = ''true'') (ap_global a)\<rparr> else a))"

text \<open>Deleting the certificate of a client's end point restarts the application.\<close>

definition certificate_delete :: "'c x509 \<Rightarrow> string \<Rightarrow> app \<Rightarrow> bool \<times> app" where
  "certificate_delete X certname a =
     (let st = ap_certs a in
      case delete_certificate_file X (cs_disk st) my_certs_name certname of
        (False, d) \<Rightarrow> (False, add_log (''Completed deleting certificate '' @ certname) (a\<lparr>ap_certs := st\<lparr>cs_disk := d\<rparr>\<rparr>))
      | (True, d) \<Rightarrow>
          (let st = st\<lparr>cs_disk := d\<rparr>; a = a\<lparr>ap_certs := st\<rparr> in
           if client_certificate_exists certname (ap_global a)
           then (True, add_log (''Found matching client certificate '' @ certname) a)
           else
             let a = (if host_certificate_exists certname (ap_global a)
                      then add_log (''Found matching host certificate '' @ certname) a else a);
                 a = a\<lparr>ap_certs := snd (load_certificate_names X st my_certs_name)\<rparr>
             in (False, add_log (''Completed deleting certificate '' @ certname) a)))"

definition log_file :: "string \<Rightarrow> app \<Rightarrow> app" where
  "log_file param a = a\<lparr>ap_log_all_data := (param = ''true''), ap_data_logs := (param = ''true'')\<rparr>"

definition get_file :: "string \<Rightarrow> app \<Rightarrow> string" where
  "get_file name a = (case disk_file name a of None \<Rightarrow> [] | Some s \<Rightarrow> s)"

section \<open>Uploading a configuration\<close>

text \<open>
  What is sent: a file, which may not validate, or a form with its first field. \<open>copied\<close> tells for each
  of the two copies whether it succeeds; one that fails leaves its target as it was.
\<close>

datatype upload = NoPost | FileUpload bool string | FormData "string option"

definition copy_file :: "bool \<Rightarrow> string \<Rightarrow> string \<Rightarrow> app \<Rightarrow> (exn option \<times> app)" where
  "copy_file ok from to a =
     (case disk_file from a of
        Some content \<Rightarrow> if ok then (None, write_file to content a) else (Some (system_error file_failed_copy (from @ '' to '' @ to)), a)
      | None \<Rightarrow> (Some (system_error file_failed_copy (from @ '' to '' @ to)), a))"

text \<open>
  The part behind the copies: restart, or change what runs. An exception in the middle of the change
  leaves the global state as \<open>Interrupted\<close> has it, until the restart.
\<close>

definition apply_configuration ::
    "'j json_api \<Rightarrow> setting \<Rightarrow> (u16 \<Rightarrow> exn option) \<Rightarrow> 'j \<Rightarrow> app \<Rightarrow> (exn + bool \<times> app) option" where
  "apply_configuration J S bound obj a =
     (case is_new_configuration J obj (ap_global a) of
        None \<Rightarrow> None
      | Some (Inl e) \<Rightarrow> Some (Inl e)
      | Some (Inr True) \<Rightarrow>
          Some (Inr (True, add_log ''Configuration changed sufficiently to warrant a restart. All connections will be closed'' a))
      | Some (Inr False) \<Rightarrow>
          (let failed = (\<lambda>g a. Inr (True, add_log ''Configuration update failed to warrant a restart. All connections will be closed''
                 (a\<lparr>ap_global := g\<rparr>))) in
           case after (unpopulate_json J obj (ap_global a)) (populate_json J S 15 obj) of
             None \<Rightarrow> None
           | Some (Inl e) \<Rightarrow> Some (failed (change_left J S obj (ap_global a)) a)
           | Some (Inr g) \<Rightarrow>
               (let a = add_log ''Updated configuration without restart, now starting all connections'' a in
                case global_lock bound g of
                  None \<Rightarrow> None
                | Some (Inl e) \<Rightarrow> Some (failed (global_lock_left bound g) a)
                | Some (Inr g) \<Rightarrow> Some (Inr (False, a\<lparr>ap_global := g\<rparr>)))))"

definition save_upload :: "upload \<Rightarrow> app \<Rightarrow> exn option \<times> app" where
  "save_upload up a =
     (case up of
        NoPost \<Rightarrow> (None, a)
      | FileUpload ok content \<Rightarrow>
          if ok then (None, write_file upload_filename content a) else (Some (system_error parse_file_failed upload_filename), a)
      | FormData None \<Rightarrow> (Some (system_error parse_file_failed upload_filename), a)
      | FormData (Some content) \<Rightarrow> (None, write_file upload_filename content a))"

definition upload_body ::
    "'j json_api \<Rightarrow> setting \<Rightarrow> (string \<Rightarrow> 'j option) \<Rightarrow> (u16 \<Rightarrow> exn option) \<Rightarrow> bool \<Rightarrow> bool \<Rightarrow> app \<Rightarrow> ((exn + bool) \<times> app) option" where
  "upload_body J S parse bound copied1 copied2 a =
     (case Option.bind (disk_file upload_filename a) parse of
        None \<Rightarrow> Some (Inl (system_error parse_file_failed upload_filename), a)
      | Some obj \<Rightarrow>
          (case (if disk_file config_filename a = None then (None, a) else copy_file copied1 config_filename backup_filename a) of
             (Some e, a) \<Rightarrow> Some (Inl e, a)
           | (None, a) \<Rightarrow>
               (case copy_file copied2 upload_filename config_filename a of
                  (Some e, a) \<Rightarrow> Some (Inl e, a)
                | (None, a) \<Rightarrow>
                    (case apply_configuration J S bound obj a of
                       None \<Rightarrow> None
                     | Some (Inl e) \<Rightarrow> Some (Inl e, a)
                     | Some (Inr (reload, a)) \<Rightarrow> Some (Inr reload, a)))))"

definition config_upload ::
    "'j json_api \<Rightarrow> setting \<Rightarrow> (string \<Rightarrow> 'j option) \<Rightarrow> (u16 \<Rightarrow> exn option) \<Rightarrow> bool \<Rightarrow> bool \<Rightarrow> upload \<Rightarrow> app \<Rightarrow> handled_app" where
  "config_upload J S parse bound copied1 copied2 up a =
     (if up = NoPost then Some (False, a)
      else
        case save_upload up a of
          (Some e, a) \<Rightarrow> Some (False, add_log (upload_error e) a)
        | (None, a) \<Rightarrow>
            (case upload_body J S parse bound copied1 copied2 a of
               None \<Rightarrow> None
             | Some (Inl e, a) \<Rightarrow> Some (False, add_log (upload_error e) a)
             | Some (Inr reload, a) \<Rightarrow> Some (reload, a)))"

section \<open>What an upload does to the files\<close>

lemma disk_file_simps [simp]:
  "disk_file n (a\<lparr>ap_log := ls\<rparr>) = disk_file n a" "disk_file n (add_log l a) = disk_file n a" "disk_file n (a\<lparr>ap_global := g\<rparr>) = disk_file n a"
  "ap_global (add_log l a) = ap_global a" "ap_global (write_file m c a) = ap_global a" "ap_log (write_file m c a) = ap_log a"
  by (simp_all add: disk_file_def add_log_def write_file_def Let_def)

lemma disk_file_write:
  "disk_file n (write_file m c a) = (if n = m \<and> writable (cs_disk (ap_certs a)) m then Some c else disk_file n a)"
  "writable (cs_disk (ap_certs (write_file m c a))) = writable (cs_disk (ap_certs a))"
  by (auto simp: disk_file_def write_file_def Let_def)

lemma copy_file_simps:
  "copy_file ok from to a = (e, a') \<Longrightarrow> ap_global a' = ap_global a \<and> (\<forall>n. n \<noteq> to \<longrightarrow> disk_file n a' = disk_file n a)
     \<and> writable (cs_disk (ap_certs a')) = writable (cs_disk (ap_certs a))
     \<and> (e \<noteq> None \<longrightarrow> a' = a) \<and> (e = None \<longrightarrow> writable (cs_disk (ap_certs a)) to \<longrightarrow> disk_file to a' = disk_file from a)
     \<and> (e = None \<longrightarrow> \<not> writable (cs_disk (ap_certs a)) to \<longrightarrow> disk_file to a' = disk_file to a)"
  by (auto simp: copy_file_def disk_file_write split: option.splits if_splits)

lemma apply_configuration_files:
  "apply_configuration J S bound obj a = Some (Inr (r, a')) \<Longrightarrow> disk_file n a' = disk_file n a"
  by (auto simp: apply_configuration_def Let_def split: option.splits sum.splits bool.splits)

lemma save_upload_simps:
  "save_upload up a = (e, a') \<Longrightarrow> ap_global a' = ap_global a \<and> (\<forall>n. n \<noteq> upload_filename \<longrightarrow> disk_file n a' = disk_file n a)
     \<and> writable (cs_disk (ap_certs a')) = writable (cs_disk (ap_certs a)) \<and> ap_log a' = ap_log a"
  by (auto simp: save_upload_def disk_file_write split: upload.splits option.splits if_splits)

text \<open>The configuration file is the old one, or a text that was parsed, with the old one kept as the backup.\<close>

definition safely_replaced :: "(string \<Rightarrow> 'j option) \<Rightarrow> app \<Rightarrow> app \<Rightarrow> bool" where
  "safely_replaced parse a a' \<longleftrightarrow> disk_file config_filename a' = disk_file config_filename a
     \<or> (\<exists>content. disk_file config_filename a' = Some content \<and> parse content \<noteq> None
         \<and> (\<forall>old. disk_file config_filename a = Some old \<longrightarrow> disk_file backup_filename a' = Some old))"

lemma upload_body_files:
  assumes "upload_body J S parse bound c1 c2 a = Some (r, a')" "writable (cs_disk (ap_certs a)) backup_filename"
  shows "safely_replaced parse a a'"
proof (cases "Option.bind (disk_file upload_filename a) parse")
  case None
  then show ?thesis
    using assms(1) by (auto simp: upload_body_def safely_replaced_def)
next
  case (Some obj)
  then obtain content where up: "disk_file upload_filename a = Some content" "parse content = Some obj"
    by (auto simp: bind_eq_Some_conv)
  obtain e1 a1 where c1: "(if disk_file config_filename a = None then (None, a) else copy_file c1 config_filename backup_filename a) = (e1, a1)"
    by (metis prod.exhaust)
  have a1: "disk_file config_filename a1 = disk_file config_filename a" "disk_file upload_filename a1 = Some content"
    "e1 = None \<Longrightarrow> disk_file config_filename a = Some old \<Longrightarrow> disk_file backup_filename a1 = Some old" for old
    using c1 assms(2) up copy_file_simps [of c1 config_filename backup_filename a e1 a1] by (auto split: if_splits)
  obtain e2 a2 where c2: "copy_file c2 upload_filename config_filename a1 = (e2, a2)"
    by (metis prod.exhaust)
  note cp = copy_file_simps [OF c2]
  have a2: "safely_replaced parse a a2" if "e1 = None"
    using cp a1 that up by (auto simp: safely_replaced_def)
  have 0: "safely_replaced parse a a1"
    using a1(1) by (simp add: safely_replaced_def)
  have 3: "safely_replaced parse a a3" if "e1 = None" "apply_configuration J S bound obj a2 = Some (Inr (b, a3))" for b a3
    using a2 [OF that(1)] apply_configuration_files [OF that(2)] by (simp add: safely_replaced_def)
  show ?thesis
    using assms(1) Some c1 c2 0 a2 3 by (auto simp: upload_body_def split: option.splits sum.splits)
qed

section \<open>What an upload does to the hosts\<close>

lemma populate_clients_hosts: "populate_clients J S items g = ret g' \<Longrightarrow> remotehosts g' = remotehosts g"
proof (induction J S items g rule: populate_clients.induct)
  case (2 J S x xs g)
  then obtain g1 where g1: "populate_client J S g x = ret g1" "populate_clients J S xs g1 = ret g'"
    by (auto simp: after_eq_ret)
  then have "remotehosts g1 = remotehosts g"
    by (auto dest!: populate_client_adds)
  with 2 g1 show ?case
    by simp
qed simp

lemma populate_config_hosts: "populate_config J S obj g = ret g' \<Longrightarrow> remotehosts g' = remotehosts g"
  by (auto simp: populate_config_def after_eq_ret Let_def split: if_splits option.splits prod.splits)

text \<open>Descriptions of the hosts that run.\<close>

definition describes_running :: "'j json_api \<Rightarrow> 'j \<Rightarrow> remote_host list \<Rightarrow> bool" where
  "describes_running J obj hs \<longleftrightarrow> (\<exists>cfgs. list_all2 (describes J) (array_of J obj ''hosts'') cfgs \<and> list_all well_formed cfgs
     \<and> distinct (map hc_port cfgs) \<and> list_all2 matches hs cfgs)"

lemma populate_json_hosts:
  assumes "json_laws J" "describes_running J obj (remotehosts g)" "populate_json J S 15 obj g = ret g'"
  shows "remotehosts g' = remotehosts g"
proof -
  obtain g1 g2 g3 where
    g1: "populate_clients J S (array_of J obj ''clients'') (reset g) = ret g1" and
    g2: "populate_hosts J S (array_of J obj ''hosts'') g1 = ret g2" and
    g3: "(if jtype J (jfind J obj ''web'') = is_object
          then after (check_port J (jfind J obj ''web'') ''port'' (m_web_port g2)) (\<lambda>(_, p). ret (g2\<lparr>m_web_port := p\<rparr>))
          else ret g2) = ret g3" and
    g4: "(if jtype J (jfind J obj ''config'') = is_object
          then populate_config J S (jfind J obj ''config'') g3 else ret g3) = ret g'"
    using assms(3) unfolding populate_json_def Let_def after_eq_ret by (auto simp: bit_0)
  have h1: "remotehosts g1 = remotehosts g"
    using populate_clients_hosts [OF g1] by (simp add: reset_def)
  obtain cfgs where c: "list_all2 (describes J) (array_of J obj ''hosts'') cfgs" "list_all well_formed cfgs"
      "distinct (map hc_port cfgs)" "list_all2 matches (remotehosts g1) cfgs"
    using assms(2) h1 by (auto simp: describes_running_def)
  have "g2 = g1"
    using populate_hosts_same [OF assms(1) c(4,3,2,1), of S] g2 by simp
  moreover have "remotehosts g3 = remotehosts g2"
    using g3 by (auto simp: after_eq_ret split: if_splits)
  moreover have "remotehosts g' = remotehosts g3"
    using g4 populate_config_hosts by (auto split: if_splits)
  ultimately show ?thesis
    using h1 by simp
qed

lemma unpopulate_json_hosts:
  assumes "json_laws J" "describes_running J obj (remotehosts g)" "unpopulate_json J obj g = ret g'"
  shows "remotehosts g' = remotehosts g"
proof -
  obtain cfgs where c: "list_all2 (describes J) (array_of J obj ''hosts'') cfgs" "list_all well_formed cfgs"
      "distinct (map hc_port cfgs)" "list_all2 matches (remotehosts g) cfgs"
    using assms(2) by (auto simp: describes_running_def)
  have "list_all (\<lambda>h. \<exists>cfg \<in> set cfgs. matches h cfg) (remotehosts g)"
    using c(4) by (induction rule: list_all2_induct) (auto elim: list.pred_mono_strong)
  then have "unpopulate_hosts J (array_of J obj ''hosts'') (remotehosts g) = ret (remotehosts g)"
    by (rule unpopulate_same [OF assms(1) c(1-3)])
  then show ?thesis
    using assms(3) by (auto simp: unpopulate_json_def Let_def)
qed

lemma start_hosts_running: "list_all rh_running hs \<Longrightarrow> start_hosts bound hs = ret hs"
  by (induction hs) (auto simp: host_start_def)

lemma apply_configuration_updates:
  assumes "apply_configuration J S bound obj a = Some (Inr (False, a'))"
  obtains g g' where "after (unpopulate_json J obj (ap_global a)) (populate_json J S 15 obj) = ret g"
    "global_lock bound g = ret g'" "ap_global a' = g'"
proof -
  have "is_new_configuration J obj (ap_global a) = Some (Inr False)"
    using assms by (auto simp: apply_configuration_def split: option.splits sum.splits bool.splits)
  with assms obtain g where g: "after (unpopulate_json J obj (ap_global a)) (populate_json J S 15 obj) = Some (Inr g)"
    by (auto simp: apply_configuration_def Let_def split: option.splits sum.splits)
  with assms \<open>is_new_configuration J obj (ap_global a) = Some (Inr False)\<close> obtain g'
    where "global_lock bound g = Some (Inr g')" "ap_global a' = g'"
    by (auto simp: apply_configuration_def Let_def split: option.splits sum.splits)
  with g that show ?thesis
    by (simp add: ret_def)
qed

lemma apply_configuration_hosts:
  assumes "json_laws J" "describes_running J obj (remotehosts (ap_global a))" "list_all rh_running (remotehosts (ap_global a))"
    "apply_configuration J S bound obj a = Some (Inr (False, a'))"
  shows "remotehosts (ap_global a') = remotehosts (ap_global a)"
proof -
  obtain g2 where u: "after (unpopulate_json J obj (ap_global a)) (populate_json J S 15 obj) = ret g2" "global_lock bound g2 = ret (ap_global a')"
    using assms(4) by (rule apply_configuration_updates) simp
  then obtain g1 where g: "unpopulate_json J obj (ap_global a) = ret g1" "populate_json J S 15 obj g1 = ret g2"
    by (auto simp: after_eq_ret)
  have "remotehosts g1 = remotehosts (ap_global a)"
    by (rule unpopulate_json_hosts [OF assms(1,2) g(1)])
  moreover from this have "remotehosts g2 = remotehosts g1"
    using populate_json_hosts [OF assms(1) _ g(2)] assms(2) by simp
  ultimately show ?thesis
    using u(2) assms(3) start_hosts_running [of "remotehosts g2" bound] by (auto simp: global_lock_def dest!: arg_cong [of _ _ remotehosts])
qed

lemma copy_file_global: "copy_file ok from to a = (e, a') \<Longrightarrow> ap_global a' = ap_global a"
  by (auto dest: copy_file_simps)

lemma upload_body_raises: "upload_body J S parse bound copied1 copied2 a = Some (Inl e, a') \<Longrightarrow> ap_global a' = ap_global a"
  by (auto simp: upload_body_def dest!: copy_file_global split: option.splits sum.splits if_splits prod.splits)

lemma upload_body_hosts:
  assumes "json_laws J" "upload_body J S parse bound copied1 copied2 a = Some (Inr False, a')"
    and "disk_file upload_filename a = Some content" "parse content = Some obj"
    and "describes_running J obj (remotehosts (ap_global a))" "list_all rh_running (remotehosts (ap_global a))"
  shows "remotehosts (ap_global a') = remotehosts (ap_global a)"
proof -
  obtain e1 a1 where c1: "(if disk_file config_filename a = None then (None, a) else copy_file copied1 config_filename backup_filename a) = (e1, a1)"
    by (metis prod.exhaust)
  then have g1: "ap_global a1 = ap_global a"
    using copy_file_simps [of copied1 config_filename backup_filename a e1 a1] by (auto split: if_splits)
  obtain e2 a2 where c2: "copy_file copied2 upload_filename config_filename a1 = (e2, a2)"
    by (metis prod.exhaust)
  have g2: "ap_global a2 = ap_global a"
    using copy_file_simps [OF c2] g1 by simp
  have 3: "remotehosts (ap_global a3) = remotehosts (ap_global a)" if "apply_configuration J S bound obj a2 = Some (Inr (False, a3))" for a3
    using apply_configuration_hosts [OF assms(1) _ _ that] assms(5,6) g2 by simp
  have "Option.bind (disk_file upload_filename a) parse = Some obj"
    using assms(3,4) by simp
  then show ?thesis
    using assms(2) c1 c2 g1 g2 3 by (auto simp: upload_body_def split: option.splits sum.splits)
qed

section \<open>Starting the application\<close>

text \<open>
  What \<^verbatim>\<open>load_configuration\<close> finds outside: the parser, the certificate library, whether the key and the
  certificate can be used, and the OpenSSL command that makes both for a name.
\<close>

record ('j, 'c) startup =
  su_json :: "'j json_api"
  su_setting :: setting
  su_parse :: "string \<Rightarrow> 'j option"
  su_x509 :: "'c x509"
  su_key_ok :: "cert_state \<Rightarrow> bool"
  su_openssl :: "string \<Rightarrow> cert_state \<Rightarrow> bool \<times> cert_state"

datatype load_result = Reload | Loaded bool

text \<open>
  The certificate part: the own certificate's name and whether both files are good. The last argument
  of the next definitions is the static counter of the OpenSSL runs.
\<close>

definition own_certificate :: "('j, 'c) startup \<Rightarrow> app \<Rightarrow> string \<times> bool \<times> app" where
  "own_certificate E a =
     (let st = ap_certs a;
          private = (disk_file my_private_key_name a \<noteq> None \<and> su_key_ok E st);
          a = (if disk_file my_private_key_name a \<noteq> None \<and> \<not> private
               then add_log (''Found private file which does NOT contain a valid private key. Delete file: '' @ my_private_key_name @ '' and try again'') a else a);
          (ok, certs) = load_certificates_file (su_x509 E) (cs_disk st) my_public_cert_name [];
          public = (ok \<and> length certs > 0);
          name = (if public then get_common_name (su_x509 E) (certs ! 0) else []);
          a = (if public \<and> m_own_name (ap_global a) \<noteq> name
               then add_log (''Own name \"'' @ m_own_name (ap_global a) @ ''\" does not match own certificate \"'' @ name @ ''\"'') a else a)
      in (name, private \<and> public, a))"

definition make_certificate :: "('j, 'c) startup \<Rightarrow> app \<Rightarrow> nat \<Rightarrow> bool \<times> app \<times> nat" where
  "make_certificate E a count =
     (case su_openssl E (m_own_name (ap_global a)) (ap_certs a) of
        (False, st) \<Rightarrow> (False, add_log ''Failed to execute initial OpenSSL command. Is OpenSSL properly installed and available in the path'' (a\<lparr>ap_certs := st\<rparr>), count)
      | (True, st) \<Rightarrow>
          (let a = a\<lparr>ap_certs := st\<rparr>; count = count + 1 in
           if count < 3 then (True, add_log ''Succesfully executed the initial OpenSSL command'' a, count)
           else (False, add_log ''Unkown fatal error, possibly endless loop!'' a, count)))"

text \<open>
  The rest: the file of certificates is created, and all of the configuration is loaded. A file that
  cannot be read again gives the empty configuration, noted in the log without its line number.
\<close>

definition load_all :: "('j, 'c) startup \<Rightarrow> string \<Rightarrow> app \<Rightarrow> (load_result \<times> app) option" where
  "load_all E name a =
     (let a = (if disk_file my_certs_name a = None then write_file my_certs_name [] a else a);
          g = ap_global a;
          names = (\<lambda>a. a\<lparr>ap_certs := snd (load_certificate_names (su_x509 E) (ap_certs a) my_certs_name)\<rparr>) in
      if length (m_own_name g) > 0 \<and> m_own_name g = name then
        (let parsed = Option.bind (disk_file config_filename a) (su_parse E);
             a = (if parsed = None then add_log (''Failed to load and parse configuration file: '' @ config_filename) a else a);
             obj = (case parsed of None \<Rightarrow> jundef (su_json E) | Some obj \<Rightarrow> obj) in
         case populate_json (su_json E) (su_setting E) 15 obj g of
           None \<Rightarrow> None
         | Some (Inl e) \<Rightarrow> Some (Loaded False, a\<lparr>ap_global := populate_json_left (su_json E) (su_setting E) 15 obj g\<rparr>)
         | Some (Inr g) \<Rightarrow> Some (Loaded True, names (a\<lparr>ap_global := g\<rparr>)))
      else Some (Loaded True, names a))"

definition load_configuration :: "('j, 'c) startup \<Rightarrow> app \<Rightarrow> nat \<Rightarrow> (load_result \<times> app \<times> nat) option" where
  "load_configuration E a count =
     (case Option.bind (disk_file config_filename a) (su_parse E) of
        None \<Rightarrow> Some (Loaded False, a, count)
      | Some obj \<Rightarrow>
          (case populate_json (su_json E) (su_setting E) 12 obj (ap_global a) of
             None \<Rightarrow> None
           | Some (Inl e) \<Rightarrow> Some (Loaded False, a\<lparr>ap_global := populate_json_left (su_json E) (su_setting E) 12 obj (ap_global a)\<rparr>, count)
           | Some (Inr g) \<Rightarrow>
               (let a = a\<lparr>ap_global := g\<rparr> in
                if m_own_name g = [] then Some (Loaded False, a, count)
                else
                  case own_certificate E a of (name, good, a) \<Rightarrow>
                    if good then map_option (\<lambda>(r, a). (r, a, count)) (load_all E name a)
                    else
                      case make_certificate E a count of (reload, a, count) \<Rightarrow>
                        if reload then Some (Reload, a, count)
                        else map_option (\<lambda>(r, a). (r, a, count)) (load_all E name a))))"

lemma load_all_result: "load_all E name a = Some (r, a') \<Longrightarrow> r \<noteq> Reload"
  by (auto simp: load_all_def Let_def split: option.splits sum.splits if_splits)

lemma reload_counts: "load_configuration E a count = Some (Reload, a', n) \<Longrightarrow> n = count + 1 \<and> n < 3"
  by (auto simp: load_configuration_def make_certificate_def Let_def dest: load_all_result
      split: option.splits sum.splits prod.splits if_splits bool.splits)

lemma load_counts: "load_configuration E a count = Some (r, a', n) \<Longrightarrow> count \<le> n \<and> n \<le> count + 1"
  by (auto simp: load_configuration_def make_certificate_def Let_def
      split: option.splits sum.splits prod.splits if_splits bool.splits)

text \<open>
  The outer loop of \<^verbatim>\<open>main\<close> up to the first run of the web service: a reload starts over, with an empty
  log.
\<close>

function boot :: "('j, 'c) startup \<Rightarrow> app \<Rightarrow> nat \<Rightarrow> (bool \<times> app \<times> nat) option" where
  "boot E a count =
     (case load_configuration E (a\<lparr>ap_log := [''UniProxy starting'']\<rparr>) count of
        None \<Rightarrow> None
      | Some (Reload, a, count) \<Rightarrow> boot E a count
      | Some (Loaded ok, a, count) \<Rightarrow>
          Some (ok, if ok then a else add_log ''Failed to load configuration'' a, count))"
  by pat_completeness auto
termination
  by (relation "measure (\<lambda>(E, a, count). 3 - count)") (auto dest: reload_counts)

declare boot.simps [simp del]

lemma own_certificate_missing:
  "disk_file my_private_key_name a = None \<Longrightarrow>
     \<exists>name a'. own_certificate E a = (name, False, a') \<and> ap_global a' = ap_global a \<and> ap_certs a' = ap_certs a"
  by (cases "load_certificates_file (su_x509 E) (cs_disk (ap_certs a)) my_public_cert_name []")
     (simp add: own_certificate_def add_log_def Let_def)

lemma load_all_ok:
  assumes "m_own_name (ap_global b) = name" "name \<noteq> []" "disk_file config_filename b = Some content" "su_parse E content = Some obj"
    and "populate_json (su_json E) (su_setting E) 15 obj (ap_global b) = ret g"
  shows "\<exists>b'. load_all E name b = Some (Loaded True, b') \<and> ap_global b' = g"
proof -
  define b1 where "b1 = (if disk_file my_certs_name b = None then write_file my_certs_name [] b else b)"
  have "ap_global b1 = ap_global b" "disk_file config_filename b1 = Some content"
    using assms(3) by (simp_all add: b1_def disk_file_write)
  then show ?thesis
    using assms by (simp add: load_all_def Let_def ret_def flip: b1_def)
qed

lemma boot_result:
  "\<forall>x n. load_configuration E x n \<noteq> None \<Longrightarrow> \<exists>ok a' n. boot E a count = Some (ok, a', n) \<and> count \<le> n \<and> n \<le> max (count + 1) 3"
proof (induction E a count rule: boot.induct)
  case (1 E a count)
  obtain r a1 n1 where l: "load_configuration E (a\<lparr>ap_log := [''UniProxy starting'']\<rparr>) count = Some (r, a1, n1)"
    using 1(2) by (metis option.exhaust prod.exhaust)
  show ?case
  proof (cases r)
    case Reload
    then have n1: "n1 = count + 1" "n1 < 3"
      using reload_counts [of E "a\<lparr>ap_log := [''UniProxy starting'']\<rparr>" count a1 n1] l by simp_all
    have "\<exists>ok a' n. boot E a1 n1 = Some (ok, a', n) \<and> n1 \<le> n \<and> n \<le> max (n1 + 1) 3"
      using 1(1) [OF l] Reload 1(2) by simp
    then show ?thesis
      using l Reload n1 by (subst boot.simps) auto
  next
    case (Loaded ok)
    then show ?thesis
      using l load_counts [OF l] by (subst boot.simps) auto
  qed
qed

text \<open>A start that finds a usable key and certificate loads everything.\<close>

lemma load_configuration_good:
  assumes "disk_file config_filename b = Some content" "su_parse E content = Some obj"
    and "populate_json (su_json E) (su_setting E) 12 obj (ap_global b) = ret g2" "m_own_name g2 \<noteq> []"
    and "disk_file my_private_key_name b \<noteq> None" "su_key_ok E (ap_certs b)"
    and "load_certificates_file (su_x509 E) (cs_disk (ap_certs b)) my_public_cert_name [] = (True, c # cs)"
    and "get_common_name (su_x509 E) c = m_own_name g2" "populate_json (su_json E) (su_setting E) 15 obj g2 = ret g3"
  shows "\<exists>a3. load_configuration E b count = Some (Loaded True, a3, count) \<and> ap_global a3 = g3"
proof -
  let ?b = "b\<lparr>ap_global := g2\<rparr>"
  have own: "own_certificate E ?b = (m_own_name g2, True, ?b)"
    using assms(5-8) by (simp add: own_certificate_def disk_file_def Let_def)
  obtain a3 where a3: "load_all E (m_own_name g2) ?b = Some (Loaded True, a3)" "ap_global a3 = g3"
    using load_all_ok [of ?b "m_own_name g2" content E obj g3] assms(1,2,4,9) by auto
  then show ?thesis
    using assms(1-4) own by (simp add: load_configuration_def ret_def)
qed

section \<open>Properties\<close>

text \<open>
  C9: uploading the configuration that runs disturbs no host. When the uploaded configuration
  describes the hosts that run, with distinct ports and valid end points, then after the upload the
  hosts are what they were, with every connection, whatever else of the configuration changes and
  whichever copy of a file fails, unless the application is restarted as a whole.
\<close>

theorem upload_keeps_hosts:
  assumes "json_laws J" and "config_upload J S parse bound copied1 copied2 (FormData (Some content)) a = Some (False, a')"
    and "writable (cs_disk (ap_certs a)) upload_filename" and "parse content = Some obj"
    and "describes_running J obj (remotehosts (ap_global a))" and "list_all rh_running (remotehosts (ap_global a))"
  shows "remotehosts (ap_global a') = remotehosts (ap_global a)"
proof -
  let ?a = "write_file upload_filename content a"
  consider (updated) "upload_body J S parse bound copied1 copied2 ?a = Some (Inr False, a')"
    | (raised) e a2 where "upload_body J S parse bound copied1 copied2 ?a = Some (Inl e, a2)" "a' = add_log (upload_error e) a2"
    using assms(2) by (auto simp: config_upload_def save_upload_def split: option.splits sum.splits)
  then show ?thesis
  proof cases
    case updated
    then show ?thesis
      using upload_body_hosts [of J S parse bound copied1 copied2 ?a a' content obj] assms by (simp add: disk_file_write)
  next
    case raised
    then show ?thesis
      using upload_body_raises [OF raised(1)] by simp
  qed
qed



text \<open>
  C23: a first start makes its own certificate. With a configuration that can be loaded and gives a
  name, without a private key, and an OpenSSL that makes a usable key and a certificate of that
  name, the application starts over once and then has loaded the whole configuration.
\<close>

theorem first_start_succeeds:
  assumes "disk_file config_filename a = Some content" and "su_parse E content = Some obj"
    and "populate_json (su_json E) (su_setting E) 12 obj (ap_global a) = ret g1" and "m_own_name g1 \<noteq> []"
    and "disk_file my_private_key_name a = None"
    and "su_openssl E (m_own_name g1) (ap_certs a) = (True, st)"
    and "files (cs_disk st) config_filename = Some content" and "files (cs_disk st) my_private_key_name \<noteq> None" and "su_key_ok E st"
    and "load_certificates_file (su_x509 E) (cs_disk st) my_public_cert_name [] = (True, c # cs)"
    and "get_common_name (su_x509 E) c = m_own_name g1"
    and "populate_json (su_json E) (su_setting E) 12 obj g1 = ret g2" and "m_own_name g2 = m_own_name g1"
    and "populate_json (su_json E) (su_setting E) 15 obj g2 = ret g3"
  shows "\<exists>a'. boot E a 0 = Some (True, a', 1) \<and> ap_global a' = g3"
proof -
  let ?a = "a\<lparr>ap_log := [''UniProxy starting'']\<rparr>"
  have f: "disk_file n ?a = disk_file n a" for n
    by (simp add: disk_file_def)
  obtain name a1 where own: "own_certificate E (?a\<lparr>ap_global := g1\<rparr>) = (name, False, a1)"
      and a1: "ap_global a1 = g1" "ap_certs a1 = ap_certs a"
    using own_certificate_missing [of "?a\<lparr>ap_global := g1\<rparr>" E] assms(5) by auto
  define a2 where "a2 = add_log ''Succesfully executed the initial OpenSSL command'' (a1\<lparr>ap_certs := st\<rparr>)"
  have l1: "load_configuration E ?a 0 = Some (Reload, a2, 1)"
    using assms(1-6) own a1 f by (simp add: load_configuration_def make_certificate_def a2_def ret_def)
  have a2: "ap_global a2 = g1" "ap_certs a2 = st"
    by (simp_all add: a2_def a1) (simp add: add_log_def)
  let ?b = "a2\<lparr>ap_log := [''UniProxy starting'']\<rparr>"
  have fb: "disk_file n ?b = files (cs_disk st) n" for n
    by (simp add: disk_file_def a2)
  obtain a3 where l2: "load_configuration E ?b 1 = Some (Loaded True, a3, 1)" and a3: "ap_global a3 = g3"
    using load_configuration_good [of ?b content E obj g2 c cs g3 1] assms(2,4,7-14) fb a2 by auto
  have "boot E a2 1 = Some (True, a3, 1)"
    using l2 by (subst boot.simps) simp
  then have "boot E a 0 = Some (True, a3, 1)"
    using l1 by (subst boot.simps) simp
  then show ?thesis
    using a3 by blast
qed

section \<open>Instances\<close>

text \<open>A configuration with the name of the proxy and one host, as a file that any text parses to.\<close>

definition sample_text :: string where "sample_text = ''configuration''"

definition sample_config_object :: tree where
  "sample_config_object =
     Object [(''config'', Object [(''name'', String ''me'')]), (''config.name'', String ''me''),
       (''hosts'', Array [sample_item [sample_ep ''a'', sample_ep ''b'']])]"

definition sample_parse :: "string \<Rightarrow> tree option" where
  "sample_parse s = (if s = sample_text then Some sample_config_object else None)"

definition sample_state :: "string list \<Rightarrow> cert_state" where
  "sample_state names =
     \<lparr>cs_disk = \<lparr>files = (\<lambda>n. if n \<in> set names then Some sample_text else None), writable = (\<lambda>_. True)\<rparr>,
      m_cert_names = [], cs_logged = []\<rparr>"

definition sample_app :: app where
  "sample_app =
     \<lparr>ap_global = sample_global\<lparr>remotehosts := [sample_host\<lparr>rh_running := True\<rparr>]\<rparr>, ap_certs = sample_state [config_filename],
      ap_log = [], ap_log_all_data = False, ap_data_logs = False\<rparr>"

lemma sample_config_simps:
  "array_of tree_api sample_config_object ''hosts'' = [sample_item [sample_ep ''a'', sample_ep ''b'']]"
  "array_of tree_api sample_config_object ''clients'' = []"
  "jfind tree_api sample_config_object ''config'' = Object [(''name'', String ''me'')]"
  "jfind tree_api sample_config_object ''config.name'' = String ''me''"
  "jfind tree_api sample_config_object ''config.uniproxies'' = Undefined"
  "jfind tree_api sample_config_object ''web'' = Undefined"
  by (simp_all add: sample_config_object_def array_of_def json_simps)

lemma sample_running: "describes_running tree_api sample_config_object (remotehosts (ap_global sample_app))"
proof -
  have "matches (sample_host\<lparr>rh_running := True\<rparr>) (sample_config [sample_ep ''a'', sample_ep ''b''])"
    by (simp add: matches_def sample_host_def sample_config_def RemoteProxyHost_ctor_def standard_plugin_def)
  moreover have "well_formed (sample_config [sample_ep ''a'', sample_ep ''b''])"
    by (simp add: well_formed_def sample_config_def sample_ep_def)
  ultimately show ?thesis
    unfolding describes_running_def
    by (intro exI [of _ "[sample_config [sample_ep ''a'', sample_ep ''b'']]"])
       (simp add: sample_config_simps sample_describes sample_app_def)
qed

lemma populate_config_sample:
  "\<exists>g'. populate_config tree_api S (Object [(''name'', String ''me'')]) (reset g) = ret g' \<and> m_own_name g' = ''me''
     \<and> remotehosts g' = remotehosts g"
  by (simp add: populate_config_def check_string_ref_def check_bool_ref_def check_int_ref_def check_port_def array_of_def
      json_simps reset_def Let_def)

lemma populate_sample:
  assumes "describes_running tree_api sample_config_object (remotehosts g)"
  shows "\<exists>g'. populate_json tree_api S 15 sample_config_object g = ret g' \<and> remotehosts g' = remotehosts g"
proof -
  have "populate_hosts tree_api S (array_of tree_api sample_config_object ''hosts'') (reset g) = ret (reset g)"
  proof -
    obtain cfgs where "list_all2 (describes tree_api) (array_of tree_api sample_config_object ''hosts'') cfgs" "list_all well_formed cfgs"
        "distinct (map hc_port cfgs)" "list_all2 matches (remotehosts (reset g)) cfgs"
      using assms by (auto simp: describes_running_def reset_def)
    then show ?thesis
      using populate_hosts_same [OF tree_api_laws] by blast
  qed
  then show ?thesis
    using populate_config_sample [of S g]
    by (auto simp: populate_json_def sample_config_simps json_simps bit_0)
qed

lemma unpopulate_sample:
  "\<exists>g. unpopulate_json tree_api sample_config_object (ap_global sample_app) = ret g
     \<and> remotehosts g = remotehosts (ap_global sample_app)"
proof -
  obtain cfgs where c: "list_all2 (describes tree_api) (array_of tree_api sample_config_object ''hosts'') cfgs" "list_all well_formed cfgs"
      "distinct (map hc_port cfgs)" "list_all2 matches (remotehosts (ap_global sample_app)) cfgs"
    using sample_running by (auto simp: describes_running_def)
  have "list_all (\<lambda>h. \<exists>cfg \<in> set cfgs. matches h cfg) (remotehosts (ap_global sample_app))"
    using c(4) by (induction rule: list_all2_induct) (auto elim: list.pred_mono_strong)
  from unpopulate_same [OF tree_api_laws c(1-3) this] show ?thesis
    by (simp add: unpopulate_json_def Let_def)
qed

lemma sample_apply:
  assumes "ap_global a = ap_global sample_app"
  shows "\<exists>a'. apply_configuration tree_api sample_setting (\<lambda>_. None) sample_config_object a = Some (Inr (False, a'))"
proof -
  obtain g1 where g1: "unpopulate_json tree_api sample_config_object (ap_global a) = ret g1" "remotehosts g1 = remotehosts (ap_global sample_app)"
    using unpopulate_sample assms by auto
  then obtain g2 where g2: "populate_json tree_api sample_setting 15 sample_config_object g1 = ret g2"
      "remotehosts g2 = remotehosts (ap_global sample_app)"
    using populate_sample [of g1] sample_running by auto
  have "list_all rh_running (remotehosts g2)"
    by (simp add: g2(2) sample_app_def)
  then obtain g3 where "global_lock (\<lambda>_. None) g2 = ret g3"
    using start_hosts_running [of "remotehosts g2" "\<lambda>_. None"] by (simp add: global_lock_def)
  moreover have "after (unpopulate_json tree_api sample_config_object (ap_global a)) (populate_json tree_api sample_setting 15 sample_config_object) = ret g2"
    using g1(1) g2(1) by simp
  moreover have "is_new_configuration tree_api sample_config_object (ap_global a) = ret False"
    by (simp add: is_new_configuration_def assms sample_app_def sample_global_def sample_config_simps json_simps check_string_def)
  ultimately show ?thesis
    by (simp add: apply_configuration_def ret_def)
qed

lemma sample_upload:
  "\<exists>a'. config_upload tree_api sample_setting sample_parse (\<lambda>_. None) True True (FormData (Some sample_text)) sample_app = Some (False, a')"
proof -
  let ?a = "write_file upload_filename sample_text sample_app"
  obtain e1 a1 where c1: "copy_file True config_filename backup_filename ?a = (e1, a1)"
    by (metis prod.exhaust)
  obtain e2 a2 where c2: "copy_file True upload_filename config_filename a1 = (e2, a2)"
    by (metis prod.exhaust)
  have w: "writable (cs_disk (ap_certs sample_app)) = (\<lambda>_. True)" "disk_file config_filename sample_app = Some sample_text"
    by (simp_all add: sample_app_def sample_state_def disk_file_def)
  then have f: "disk_file config_filename ?a = Some sample_text" "disk_file upload_filename ?a = Some sample_text"
    by (simp_all add: disk_file_write)
  then have e1: "e1 = None" "disk_file upload_filename a1 = Some sample_text" "ap_global a1 = ap_global sample_app"
    using c1 copy_file_simps [OF c1] by (auto simp: copy_file_def)
  then have e2: "e2 = None" "ap_global a2 = ap_global sample_app"
    using c2 copy_file_simps [OF c2] by (auto simp: copy_file_def)
  obtain a3 where "apply_configuration tree_api sample_setting (\<lambda>_. None) sample_config_object a2 = Some (Inr (False, a3))"
    using sample_apply [OF e2(2)] by blast
  then show ?thesis
    using f c1 c2 e1 e2 by (simp add: config_upload_def save_upload_def upload_body_def sample_parse_def)
qed

theorem upload_keeps_hosts_witness:
  "\<exists>a'. config_upload tree_api sample_setting sample_parse (\<lambda>_. None) True True (FormData (Some sample_text)) sample_app = Some (False, a')
     \<and> remotehosts (ap_global a') = [sample_host\<lparr>rh_running := True\<rparr>]"
proof -
  obtain a' where u: "config_upload tree_api sample_setting sample_parse (\<lambda>_. None) True True (FormData (Some sample_text)) sample_app = Some (False, a')"
    using sample_upload by blast
  have "writable (cs_disk (ap_certs sample_app)) upload_filename" "sample_parse sample_text = Some sample_config_object"
    "list_all rh_running (remotehosts (ap_global sample_app))"
    by (simp_all add: sample_app_def sample_state_def sample_parse_def)
  from upload_keeps_hosts [OF tree_api_laws u this(1,2) sample_running this(3)] u show ?thesis
    by (simp add: sample_app_def)
qed


text \<open>A first start: OpenSSL writes the two files.\<close>

definition bare_config_object :: tree where
  "bare_config_object = Object [(''config'', Object [(''name'', String ''me'')])]"

definition own_x509 :: "unit x509" where
  "own_x509 = \<lparr>issuer_line = (\<lambda>_. ''/CN=me''), split_cn = (\<lambda>_. [[], ''me'']), pem_read = (\<lambda>_. [()]), pem_write = (\<lambda>_. []), x_equal = (=)\<rparr>"

definition sample_startup :: "(tree, unit) startup" where
  "sample_startup =
     \<lparr>su_json = tree_api, su_setting = sample_setting, su_parse = (\<lambda>_. Some bare_config_object), su_x509 = own_x509, su_key_ok = (\<lambda>_. True),
      su_openssl = (\<lambda>_ _. (True, sample_state [config_filename, my_private_key_name, my_public_cert_name]))\<rparr>"

definition fresh_app :: app where
  "fresh_app = sample_app\<lparr>ap_global := sample_global\<rparr>"

lemma populate_bare:
  assumes "acl \<in> {12, 15}"
  shows "\<exists>g'. populate_json tree_api S acl bare_config_object g = ret g' \<and> m_own_name g' = ''me''"
  using assms populate_config_sample [of S g]
  by (auto simp: populate_json_def bare_config_object_def array_of_def json_simps bit_0)

theorem first_start_succeeds_witness:
  "\<exists>a'. boot sample_startup fresh_app 0 = Some (True, a', 1) \<and> m_own_name (ap_global a') = ''me''"
proof -
  have s: "su_json sample_startup = tree_api" "su_setting sample_startup = sample_setting" "su_x509 sample_startup = own_x509"
    by (simp_all add: sample_startup_def)
  obtain g1 where g1: "populate_json (su_json sample_startup) (su_setting sample_startup) 12 bare_config_object (ap_global fresh_app) = ret g1" "m_own_name g1 = ''me''"
    using populate_bare [of 12] s by fastforce
  obtain g2 where g2: "populate_json (su_json sample_startup) (su_setting sample_startup) 12 bare_config_object g1 = ret g2" "m_own_name g2 = ''me''"
    using populate_bare [of 12] s by fastforce
  obtain g3 where g3: "populate_json (su_json sample_startup) (su_setting sample_startup) 15 bare_config_object g2 = ret g3" "m_own_name g3 = ''me''"
    using populate_bare [of 15] s by fastforce
  let ?st = "sample_state [config_filename, my_private_key_name, my_public_cert_name]"
  have "disk_file config_filename fresh_app = Some sample_text" "su_parse sample_startup sample_text = Some bare_config_object"
    "m_own_name g1 \<noteq> []" "disk_file my_private_key_name fresh_app = None"
    "su_openssl sample_startup (m_own_name g1) (ap_certs fresh_app) = (True, ?st)"
    "files (cs_disk ?st) config_filename = Some sample_text" "files (cs_disk ?st) my_private_key_name \<noteq> None" "su_key_ok sample_startup ?st"
    "load_certificates_file (su_x509 sample_startup) (cs_disk ?st) my_public_cert_name [] = (True, [()])"
    "get_common_name (su_x509 sample_startup) () = m_own_name g1" "m_own_name g2 = m_own_name g1"
    using g1(2) g2(2)
    by (simp_all add: fresh_app_def sample_app_def sample_state_def disk_file_def sample_startup_def load_certificates_file_def
        own_x509_def get_common_name_def)
  from first_start_succeeds [OF this(1,2) g1(1) this(3-10) g2(1) this(11) g3(1)] g3(2) show ?thesis
    by auto
qed

text \<open>An OpenSSL whose certificates cannot be read: the application starts over until the count ends that.\<close>

definition broken_startup :: "(tree, unit) startup" where
  "broken_startup = sample_startup\<lparr>su_x509 := own_x509\<lparr>pem_read := (\<lambda>_. [])\<rparr>\<rparr>"

lemma broken_own: "own_certificate broken_startup a = (name, good, a') \<Longrightarrow> name = [] \<and> ap_global a' = ap_global a"
  by (cases "load_certificates_file (su_x509 broken_startup) (cs_disk (ap_certs a)) my_public_cert_name []")
     (auto simp: own_certificate_def broken_startup_def own_x509_def load_certificates_file_def Let_def split: option.splits if_splits)

lemma load_all_unnamed: "load_all E [] a \<noteq> None"
  by (simp add: load_all_def Let_def)

lemma broken_defined: "load_configuration broken_startup a n \<noteq> None"
proof -
  have s: "su_json broken_startup = tree_api" "su_setting broken_startup = sample_setting" "su_parse broken_startup = (\<lambda>_. Some bare_config_object)"
    by (simp_all add: broken_startup_def sample_startup_def)
  obtain g where g: "populate_json tree_api sample_setting 12 bare_config_object (ap_global a) = ret g"
    using populate_bare by fastforce
  obtain name good a1 where own: "own_certificate broken_startup (a\<lparr>ap_global := g\<rparr>) = (name, good, a1)"
    by (metis prod.exhaust)
  obtain reload a2 n2 where mk: "make_certificate broken_startup a1 n = (reload, a2, n2)"
    by (metis prod.exhaust)
  show ?thesis
    using s g own mk broken_own [OF own] load_all_unnamed [of broken_startup a1] load_all_unnamed [of broken_startup a2]
    by (cases "disk_file config_filename a") (auto simp: load_configuration_def ret_def Let_def)
qed


end
