(* ===== verification/CertThreads.thy ===== *)
theory CertThreads
  imports HttpClient ProxyApp Thread
begin

text \<open>
  The periodic exchange of certificates between proxies as a whole: \<^verbatim>\<open>client_certificate_exchange\<close> of
  \<^verbatim>\<open>src/src/proxy_global.cpp\<close>, which fetches the certificates of the other proxies with the HTTP client and
  merges them, and the thread of \<^verbatim>\<open>activate_host\<close>.
\<close>

section \<open>One end point\<close>

text \<open>
  The world of the thread: the certificate library, the proxy an end point leads to, the time at which
  its requests are done, and the name of a temporary file.
\<close>

record 'c exchange_world =
  xw_x509 :: "'c x509"
  xw_peer :: "LocalEndpoint \<Rightarrow> int \<Rightarrow> http_peer"
  xw_time :: "LocalEndpoint \<Rightarrow> int \<Rightarrow> int"
  xw_tmp :: "int \<Rightarrow> string"

abbreviation get_url :: string where "get_url \<equiv> ''/json/command/certificate/get/''"
abbreviation public_url :: string where "public_url \<equiv> ''/json/command/certificate/public/''"

text \<open>Every name that was added leaves the activation list.\<close>

definition exchange_one :: "'c exchange_world \<Rightarrow> LocalEndpoint \<Rightarrow> int \<Rightarrow> app \<Rightarrow> app option" where
  "exchange_one W ep now a =
     (let fetch = sync (xw_peer W ep now) (LocalEndpoint_print ep) in
      case exchange_endpoint (xw_x509 W) ep (xw_tmp W now) (xw_tmp W now) (fetch get_url) (fetch public_url) (ap_certs a) of
        None \<Rightarrow> None
      | Some (removed, st) \<Rightarrow>
          Some (a\<lparr>ap_certs := st, ap_global := (ap_global a)\<lparr>m_activate :=
            foldl (\<lambda>l name. snd (activate_remove now name l)) (m_activate (ap_global a)) removed\<rparr>\<rparr>))"

section \<open>The thread\<close>

fun exchange_eps :: "'c exchange_world \<Rightarrow> LocalEndpoint list \<Rightarrow> app \<Rightarrow> int \<Rightarrow> (app \<times> int) option" where
  "exchange_eps W [] a now = Some (a, now)"
| "exchange_eps W (ep # eps) a now =
     Option.bind (exchange_one W ep now a) (\<lambda>a. exchange_eps W eps a (xw_time W ep now))"

definition exchange_round :: "'c exchange_world \<Rightarrow> LocalEndpoint list \<Rightarrow> int option \<Rightarrow> app round" where
  "exchange_round W eps stop a now =
     (case sleep stop now (if activate_size (m_activate (ap_global a)) \<noteq> 0 then 20000 else 60000) of (interrupted, now) \<Rightarrow>
        if interrupted then Some (True, a, now)
        else Option.bind (exchange_eps W eps a now) (\<lambda>(a, now). Some (False, a, now)))"

definition exchange_thread :: "'c exchange_world \<Rightarrow> LocalEndpoint list \<Rightarrow> int option \<Rightarrow> app \<Rightarrow> int \<Rightarrow> (app \<times> int) option" where
  "exchange_thread W eps stop a now =
     (case sleep stop now 5000 of (interrupted, now) \<Rightarrow>
        if interrupted then Some (a, now) else worker_loop stop (exchange_round W eps stop) 0 a now)"

section \<open>What an exchange does\<close>

text \<open>A proxy whose file of certificates holds \<open>certs\<close>, with the list of names up to date.\<close>

definition holds_certs :: "'c x509 \<Rightarrow> 'c list \<Rightarrow> app \<Rightarrow> bool" where
  "holds_certs X certs a \<longleftrightarrow> disk_file my_certs_name a = Some (concat (map (pem_write X) certs))
     \<and> m_cert_names (ap_certs a) = map (get_common_name X) certs
     \<and> writable (cs_disk (ap_certs a)) = (\<lambda>_. True)"

text \<open>A peer that delivers a text under a URL, in segments of its own choice.\<close>

definition serves :: "http_peer \<Rightarrow> string \<Rightarrow> string \<Rightarrow> string \<Rightarrow> bool" where
  "serves P host url body \<longleftrightarrow> (\<forall>port. hp_connect P host port = None) \<and> hp_write P (request_text host url) = None
     \<and> (\<exists>segs version reason hs. hp_answer P (request_text host url) = (segs, None) \<and> concat segs = answer_text version reason hs body
         \<and> plain_status version reason \<and> hs \<noteq> [] \<and> list_all (\<lambda>h. plain_line h \<and> h \<noteq> []) hs)"

lemma serves_sync:
  assumes "serves P (le_hostname ep) url body" "CHR '':'' \<notin> set (le_hostname ep)"
  shows "sync P (LocalEndpoint_print ep) url = Some body"
proof -
  let ?port = "show_nat (unat (le_port ep))"
  have port: "CHR '':'' \<notin> set ?port" "?port \<noteq> []"
    using show_nat_digits [of "unat (le_port ep)"] by (auto simp: list_all_iff is_digit_def)
  obtain segs version reason hs where a: "hp_answer P (request_text (le_hostname ep) url) = (segs, None)"
      "concat segs = answer_text version reason hs body" "plain_status version reason" "hs \<noteq> []" "list_all (\<lambda>h. plain_line h \<and> h \<noteq> []) hs"
    using assms(1) by (auto simp: serves_def)
  then show ?thesis
    using sync_answer [OF assms(2) port, of P url segs None] read_answer_body [OF a(3,2,4,5), of None] assms(1)
    by (simp add: serves_def LocalEndpoint_print_def)
qed

lemma exchange_certs_merges:
  assumes "pem_laws X" "tmp \<noteq> my_certs_name" "files (cs_disk st) my_certs_name = Some (concat (map (pem_write X) own))"
    and "writable (cs_disk st) = (\<lambda>_. True)" "m_cert_names st = map (get_common_name X) own" "remotes \<noteq> []"
  shows "\<exists>new removed st'. exchange_certs X tmp (concat (map (pem_write X) remotes)) st = ret (True, removed, st')
     \<and> files (cs_disk st') my_certs_name = Some (concat (map (pem_write X) (own @ new))) \<and> m_cert_names st' = map (get_common_name X) (own @ new)
     \<and> writable (cs_disk st') = (\<lambda>_. True) \<and> set new \<subseteq> set remotes
     \<and> set (map (get_common_name X) (own @ new)) = set (map (get_common_name X) own) \<union> set (map (get_common_name X) remotes)"
proof -
  let ?n = "get_common_name X"
  obtain new where m: "merge_loop X own remotes [] = (own @ new, map ?n new)" "set new \<subseteq> set remotes"
      "set (map ?n remotes) \<subseteq> set (map ?n (own @ new))"
    using merge_loop_spec [of X own remotes "[]"] by auto
  have r: "pem_read X (concat (map (pem_write X) cs)) = cs" for cs
    using assms(1) by (simp add: pem_laws_def)
  have names: "set (map ?n (own @ new)) = set (map ?n own) \<union> set (map ?n remotes)"
    using m(2,3) by auto
  show ?thesis
    using assms m r names
    by (intro exI [of _ new], cases "new = []")
       (auto simp: exchange_certs_def load_certificates_string_def load_certificates_file_def save_certificates_file_def
          load_certificate_names_def Let_def simp del: map_append concat_append)
qed

text \<open>The comparison of the own certificate, which comes behind, changes neither file nor names.\<close>

lemma check_public_keeps:
  "check_public X host tmp output st = ret st' \<Longrightarrow> tmp \<noteq> my_certs_name \<Longrightarrow>
     files (cs_disk st') my_certs_name = files (cs_disk st) my_certs_name \<and> m_cert_names st' = m_cert_names st
     \<and> writable (cs_disk st') = writable (cs_disk st)"
  by (auto simp: check_public_def load_certificates_string_def Let_def split: if_splits prod.splits)

lemma check_public_defined: "\<exists>r. check_public X host tmp out st = Some r"
  by (auto simp: check_public_def ret_def raise_def Let_def split: prod.splits)

lemma exchange_endpoint_merges:
  assumes "pem_laws X" "tmp \<noteq> my_certs_name" "files (cs_disk st) my_certs_name = Some (concat (map (pem_write X) own))"
    and "writable (cs_disk st) = (\<lambda>_. True)" "m_cert_names st = map (get_common_name X) own" "remotes \<noteq> []"
  shows "\<exists>new removed st'. exchange_endpoint X ep tmp tmp (Some (concat (map (pem_write X) remotes))) public st = Some (removed, st')
     \<and> files (cs_disk st') my_certs_name = Some (concat (map (pem_write X) (own @ new))) \<and> m_cert_names st' = map (get_common_name X) (own @ new)
     \<and> writable (cs_disk st') = (\<lambda>_. True) \<and> set new \<subseteq> set remotes
     \<and> set (map (get_common_name X) (own @ new)) = set (map (get_common_name X) own) \<union> set (map (get_common_name X) remotes)"
proof -
  obtain new removed st1 where e: "exchange_certs X tmp (concat (map (pem_write X) remotes)) st = ret (True, removed, st1)"
      and st1: "files (cs_disk st1) my_certs_name = Some (concat (map (pem_write X) (own @ new)))"
        "m_cert_names st1 = map (get_common_name X) (own @ new)" "writable (cs_disk st1) = (\<lambda>_. True)"
      and new: "set new \<subseteq> set remotes"
        "set (map (get_common_name X) (own @ new)) = set (map (get_common_name X) own) \<union> set (map (get_common_name X) remotes)"
    using exchange_certs_merges [OF assms] by blast
  have "\<exists>st'. exchange_endpoint X ep tmp tmp (Some (concat (map (pem_write X) remotes))) public st = Some (removed, st')
      \<and> files (cs_disk st') my_certs_name = files (cs_disk st1) my_certs_name \<and> m_cert_names st' = m_cert_names st1
      \<and> writable (cs_disk st') = writable (cs_disk st1)"
  proof (cases public)
    case None
    then show ?thesis
      using e by (simp add: exchange_endpoint_def ret_def)
  next
    case (Some out)
    obtain r where r: "check_public X (LocalEndpoint_print ep) tmp out st1 = Some r"
      using check_public_defined by blast
    then show ?thesis
      using e Some check_public_keeps [of X "LocalEndpoint_print ep" tmp out st1] assms(2)
      by (cases r) (auto simp: exchange_endpoint_def ret_def log_exn_def)
  qed
  then show ?thesis
    using st1 new by auto
qed

lemma exchange_one_merges:
  assumes "pem_laws (xw_x509 W)" "xw_tmp W now \<noteq> my_certs_name" "holds_certs (xw_x509 W) own a"
    and "CHR '':'' \<notin> set (le_hostname ep)" "serves (xw_peer W ep now) (le_hostname ep) get_url (concat (map (pem_write (xw_x509 W)) remotes))"
    and "remotes \<noteq> []"
  obtains a' new where "exchange_one W ep now a = Some a'" "holds_certs (xw_x509 W) (own @ new) a'" "set new \<subseteq> set remotes"
    "set (m_cert_names (ap_certs a')) = set (map (get_common_name (xw_x509 W)) own) \<union> set (map (get_common_name (xw_x509 W)) remotes)"
proof -
  have "sync (xw_peer W ep now) (LocalEndpoint_print ep) get_url = Some (concat (map (pem_write (xw_x509 W)) remotes))"
    by (rule serves_sync [OF assms(5,4)])
  moreover obtain new removed st' where "exchange_endpoint (xw_x509 W) ep (xw_tmp W now) (xw_tmp W now) (Some (concat (map (pem_write (xw_x509 W)) remotes)))
        (sync (xw_peer W ep now) (LocalEndpoint_print ep) public_url) (ap_certs a) = Some (removed, st')"
      "files (cs_disk st') my_certs_name = Some (concat (map (pem_write (xw_x509 W)) (own @ new)))"
      "m_cert_names st' = map (get_common_name (xw_x509 W)) (own @ new)" "writable (cs_disk st') = (\<lambda>_. True)" "set new \<subseteq> set remotes"
      "set (map (get_common_name (xw_x509 W)) (own @ new)) = set (map (get_common_name (xw_x509 W)) own) \<union> set (map (get_common_name (xw_x509 W)) remotes)"
    using exchange_endpoint_merges [OF assms(1,2) _ _ _ assms(6), of "ap_certs a" own] assms(3)
    unfolding holds_certs_def disk_file_def by metis
  ultimately show ?thesis
    using that [of _ new] by (simp add: exchange_one_def holds_certs_def disk_file_def del: map_append concat_append)
qed

section \<open>The thread ends\<close>

lemma exchange_certs_defined: "\<exists>r. exchange_certs X tmp out st = Some r"
  by (auto simp: exchange_certs_def ret_def raise_def Let_def split: prod.splits)

lemma exchange_endpoint_defined: "exchange_endpoint X ep tmp tmp' certs public st \<noteq> None"
proof -
  have never: "check_public X host tmp out st \<noteq> None" "exchange_certs X tmp out st \<noteq> None" for host tmp out st
    using check_public_defined [of X host tmp out st] exchange_certs_defined [of X tmp out st] by auto
  show ?thesis
    by (auto simp: exchange_endpoint_def ret_def never exchange_certs_defined split: option.split sum.split prod.split)
qed

lemma exchange_one_defined: "\<exists>a'. exchange_one W ep now a = Some a'"
  using exchange_endpoint_defined [of "xw_x509 W" ep "xw_tmp W now" "xw_tmp W now"
      "sync (xw_peer W ep now) (LocalEndpoint_print ep) get_url" "sync (xw_peer W ep now) (LocalEndpoint_print ep) public_url" "ap_certs a"]
  by (auto simp: exchange_one_def)

text \<open>The requests of one end point end within a time; nothing interrupts them.\<close>

definition timely :: "'c exchange_world \<Rightarrow> int \<Rightarrow> LocalEndpoint list \<Rightarrow> bool" where
  "timely W delay eps \<longleftrightarrow> 0 \<le> delay \<and> (\<forall>ep \<in> set eps. \<forall>now. now \<le> xw_time W ep now \<and> xw_time W ep now \<le> now + delay)"

lemma exchange_eps_timely:
  "timely W delay eps \<Longrightarrow> \<exists>a' e. exchange_eps W eps a now = Some (a', e) \<and> now \<le> e \<and> e \<le> now + int (length eps) * delay"
proof (induction eps arbitrary: a now)
  case (Cons ep eps)
  obtain a1 where a1: "exchange_one W ep now a = Some a1"
    using exchange_one_defined by blast
  have "timely W delay eps" "now \<le> xw_time W ep now" "xw_time W ep now \<le> now + delay"
    using Cons(2) by (auto simp: timely_def)
  with Cons(1) [of a1 "xw_time W ep now"] a1 show ?case
    by (auto simp: algebra_simps)
qed simp

lemma exchange_prompt:
  assumes "timely W delay eps"
  shows "prompt_round (\<lambda>_. True) stop (exchange_round W eps (Some stop)) 0 (5000 + int (length eps) * delay)"
proof
  fix a :: app and now assume "now < stop"
  define ms where "ms = (if activate_size (m_activate (ap_global a)) \<noteq> 0 then 20000 else 60000 :: int)"
  have ms: "0 < ms" "ms mod 5000 = 0"
    by (simp_all add: ms_def)
  have d: "0 \<le> int (length eps) * delay"
    using assms by (simp add: timely_def)
  obtain caught n1 where sl: "sleep (Some stop) now ms = (caught, n1)"
    by (metis prod.exhaust)
  have n1: "now \<le> n1" "n1 \<le> stop + 5000"
    using sleep_forward(1) [of now "Some stop" ms] sleep_prompt [of ms stop now] sl ms \<open>now < stop\<close> by auto
  have on: "n1 = now + ms \<and> n1 < stop" if "\<not> caught"
    using sleep_flag [of ms "Some stop" now] sl that ms by auto
  obtain a' e where e: "exchange_eps W eps a n1 = Some (a', e)" "n1 \<le> e" "e \<le> n1 + int (length eps) * delay"
    using exchange_eps_timely [OF assms] by blast
  have "exchange_round W eps (Some stop) a now = Some (if caught then (True, a, n1) else (False, a', e))"
    unfolding exchange_round_def ms_def [symmetric] using sl e(1) by simp
  then show "\<exists>interrupted s' now'. exchange_round W eps (Some stop) a now = Some (interrupted, s', now') \<and> True
      \<and> now \<le> now' \<and> now' \<le> stop + (5000 + int (length eps) * delay) \<and> (\<not> interrupted \<longrightarrow> now < now' + 0)"
    using n1 on e ms d by (cases caught) auto
qed (use assms in \<open>auto simp: timely_def\<close>)

section \<open>Properties\<close>

text \<open>
  C10: two proxies that name each other end up with the same certificates. When each holds a file of
  certificates and serves it over HTTP, in whatever segments, then after the first has asked the second
  and the second has asked the first, both know exactly the names that one of them knew before; the
  first has kept its own certificates in front and taken only certificates the second holds.
\<close>

theorem exchange_converges:
  assumes "pem_laws (xw_x509 W)" and "xw_tmp W t \<noteq> my_certs_name" and "xw_tmp W t' \<noteq> my_certs_name"
    and "holds_certs (xw_x509 W) cs a" and "holds_certs (xw_x509 W) ds b" and "cs \<noteq> []" and "ds \<noteq> []"
    and "CHR '':'' \<notin> set (le_hostname to_b)" and "CHR '':'' \<notin> set (le_hostname to_a)"
    and "serves (xw_peer W to_b t) (le_hostname to_b) get_url (get_file my_certs_name b)"
    and "\<And>a'. exchange_one W to_b t a = Some a' \<Longrightarrow> serves (xw_peer W to_a t') (le_hostname to_a) get_url (get_file my_certs_name a')"
  shows "\<exists>a' b' new. exchange_one W to_b t a = Some a' \<and> exchange_one W to_a t' b = Some b'
    \<and> holds_certs (xw_x509 W) (cs @ new) a' \<and> set new \<subseteq> set ds
    \<and> set (m_cert_names (ap_certs a')) = set (m_cert_names (ap_certs a)) \<union> set (m_cert_names (ap_certs b))
    \<and> set (m_cert_names (ap_certs b')) = set (m_cert_names (ap_certs a'))"
proof -
  let ?X = "xw_x509 W"
  have stored: "holds_certs ?X xs x \<Longrightarrow> get_file my_certs_name x = concat (map (pem_write ?X) xs)" for xs x
    by (simp add: holds_certs_def get_file_def)
  have names: "holds_certs ?X xs x \<Longrightarrow> m_cert_names (ap_certs x) = map (get_common_name ?X) xs" for xs x
    by (simp add: holds_certs_def)
  obtain a' new where a': "exchange_one W to_b t a = Some a'" "holds_certs ?X (cs @ new) a'" "set new \<subseteq> set ds"
      "set (m_cert_names (ap_certs a')) = set (map (get_common_name ?X) cs) \<union> set (map (get_common_name ?X) ds)"
    using exchange_one_merges [OF assms(1,2,4,8) _ assms(7)] assms(10) stored [OF assms(5)] by metis
  have "serves (xw_peer W to_a t') (le_hostname to_a) get_url (concat (map (pem_write ?X) (cs @ new)))"
    using assms(11) [OF a'(1)] stored [OF a'(2)] by simp
  then obtain b' where b': "exchange_one W to_a t' b = Some b'"
      "set (m_cert_names (ap_certs b')) = set (map (get_common_name ?X) ds) \<union> set (map (get_common_name ?X) (cs @ new))"
    using exchange_one_merges [OF assms(1,3,5,9), of "cs @ new"] assms(6) by (metis append_is_Nil_conv)
  show ?thesis
    using a' b' names [OF assms(4)] names [OF assms(5)] names [OF a'(2)] by (intro exI [of _ a'] exI [of _ b'] exI [of _ new]) auto
qed

text \<open>
  C25: the exchange of certificates ends with the program. Once its stop is asked for, the thread
  returns, within the slice of its sleep and the time of one round of requests, which nothing
  interrupts, whatever the peers answer.
\<close>

theorem exchange_thread_ends:
  assumes "timely W delay eps"
  shows "\<exists>a' e. exchange_thread W eps (Some stop) a now = Some (a', e) \<and> e \<le> max now stop + 5000 + int (length eps) * delay"
proof -
  have d: "0 \<le> int (length eps) * delay"
    using assms by (simp add: timely_def)
  obtain caught n1 where sl: "sleep (Some stop) now 5000 = (caught, n1)"
    by (metis prod.exhaust)
  have n1: "n1 \<le> max now stop + 5000"
    using sleep_prompt [of 5000 stop now] sl by simp
  show ?thesis
  proof (cases caught)
    case True
    then show ?thesis
      using sl n1 d by (auto simp: exchange_thread_def)
  next
    case False
    then have "n1 < stop"
      using sleep_flag [of 5000 "Some stop" now] sl by simp
    then show ?thesis
      using prompt_round.ends [OF exchange_prompt [OF assms, of stop], of a n1] False sl d by (auto simp: exchange_thread_def)
  qed
qed


text \<open>Two proxies with certificates of the lengths 1, 2 and 2, 3, which serve their files.\<close>

definition cert_app :: "nat list \<Rightarrow> app" where
  "cert_app cs = sample_app\<lparr>ap_certs := \<lparr>cs_disk = sample_disk cs, m_cert_names = map (get_common_name sample_x509) cs, cs_logged = []\<rparr>\<rparr>"

definition first_world :: "nat exchange_world" where
  "first_world =
     \<lparr>xw_x509 = sample_x509, xw_peer = (\<lambda>_ _. sample_server (get_file my_certs_name (cert_app [2, 3]))),
      xw_time = (\<lambda>_ t. t + 10), xw_tmp = (\<lambda>_. ''tmp'')\<rparr>"

definition cert_world :: "nat exchange_world" where
  "cert_world = first_world\<lparr>xw_peer := (\<lambda>ep t. if t = 0 then xw_peer first_world ep 0
     else sample_server (get_file my_certs_name (the (exchange_one first_world LocalEndpoint_ctor 0 (cert_app [1, 2])))))\<rparr>"

lemma sample_serves: "serves (sample_server body) host url body"
proof -
  have "hp_answer (sample_server body) r = ([''HTTP/1.1 200 OK'' @ [CHR 0x0D], CHR 0x0A # ''Server: x'' @ crlf @ crlf @ body], None)" for r
    by (simp add: sample_server_def)
  moreover have "concat [''HTTP/1.1 200 OK'' @ [CHR 0x0D], CHR 0x0A # ''Server: x'' @ crlf @ crlf @ body] = answer_text ''1.1'' '' OK'' [''Server: x''] body"
    by (simp add: answer_text_def status_line_def header_block_def)
  moreover have "plain_status ''1.1'' '' OK''" "list_all (\<lambda>h. plain_line h \<and> h \<noteq> []) [''Server: x'']"
    by (simp_all add: plain_status_def plain_line_def is_space_def is_digit_def)
  ultimately have "\<exists>segs version reason hs. hp_answer (sample_server body) (request_text host url) = (segs, None) \<and> concat segs = answer_text version reason hs body
      \<and> plain_status version reason \<and> hs \<noteq> [] \<and> list_all (\<lambda>h. plain_line h \<and> h \<noteq> []) hs"
    by blast
  then show ?thesis
    by (simp add: serves_def sample_server_def)
qed

lemma cert_app_holds: "holds_certs sample_x509 cs (cert_app cs)"
  by (simp add: holds_certs_def cert_app_def disk_file_def sample_disk_def)

theorem exchange_converges_witness:
  "\<exists>a' b'. exchange_one cert_world LocalEndpoint_ctor 0 (cert_app [1, 2]) = Some a' \<and> exchange_one cert_world LocalEndpoint_ctor 1 (cert_app [2, 3]) = Some b'
     \<and> set (m_cert_names (ap_certs a')) = {''a'', ''aa'', ''aaa''} \<and> set (m_cert_names (ap_certs b')) = {''a'', ''aa'', ''aaa''}"
proof -
  have w: "xw_x509 cert_world = sample_x509" "xw_tmp cert_world t = ''tmp''" "xw_peer cert_world ep 0 = sample_server (get_file my_certs_name (cert_app [2, 3]))" for t ep
    by (simp_all add: cert_world_def first_world_def)
  have "exchange_one first_world LocalEndpoint_ctor 0 (cert_app [1, 2]) = exchange_one cert_world LocalEndpoint_ctor 0 (cert_app [1, 2])"
    by (simp add: exchange_one_def cert_world_def first_world_def)
  then have second: "serves (xw_peer cert_world LocalEndpoint_ctor 1) host get_url (get_file my_certs_name a')"
    if "exchange_one cert_world LocalEndpoint_ctor 0 (cert_app [1, 2]) = Some a'" for host a'
    using that sample_serves by (simp add: cert_world_def)
  have "map (get_common_name sample_x509) [1, 2] = [''a'', ''aa'']" "map (get_common_name sample_x509) [2, 3] = [''aa'', ''aaa'']"
    by (simp_all add: get_common_name_def sample_x509_def numeral_nat)
  then have names: "m_cert_names (ap_certs (cert_app [1, 2])) = [''a'', ''aa'']" "m_cert_names (ap_certs (cert_app [2, 3])) = [''aa'', ''aaa'']"
    by (simp_all add: cert_app_def)
  have "CHR '':'' \<notin> set (le_hostname LocalEndpoint_ctor)"
    by (simp add: LocalEndpoint_ctor_def)
  with exchange_converges [of cert_world 0 1 "[1, 2]" "cert_app [1, 2]" "[2, 3]" "cert_app [2, 3]" LocalEndpoint_ctor LocalEndpoint_ctor] w second names
    sample_x509_laws cert_app_holds sample_serves
  show ?thesis
    by (simp add: insert_commute) (metis (no_types, lifting))
qed

theorem exchange_thread_ends_witness:
  "\<exists>a' e. exchange_thread cert_world [LocalEndpoint_ctor] (Some 100000) (cert_app [1, 2]) 0 = Some (a', e) \<and> e \<le> 105010"
proof -
  have "timely cert_world 10 [LocalEndpoint_ctor]"
    by (simp add: timely_def cert_world_def first_world_def)
  from exchange_thread_ends [OF this, of 100000 "cert_app [1, 2]" 0] show ?thesis
    by simp
qed

section \<open>The thread of the activation list\<close>

text \<open>
  What \<^verbatim>\<open>activate_host::threadproc\<close> meets: the commands other threads have given by the time it looks, the
  port, the connection with the bytes that come within five seconds and the outcome of the write, the
  time the exchange is done, and a temporary file.
\<close>

record activate_world =
  aw_others :: "app \<Rightarrow> int \<Rightarrow> app"
  aw_bind :: "int \<Rightarrow> exn option \<times> int"
  aw_accept :: "int \<Rightarrow> (exn + string \<times> (string \<Rightarrow> exn + nat)) \<times> int"
  aw_served :: "int \<Rightarrow> int"
  aw_tmp :: "int \<Rightarrow> string"

text \<open>The thread sleeps while the list is empty.\<close>

partial_function (option) wait_names :: "activate_world \<Rightarrow> int option \<Rightarrow> app \<Rightarrow> int \<Rightarrow> (bool \<times> app \<times> int) option" where
  "wait_names W stop a now =
     (let a = aw_others W a now in
      if activate_size (m_activate (ap_global a)) \<noteq> 0 then Some (False, a, now)
      else case sleep stop now 10000 of (interrupted, now) \<Rightarrow>
        if interrupted then Some (True, a, now) else wait_names W stop a now)"

definition serve_activation :: "'c x509 \<Rightarrow> activate_world \<Rightarrow> app \<Rightarrow> int \<Rightarrow> (app \<times> int) option" where
  "serve_activation X W a now =
     (case aw_bind W now of
        (Some e, now) \<Rightarrow> Some (a, now)
      | (None, now) \<Rightarrow>
          (case aw_accept W now of
             (Inl e, now) \<Rightarrow> Some (a, now)
           | (Inr (received, write_some), now) \<Rightarrow>
               (case activate_round X (aw_tmp W now) now received write_some (m_activate (ap_global a)) (ap_certs a) of
                  None \<Rightarrow> None
                | Some (certname, l, st) \<Rightarrow>
                    Some (a\<lparr>ap_certs := st, ap_global := (ap_global a)\<lparr>m_activate := l\<rparr>\<rparr>, aw_served W now))))"

definition activation_round :: "'c x509 \<Rightarrow> activate_world \<Rightarrow> int option \<Rightarrow> app round" where
  "activation_round X W stop a now =
     Option.bind (wait_names W stop a now) (\<lambda>(interrupted, a, now).
       if interrupted then Some (True, a, now)
       else Option.bind (serve_activation X W a now) (\<lambda>(a, now). Some (False, a, now)))"

definition activation_thread :: "'c x509 \<Rightarrow> activate_world \<Rightarrow> int option \<Rightarrow> app \<Rightarrow> int \<Rightarrow> (app \<times> int) option" where
  "activation_thread X W stop a now = worker_loop stop (activation_round X W stop) 0 a now"

text \<open>
  The port is bound or refused in some time, the interrupt ends a pending accept, an exchange takes a
  bounded time, and a peer sends less than the buffer holds.
\<close>

definition responsive :: "activate_world \<Rightarrow> int \<Rightarrow> int \<Rightarrow> bool" where
  "responsive W stop delay \<longleftrightarrow> 0 \<le> delay
     \<and> (\<forall>now. now < snd (aw_bind W now) \<and> snd (aw_bind W now) \<le> now + delay)
     \<and> (\<forall>now. now \<le> snd (aw_accept W now) \<and> snd (aw_accept W now) \<le> max now stop + delay)
     \<and> (\<forall>now. now \<le> aw_served W now \<and> aw_served W now \<le> now + delay)
     \<and> (\<forall>now r w now'. aw_accept W now = (Inr (r, w), now') \<longrightarrow> length r < 4000)"

lemma wait_names_ends:
  "\<exists>interrupted a' e. wait_names W (Some stop) a now = Some (interrupted, a', e) \<and> now \<le> e
     \<and> e \<le> max now stop + 5000 \<and> (\<not> interrupted \<longrightarrow> e = now \<or> e < stop)"
proof (induction "nat (stop - now)" arbitrary: a now rule: less_induct)
  case less
  let ?a = "aw_others W a now"
  obtain caught n where sl: "sleep (Some stop) now 10000 = (caught, n)"
    by (metis prod.exhaust)
  have n: "now \<le> n" "n \<le> max now stop + 5000"
    using sleep_forward(1) [of now "Some stop" 10000] sleep_prompt [of 10000 stop now] sl by auto
  have on: "n = now + 10000" "n < stop" if "\<not> caught"
    using sleep_flag [of 10000 "Some stop" now] sl that by auto
  show ?case
  proof (cases "activate_size (m_activate (ap_global ?a)) \<noteq> 0 \<or> caught")
    case True
    then show ?thesis
      using sl n by (subst wait_names.simps) (auto simp: Let_def)
  next
    case False
    then have "\<exists>interrupted a' e. wait_names W (Some stop) ?a n = Some (interrupted, a', e) \<and> n \<le> e
        \<and> e \<le> max n stop + 5000 \<and> (\<not> interrupted \<longrightarrow> e = n \<or> e < stop)"
      using less(1) [of n ?a] on by auto
    then show ?thesis
      using False sl on by (subst wait_names.simps) (auto simp: Let_def)
  qed
qed

lemma activate_round_defined: "length received < 4000 \<Longrightarrow> \<exists>r. activate_round X tmp now received write_some l st = Some r"
proof -
  assume "length received < 4000"
  then have "server_body X tmp received names st \<noteq> None" for names
    by (auto simp: server_body_def raise_def ret_def Let_def split: prod.splits)
  then have "\<exists>c st1. SetupCertificatesServer X tmp received names st = Some (c, st1)" for names
    by (auto simp: SetupCertificatesServer_def split: option.splits sum.splits)
  then obtain c st1 where "SetupCertificatesServer X tmp received (active_names now l) st = Some (c, st1)"
    by blast
  then show ?thesis
    by (auto simp: activate_round_def split: prod.splits)
qed

lemma serve_activation_ends:
  assumes "responsive W stop delay"
  shows "\<exists>a' e. serve_activation X W a now = Some (a', e) \<and> now < e \<and> e \<le> max now stop + 3 * delay"
proof -
  obtain e1 n1 where b: "aw_bind W now = (e1, n1)"
    by (metis prod.exhaust)
  obtain r n2 where c: "aw_accept W n1 = (r, n2)"
    by (metis prod.exhaust)
  have d: "0 \<le> delay" "now < n1" "n1 \<le> now + delay" "n1 \<le> n2" "n2 \<le> max n1 stop + delay" "n2 \<le> aw_served W n2" "aw_served W n2 \<le> n2 + delay"
    using assms b c unfolding responsive_def by (metis snd_conv)+
  show ?thesis
  proof (cases "e1 = None \<and> \<not> isl r")
    case True
    then obtain received w where r: "r = Inr (received, w)"
      by (cases r) auto
    then have "length received < 4000"
      using assms c unfolding responsive_def by blast
    from activate_round_defined [OF this, of X "aw_tmp W n2" n2 w "m_activate (ap_global a)" "ap_certs a"]
    obtain name l st where "activate_round X (aw_tmp W n2) n2 received w (m_activate (ap_global a)) (ap_certs a) = Some (name, l, st)"
      by (metis prod.exhaust)
    then show ?thesis
      using True b c r d by (auto simp: serve_activation_def)
  next
    case False
    then show ?thesis
      using b c d by (cases e1; cases r) (auto simp: serve_activation_def)
  qed
qed

lemma activation_prompt:
  assumes "responsive W stop delay"
  shows "prompt_round (\<lambda>_. True) stop (activation_round X W (Some stop)) 0 (5000 + 3 * delay)"
proof
  fix a :: app and now assume "now < stop"
  obtain i a1 n1 where w: "wait_names W (Some stop) a now = Some (i, a1, n1)" "now \<le> n1" "n1 \<le> stop + 5000" "\<not> i \<Longrightarrow> n1 < stop"
    using wait_names_ends [of W stop a now] \<open>now < stop\<close> by auto
  obtain a2 n2 where s: "serve_activation X W a1 n1 = Some (a2, n2)" "n1 < n2" "n2 \<le> max n1 stop + 3 * delay"
    using serve_activation_ends [OF assms] by blast
  have "0 \<le> delay"
    using assms by (simp add: responsive_def)
  then show "\<exists>interrupted s' now'. activation_round X W (Some stop) a now = Some (interrupted, s', now') \<and> True
      \<and> now \<le> now' \<and> now' \<le> stop + (5000 + 3 * delay) \<and> (\<not> interrupted \<longrightarrow> now < now' + 0)"
    using w s by (cases i) (auto simp: activation_round_def)
qed (use assms in \<open>auto simp: responsive_def\<close>)


text \<open>
  \<^verbatim>\<open>activate_host::start\<close> and the two stops of \<^verbatim>\<open>stopall\<close> around the hosts and clients. A thread that runs is
  left as it is, with its old port.
\<close>

definition activate_start :: "bool \<Rightarrow> thread \<Rightarrow> exn + thread" where
  "activate_start esrch th = (if \<not> is_thread_running esrch th then thread_start th else Inr th)"

definition activate_stopall :: "thread \<Rightarrow> thread" where
  "activate_stopall th = snd (thread_stop True False (snd (thread_stop False False th)))"

text \<open>Behind \<^verbatim>\<open>stopall\<close> the next \<^verbatim>\<open>lock\<close> starts a thread that is to run, whatever the thread was before.\<close>

lemma activate_restarts: "\<exists>th'. activate_start esrch (activate_stopall th) = Inr th' \<and> m_thread th' = Alive \<and> \<not> m_stop th'"
  by (simp add: activate_start_def activate_stopall_def thread_stop_def thread_start_def joinable_def is_thread_running_def Let_def)


definition quiet_activation :: activate_world where
  "quiet_activation =
     \<lparr>aw_others = (\<lambda>a _. a), aw_bind = (\<lambda>t. (None, t + 1)), aw_accept = (\<lambda>t. (Inl (asio_error ''accept''), max t 50000)),
      aw_served = (\<lambda>t. t), aw_tmp = (\<lambda>_. ''tmp'')\<rparr>"


end
