(* ===== verification/WebServer.thy ===== *)
theory WebServer
  imports ProxyApp
begin

text \<open>
  The web interface as a whole: the URLs of \<^verbatim>\<open>proxy_app\<close> and its \<^verbatim>\<open>main\<close> in \<^verbatim>\<open>src/src/main.cpp\<close>, and the flags
  of \<^verbatim>\<open>cppcms::signal\<close> in \<^verbatim>\<open>src/src/main.h\<close>. The matching of regular expressions is a parameter. The page that
  polls the log and its sessions are in \<open>ProxyLog\<close>.
\<close>

section \<open>Routes\<close>

datatype handler =
    Client_activate | Client_active | Host_activate | Host_active | Host_test | Certificate_delete | Shutdown
  | Config_upload | Config_reload | Log_file | Script | Status_get | Logger_get | Get_certificates
  | Get_public_certificate | Index

text \<open>The table of the constructor: pattern, handler, and the groups that are its arguments.\<close>

definition routes :: "(string \<times> handler \<times> nat list) list" where
  "routes =
     [(''^/command/client/activate/name=(.*)&id=(.*)&dummy=(.*)$'', Client_activate, [1, 2]),
      (''^/command/client/active/name=(.*)&id=(.*)&check=(.*)&dummy=(.*)$'', Client_active, [1, 2, 3]),
      (''^/command/host/activate/name=(.*)&dummy=(.*)$'', Host_activate, [1]),
      (''^/command/host/active/name=(.*)&id=(.*)&check=(.*)&dummy=(.*)$'', Host_active, [1, 2, 3]),
      (''^/command/host/test/name=(.*)&dummy=(.*)$'', Host_test, [1]),
      (''^/command/client/delete/name=(.*)&dummy=(.*)$'', Certificate_delete, [1]),
      (''^/command/host/delete/name=(.*)&dummy=(.*)$'', Certificate_delete, [1]),
      (''^/command/stop/(.*)$'', Shutdown, []),
      (''^/command/config/upload/(.*)$'', Config_upload, []),
      (''^/command/config/reload/(.*)$'', Config_reload, []),
      (''^/command/logfile/active=(.*)$'', Log_file, [1]),
      (''^/script/(.*)$'', Script, [1]),
      (''^/status/(.*)$'', Status_get, []),
      (''^/logger/(.*)$'', Logger_get, []),
      (''^/command/certificate/get/(.*)$'', Get_certificates, [1]),
      (''^/command/certificate/public/(.*)$'', Get_public_certificate, [1]),
      (''^/$'', Index, [])]"

text \<open>
  A matcher gives the texts of the groups. The dispatcher takes the first route that matches; a group
  the pattern does not have is the empty text.
\<close>

type_synonym matcher = "string \<Rightarrow> string \<Rightarrow> string list option"

definition group :: "string list \<Rightarrow> nat \<Rightarrow> string" where
  "group gs i = (if i \<le> length gs \<and> 0 < i then gs ! (i - 1) else [])"

definition dispatch_url :: "matcher \<Rightarrow> string \<Rightarrow> (handler \<times> string list) option" where
  "dispatch_url rx url =
     (case find (\<lambda>(p, h, ix). rx p url \<noteq> None) routes of
        None \<Rightarrow> None
      | Some (p, h, ix) \<Rightarrow> Some (h, map (group (the (rx p url))) ix))"

section \<open>Requests\<close>

record ('j, 'c) web_env =
  we_rx :: matcher
  we_json :: "'j json_api"
  we_setting :: "int \<Rightarrow> setting"
  we_parse :: "string \<Rightarrow> 'j option"
  we_bound :: "int \<Rightarrow> u16 \<Rightarrow> exn option"
  we_copied :: "int \<Rightarrow> bool \<times> bool"
  we_x509 :: "'c x509"

record request =
  rq_url :: string
  rq_time :: int
  rq_upload :: upload

text \<open>The service with the application, the timer of a reload, and the two flags.\<close>

record web =
  wb_app :: app
  wb_timer :: "int option"
  wb_shutdown :: bool
  wb_reload :: bool

definition web_handle :: "('j, 'c) web_env \<Rightarrow> request \<Rightarrow> handler \<Rightarrow> string list \<Rightarrow> app \<Rightarrow> handled_app" where
  "web_handle E rq h args a =
     (let t = rq_time rq in
      case h of
        Client_activate \<Rightarrow> app_client_activate (we_setting E t) (args ! 0) (args ! 1) a
      | Client_active \<Rightarrow> app_client_active (args ! 1) (args ! 2) a
      | Host_activate \<Rightarrow> Some (False, app_host_activate (we_setting E t) (args ! 0) a)
      | Host_active \<Rightarrow> app_host_active (we_bound E t) t (args ! 1) (args ! 2) a
      | Certificate_delete \<Rightarrow> Some (certificate_delete (we_x509 E) (args ! 0) a)
      | Config_upload \<Rightarrow>
          config_upload (we_json E) (we_setting E t) (we_parse E) (we_bound E t)
            (fst (we_copied E t)) (snd (we_copied E t)) (rq_upload rq) a
      | Config_reload \<Rightarrow> Some (True, a)
      | Log_file \<Rightarrow> Some (False, log_file (args ! 0) a)
      | _ \<Rightarrow> Some (False, a))"

text \<open>
  \<^verbatim>\<open>proxy_app::main\<close>. The prefix \<^verbatim>\<open>/json\<close> is dropped; a reload exception sets the timer to one second; a URL
  without a route gives the status 404.
\<close>

definition web_main :: "('j, 'c) web_env \<Rightarrow> request \<Rightarrow> web \<Rightarrow> web option" where
  "web_main E rq w =
     (let url = (case check_remove_substr (rq_url rq) ''/json'' [] of (True, param) \<Rightarrow> param | (False, _) \<Rightarrow> rq_url rq) in
      case dispatch_url (we_rx E) url of
        None \<Rightarrow> Some w
      | Some (h, args) \<Rightarrow>
          if h = Shutdown then Some (w\<lparr>wb_shutdown := True\<rparr>)
          else
            (case web_handle E rq h args (wb_app w) of
               None \<Rightarrow> None
             | Some (reload, a) \<Rightarrow>
                 Some (w\<lparr>wb_app := a, wb_timer := if reload then Some (rq_time rq + 1000) else wb_timer w\<rparr>)))"

text \<open>\<^verbatim>\<open>timeout_handle\<close> when the timer has run down, and the handler of the signals.\<close>

definition timeout_handle :: "int \<Rightarrow> web \<Rightarrow> web" where
  "timeout_handle now w =
     (case wb_timer w of
        Some t \<Rightarrow> if t \<le> now then w\<lparr>wb_timer := None, wb_reload := True, wb_shutdown := True\<rparr> else w
      | None \<Rightarrow> w)"

definition signal_handler :: "bool \<Rightarrow> web \<Rightarrow> web" where
  "signal_handler sighup w = w\<lparr>wb_reload := sighup, wb_shutdown := True\<rparr>"

fun web_run :: "('j, 'c) web_env \<Rightarrow> request list \<Rightarrow> web \<Rightarrow> web option" where
  "web_run E [] w = Some w"
| "web_run E (rq # rqs) w = (case web_main E rq w of None \<Rightarrow> None | Some w \<Rightarrow> web_run E rqs w)"

text \<open>
  What \<^verbatim>\<open>main\<close> does around the service: the constructor of \<^verbatim>\<open>signal\<close> clears the flag, and behind the service the
  destructor of the lock stops everything. The result says whether the outer loop goes on.
\<close>

definition web_start :: "app \<Rightarrow> web" where
  "web_start a = \<lparr>wb_app = a, wb_timer = None, wb_shutdown = False, wb_reload = False\<rparr>"

definition web_finish :: "web \<Rightarrow> bool \<times> app" where
  "web_finish w = (wb_reload w, (wb_app w)\<lparr>ap_global := stopall (ap_global (wb_app w))\<rparr>)"

section \<open>What a request reads\<close>

text \<open>
  A pattern that begins with the anchor and a plain text matches only what begins with that text, when
  a group or the end follows it.
\<close>

definition plain_text :: "string \<Rightarrow> bool" where
  "plain_text l \<longleftrightarrow> list_all (\<lambda>c. c \<notin> set ''^$.*+?()[]{}|'' \<and> c \<noteq> CHR 0x5C) l"

definition anchored :: "matcher \<Rightarrow> bool" where
  "anchored rx \<longleftrightarrow> (\<forall>l rest url. plain_text l \<longrightarrow> rest \<noteq> [] \<longrightarrow> hd rest \<in> {CHR ''('', CHR ''$''} \<longrightarrow> rx (CHR ''^'' # l @ rest) url \<noteq> None \<longrightarrow>
     take (length l) url = l)"

text \<open>The plain text a route begins with.\<close>

definition lead :: "string \<Rightarrow> string" where
  "lead p = takeWhile (\<lambda>c. c \<noteq> CHR ''('' \<and> c \<noteq> CHR ''$'') (tl p)"

definition reader :: "handler \<Rightarrow> bool" where
  "reader h \<longleftrightarrow> h \<in> {Script, Status_get, Logger_get, Index, Get_certificates, Get_public_certificate, Host_test}"

definition follow :: "string \<Rightarrow> string" where
  "follow p = dropWhile (\<lambda>c. c \<noteq> CHR ''('' \<and> c \<noteq> CHR ''$'') (tl p)"

text \<open>The table, checked row by row.\<close>

definition proper_route :: "string \<times> handler \<times> nat list \<Rightarrow> bool" where
  "proper_route r = (case r of (p, h, ix) \<Rightarrow> p \<noteq> [] \<and> hd p = CHR ''^'' \<and> plain_text (lead p) \<and> follow p \<noteq> []
     \<and> hd (follow p) \<in> {CHR ''('', CHR ''$''} \<and> (reader h \<or> take 9 (lead p) = ''/command/''))"

lemma routes_proper: "list_all proper_route routes"
  by code_simp

lemma find_hit: "find P xs = Some x \<Longrightarrow> x \<in> set xs \<and> P x"
  by (induction xs) (auto split: if_splits)

lemma route_leads:
  assumes "anchored rx" "(p, h, ix) \<in> set routes" "rx p url \<noteq> None"
  shows "take (length (lead p)) url = lead p"
proof -
  have "proper_route (p, h, ix)"
    using assms(2) routes_proper by (auto simp: list_all_iff)
  then have "p = CHR ''^'' # lead p @ follow p" "plain_text (lead p)" "follow p \<noteq> []" "hd (follow p) \<in> {CHR ''('', CHR ''$''}"
    by (cases p; auto simp: proper_route_def lead_def follow_def)+
  then show ?thesis
    using assms(1,3) unfolding anchored_def by metis
qed

lemma dispatch_url_command:
  assumes "anchored rx" "dispatch_url rx url = Some (h, args)" "\<not> reader h"
  shows "take 9 url = ''/command/''"
proof -
  obtain p ix where r: "(p, h, ix) \<in> set routes" "rx p url \<noteq> None"
    using assms(2) by (auto simp: dispatch_url_def dest!: find_hit split: option.splits prod.splits)
  have lead: "take 9 (lead p) = ''/command/''"
    using r(1) routes_proper assms(3) by (auto simp: list_all_iff proper_route_def)
  have "length (take 9 (lead p)) = 9"
    by (simp only: lead) simp
  then have "9 \<le> length (lead p)"
    by (metis length_take min.cobounded1)
  then have "take 9 url = take 9 (take (length (lead p)) url)"
    by (simp add: min_def)
  then show ?thesis
    using route_leads [OF assms(1) r] lead by simp
qed

lemma reader_keeps: "reader h \<Longrightarrow> web_handle E rq h args a = Some (False, a)"
  by (auto simp: reader_def web_handle_def)

section \<open>The script\<close>

text \<open>
  The handler sends one fixed file in parts of a thousand bytes; a part is written as a C string, up to
  a zero byte. A part that is not full ends the loop.
\<close>

function script_loop :: "string \<Rightarrow> string \<times> nat" where
  "script_loop s =
     (let part = takeWhile (\<lambda>c. c \<noteq> CHR 0x00) (take 1000 s) in
      if length s < 1000 then (part, 1)
      else case script_loop (drop 1000 s) of (rest, kb) \<Rightarrow> (part @ rest, kb + 1))"
  by pat_completeness auto
termination
  by (relation "measure length") auto

declare script_loop.simps [simp del]

definition script :: "disk \<Rightarrow> string" where
  "script d = (case files d ''script/jquery.js'' of None \<Rightarrow> [] | Some s \<Rightarrow> fst (script_loop s))"

lemma script_loop_text: "CHR 0x00 \<notin> set s \<Longrightarrow> script_loop s = (s, length s div 1000 + 1)"
proof (induction s rule: script_loop.induct)
  case (1 s)
  have part: "takeWhile (\<lambda>c. c \<noteq> CHR 0x00) (take 1000 s) = take 1000 s"
    using 1(2) by (auto simp: takeWhile_eq_all_conv dest: in_set_takeD)
  show ?case
  proof (cases "length s < 1000")
    case True
    then show ?thesis
      using part by (subst script_loop.simps) (simp add: Let_def)
  next
    case False
    have "script_loop (drop 1000 s) = (drop 1000 s, length (drop 1000 s) div 1000 + 1)"
      using 1 False by (auto dest: in_set_dropD)
    then show ?thesis
      using False by (subst script_loop.simps, subst part) (simp add: Let_def le_div_geq)
  qed
qed

theorem script_sends_file: "files d ''script/jquery.js'' = Some s \<Longrightarrow> CHR 0x00 \<notin> set s \<Longrightarrow> script d = s"
  by (simp add: script_def script_loop_text)

section \<open>The settings of the service\<close>

text \<open>The object \<^verbatim>\<open>setup_config\<close> fills: paths with their values, later ones last. \<open>clock\<close> is the time of day as hhmmss.\<close>

datatype web_setting = Flag bool | Text string | Num int

definition setup_config :: "string \<Rightarrow> string \<Rightarrow> proxy_global \<Rightarrow> (string list \<times> web_setting) list" where
  "setup_config m_ip4_mask clock g =
     [([''file_server'', ''enable''], Flag False)]
     @ (if m_debug_flag g then [([''file_server'', ''enable''], Flag True), ([''http'', ''script''], Text ''/json'')] else [])
     @ [([''service'', ''api''], Text ''http''),
        ([''service'', ''port''], Num (uint (m_web_port g))),
        ([''service'', ''ip''], Text m_ip4_mask),
        ([''session'', ''location''], Text ''client''),
        ([''session'', ''cookies'', ''prefix''], Text (''uniproxy'' @ show_int (uint (m_web_port g)))),
        ([''session'', ''server'', ''storage''], Text ''files''),
        ([''session'', ''server'', ''dir''], Text (''/tmp/uniproxy_'' @ substr clock 0 6)),
        ([''session'', ''client'', ''encryptor''], Text ''hmac''),
        ([''session'', ''client'', ''key''], Text ''29b6e071ad5870228c6a2115d88d3b2e''),
        ([''service'', ''worker_threads''], Num 5)]"

section \<open>The main loop\<close>

text \<open>
  One turn of the outer loop: the ports that can be bound, an exception of the service, the requests
  it serves, and what ends it. \<open>None\<close> stands for a service that has not ended, as well.
\<close>

datatype ending = Stop_command | Signal bool | Timer int

record turn =
  tu_bound :: "u16 \<Rightarrow> exn option"
  tu_fault :: "exn option"
  tu_requests :: "request list"
  tu_ending :: ending

fun web_end :: "ending \<Rightarrow> web \<Rightarrow> web" where
  "web_end Stop_command w = w"
| "web_end (Signal sighup) w = signal_handler sighup w"
| "web_end (Timer now) w = timeout_handle now w"

definition serve :: "('j, 'c) web_env \<Rightarrow> turn \<Rightarrow> app \<Rightarrow> (bool \<times> app) option" where
  "serve E tu a =
     (case web_run E (tu_requests tu) (web_start a) of
        None \<Rightarrow> None
      | Some w \<Rightarrow> let w = web_end (tu_ending tu) w in if wb_shutdown w then Some (web_finish w) else None)"

text \<open>An exception of a turn is logged and ends the program with the code 1; a reload starts over.\<close>

definition stopped :: "app \<Rightarrow> app" where
  "stopped a = a\<lparr>ap_global := stopall (ap_global a)\<rparr>"

fun main_loop :: "('j, 'c) startup \<Rightarrow> ('j, 'c) web_env \<Rightarrow> turn list \<Rightarrow> app \<Rightarrow> nat \<Rightarrow> (int \<times> app) option" where
  "main_loop S E [] a count = None"
| "main_loop S E (tu # tus) a count =
     (case boot S a count of
        None \<Rightarrow> None
      | Some (_, a, count) \<Rightarrow>
          (case global_lock (tu_bound tu) (ap_global a) of
             None \<Rightarrow> None
           | Some (Inl e) \<Rightarrow> Some (1, stopped (add_log (what e) a))
           | Some (Inr g) \<Rightarrow>
               (case tu_fault tu of
                  Some e \<Rightarrow> Some (1, stopped (add_log (what e) (a\<lparr>ap_global := g\<rparr>)))
                | None \<Rightarrow>
                    (case serve E tu (a\<lparr>ap_global := g\<rparr>) of
                       None \<Rightarrow> None
                     | Some (True, a) \<Rightarrow> main_loop S E tus a count
                     | Some (False, a) \<Rightarrow> Some (0, stopped a)))))"

text \<open>\<^verbatim>\<open>main\<close> from the command line on: with the option for help the text is all there is.\<close>

definition main_program :: "('j, 'c) startup \<Rightarrow> ('j, 'c) web_env \<Rightarrow> string list \<Rightarrow> turn list \<Rightarrow> app \<Rightarrow> (int \<times> app) option" where
  "main_program S E argv tus a =
     (if check_arg argv (Some (CHR ''h'')) (Some ''help'') then Some (0, a) else main_loop S E tus a 0)"

lemma serve_stops: "serve E tu a = Some (reload, a') \<Longrightarrow> localclients (ap_global a') = [] \<and> remotehosts (ap_global a') = []"
  by (auto simp: serve_def web_finish_def stopall_def Let_def split: option.splits if_splits)

lemma stopped_idle: "localclients (ap_global (stopped a)) = []" "remotehosts (ap_global (stopped a)) = []"
  by (simp_all add: stopped_def stopall_def)

text \<open>Whichever way the program ends, no client and no host is left.\<close>

theorem main_ends_idle:
  "main_loop S E tus a count = Some (code, a') \<Longrightarrow> code \<in> {0, 1} \<and> localclients (ap_global a') = [] \<and> remotehosts (ap_global a') = []"
proof (induction S E tus a count rule: main_loop.induct)
  case (2 S E tu tus a count)
  then show ?case
    by (fastforce simp: stopped_idle split: option.splits sum.splits prod.splits bool.splits)
qed simp

corollary main_program_ends_idle:
  assumes "main_program S E argv tus a = Some (code, a')" "localclients (ap_global a) = []" "remotehosts (ap_global a) = []"
  shows "code \<in> {0, 1} \<and> localclients (ap_global a') = [] \<and> remotehosts (ap_global a') = []"
  using assms by (auto simp: main_program_def dest: main_ends_idle split: if_splits)

section \<open>Properties\<close>


section \<open>Instances\<close>

text \<open>A matcher that looks at the plain text before the first group.\<close>

definition plain_matcher :: matcher where
  "plain_matcher p url = (if take (length (lead p)) url = lead p then Some [drop (length (lead p)) url] else None)"

lemma plain_matcher_anchored: "anchored plain_matcher"
proof -
  have "lead (CHR ''^'' # l @ rest) = l" if "plain_text l" "rest \<noteq> []" "hd rest \<in> {CHR ''('', CHR ''$''}" for l rest
  proof -
    have "\<forall>c\<in>set l. c \<noteq> CHR ''('' \<and> c \<noteq> CHR ''$''"
      using that(1) by (auto simp: plain_text_def list_all_iff)
    then show ?thesis
      using that(2,3) by (cases rest) (auto simp: lead_def takeWhile_append)
  qed
  then show ?thesis
    by (auto simp: anchored_def plain_matcher_def split: if_splits)
qed

definition sample_web :: "(tree, unit) web_env" where
  "sample_web =
     \<lparr>we_rx = plain_matcher, we_json = tree_api, we_setting = (\<lambda>_. sample_setting), we_parse = (\<lambda>_. Some bare_config_object),
      we_bound = (\<lambda>_ _. None), we_copied = (\<lambda>_. (True, True)), we_x509 = own_x509\<rparr>"

definition sample_request :: request where
  "sample_request = \<lparr>rq_url = ''/command/host/activate/name=b'', rq_time = 5, rq_upload = NoPost\<rparr>"

definition ready_app :: app where
  "ready_app = fresh_app\<lparr>ap_certs := sample_state [config_filename, my_private_key_name, my_public_cert_name]\<rparr>"

lemma start_hosts_unbound: "\<exists>hs'. start_hosts (\<lambda>_. None) hs = ret hs'"
proof (induction hs)
  case (Cons h hs)
  then show ?case
    by (cases "rh_running h") (auto simp: host_start_def after_eq_ret)
qed simp

lemma ready_boots: "\<exists>a1. boot sample_startup ready_app 0 = Some (True, a1, 0)"
proof -
  let ?a = "ready_app\<lparr>ap_log := [''UniProxy starting'']\<rparr>"
  have s: "su_json sample_startup = tree_api" "su_setting sample_startup = sample_setting"
    by (simp_all add: sample_startup_def)
  obtain g2 where g2: "populate_json (su_json sample_startup) (su_setting sample_startup) 12 bare_config_object (ap_global ?a) = ret g2" "m_own_name g2 = ''me''"
    using populate_bare [of 12] s by fastforce
  obtain g3 where g3: "populate_json (su_json sample_startup) (su_setting sample_startup) 15 bare_config_object g2 = ret g3"
    using populate_bare [of 15] s by fastforce
  have "disk_file config_filename ?a = Some sample_text" "su_parse sample_startup sample_text = Some bare_config_object" "m_own_name g2 \<noteq> []"
    "disk_file my_private_key_name ?a \<noteq> None" "su_key_ok sample_startup (ap_certs ?a)"
    "load_certificates_file (su_x509 sample_startup) (cs_disk (ap_certs ?a)) my_public_cert_name [] = (True, [()])"
    "get_common_name (su_x509 sample_startup) () = m_own_name g2"
    using g2(2) by (simp_all add: ready_app_def fresh_app_def sample_app_def sample_state_def disk_file_def sample_startup_def load_certificates_file_def
        own_x509_def get_common_name_def)
  from load_configuration_good [OF this(1,2) g2(1) this(3-7) g3, of 0] show ?thesis
    by (subst boot.simps) auto
qed

lemma sample_dispatch: "dispatch_url plain_matcher ''/command/host/activate/name=b'' = Some (Host_activate, [''b''])"
  by code_simp

lemma sample_main: "web_main sample_web sample_request w = Some (w\<lparr>wb_app := app_host_activate sample_setting ''b'' (wb_app w)\<rparr>)"
  by (simp add: web_main_def sample_request_def check_remove_substr_def substr_def sample_web_def sample_dispatch web_handle_def)


end
