(* ===== verification/Program.thy ===== *)
theory Program
  imports WebServer "HOL-Library.Sublist"
begin

text \<open>
  The whole program: its life as a step relation between the turns of the outer loop of \<^verbatim>\<open>main\<close>, and the
  invariant of the global state that every load, command, failure and restart keeps.
\<close>

section \<open>Well formed states\<close>

text \<open>
  What holds of the global state at every moment: the listeners have distinct ports, the identifiers
  the commands use are unique and below the counters, every host has a local end point and its TLS
  context is the one for version 1.2.
\<close>

definition global_ok :: "proxy_global \<Rightarrow> bool" where
  "global_ok g \<longleftrightarrow> distinct (listener_ports g)
     \<and> distinct (map bc_id (localclients g)) \<and> list_all (\<lambda>i. i \<le> static_local_id g) (map bc_id (localclients g))
     \<and> distinct (map rh_id (remotehosts g)) \<and> list_all (\<lambda>i. i \<le> static_remote_count g) (map rh_id (remotehosts g))
     \<and> list_all (\<lambda>h. rh_local_ep h \<noteq> [] \<and> rh_tls h = 12) (remotehosts g)"

text \<open>A change of the clients that keeps what identifies them, and one of the hosts.\<close>

definition client_key :: "base_client \<Rightarrow> int \<times> u16 \<times> bool" where
  "client_key c = (bc_id c, bc_local_port c, is_provider c)"

definition host_key :: "remote_host \<Rightarrow> int \<times> LocalEndpoint list \<times> int" where
  "host_key h = (rh_id h, rh_local_ep h, rh_tls h)"

lemma listener_ports_key: "listener_ports g = map (\<lambda>(i, p, b). p) (filter (\<lambda>(i, p, b). \<not> b) (map client_key (localclients g)))"
  by (simp add: listener_ports_def filter_map comp_def client_key_def)

lemma hosts_key:
  "map rh_id hs = map fst (map host_key hs)"
  "list_all (\<lambda>h. rh_local_ep h \<noteq> [] \<and> rh_tls h = 12) hs = list_all (\<lambda>(i, ls, t). ls \<noteq> [] \<and> t = 12) (map host_key hs)"
  by (simp_all add: host_key_def list.pred_map comp_def)

lemma clients_key: "map bc_id cs = map fst (map client_key cs)"
  by (simp add: client_key_def)

lemmas global_ok_key = global_ok_def listener_ports_key hosts_key clients_key

lemma global_ok_keys:
  assumes "map client_key (localclients g') = map client_key (localclients g)" "map host_key (remotehosts g') = map host_key (remotehosts g)"
    "static_local_id g' = static_local_id g" "static_remote_count g' = static_remote_count g"
  shows "global_ok g' = global_ok g"
  unfolding global_ok_key assms ..

lemma global_ok_hosts_keys: "map host_key hs = map host_key (remotehosts g) \<Longrightarrow> global_ok (g\<lparr>remotehosts := hs\<rparr>) = global_ok g"
  by (rule global_ok_keys) simp_all

lemma global_ok_clients_keys: "map client_key cs = map client_key (localclients g) \<Longrightarrow> global_ok (g\<lparr>localclients := cs\<rparr>) = global_ok g"
  by (rule global_ok_keys) simp_all

lemma subseq_keeps: "subseq xs ys \<Longrightarrow> distinct ys \<Longrightarrow> distinct xs" "subseq xs ys \<Longrightarrow> list_all P ys \<Longrightarrow> list_all P xs"
  by (auto simp: list_all_iff dest: subseqs_distinctD [OF in_set_subseqs [THEN iffD2]] list_emb_set)

text \<open>Fewer clients and hosts, and counters that went on, keep the invariant.\<close>

lemma global_ok_fewer:
  assumes "subseq (map client_key (localclients g')) (map client_key (localclients g))"
    and "subseq (map host_key (remotehosts g')) (map host_key (remotehosts g))"
    and "static_local_id g \<le> static_local_id g'" "static_remote_count g \<le> static_remote_count g'" "global_ok g"
  shows "global_ok g'"
proof -
  have c: "subseq (filter P (map client_key (localclients g'))) (filter P (map client_key (localclients g)))" for P
    by (rule subseq_filter [OF assms(1)])
  note ms = subseq_map [OF c] subseq_map [OF assms(1)] subseq_map [OF assms(2)]
  note ok = assms(5) [unfolded global_ok_key]
  have "list_all (\<lambda>i. i \<le> static_local_id g') (map fst (map client_key (localclients g)))"
    "list_all (\<lambda>i. i \<le> static_remote_count g') (map fst (map host_key (remotehosts g)))"
    using ok assms(3,4) by (auto elim!: list.pred_mono_strong)
  then show ?thesis
    unfolding global_ok_key using ok ms assms(2) by (blast intro: subseq_keeps)
qed

lemma first_client_keys:
  assumes "\<And>c. client_key (snd (f c)) = client_key c"
  shows "map client_key (snd (first_client f cs)) = map client_key cs"
proof (induction cs)
  case (Cons c cs)
  obtain b c' where f: "f c = (b, c')"
    by fastforce
  then have "client_key c' = client_key c"
    using assms [of c] by simp
  then show ?case
    using Cons f by (cases b) (auto split: prod.splits)
qed simp

lemma client_steps_key:
  "client_key (snd (client_activate_name now name c)) = client_key c" "client_key (snd (client_set_active_id ident act c)) = client_key c"
  "client_key (client_run c) = client_key c"
  by (simp_all add: client_activate_name_def client_set_active_id_def client_run_def client_halt_def client_key_def is_provider_def Let_def)

lemma host_start_key: "host_start b h = ret h' \<Longrightarrow> host_key h' = host_key h"
  by (auto simp: host_start_def host_key_def split: if_splits option.splits)

lemma start_hosts_keys: "start_hosts bound hs = ret hs' \<Longrightarrow> map host_key hs' = map host_key hs"
  by (induction bound hs arbitrary: hs' rule: start_hosts.induct) (auto simp: after_eq_ret dest: host_start_key)

lemma host_active_keys:
  "host_active_loop bound now ident act hs = ret hs' \<Longrightarrow> map host_key hs' = map host_key hs"
  "map host_key (host_active_left bound now ident act hs) = map host_key hs"
proof (induction hs arbitrary: hs')
  case (Cons h hs)
  have key: "host_key (h\<lparr>rh_active := b\<rparr>) = host_key h" "host_key (host_stop now (h\<lparr>rh_active := b\<rparr>)) = host_key h" for b
    by (simp_all add: host_key_def host_stop_def)
  { case 1
    then show ?case
      using Cons.IH(1) host_start_key [of "bound (rh_port h)" "h\<lparr>rh_active := True\<rparr>"]
      by (auto simp: after_eq_ret key split: if_splits) }
  { case 2
    show ?case
      using Cons.IH(2) host_start_key [of "bound (rh_port h)" "h\<lparr>rh_active := True\<rparr>"]
      by (auto simp: key ret_def split: option.splits sum.splits) }
qed simp_all

lemma unpopulate_clients_none: "unpopulate_clients items cs = []"
proof -
  have "keep_client c items False = False" for c
    by (induction items) (simp_all add: is_same_client_def)
  then show ?thesis
    by (induction cs) simp_all
qed

lemma unpopulate_hosts_keys: "unpopulate_hosts J items hs = ret hs' \<Longrightarrow> subseq (map host_key hs') (map host_key hs)"
  by (induction hs arbitrary: hs') (auto simp: after_eq_ret host_key_def remove_any_def)

lemma unpopulate_hosts_left_keys: "subseq (map host_key (unpopulate_hosts_left J items hs)) (map host_key hs)"
  by (induction hs) (auto simp: host_key_def remove_any_def split: option.splits sum.splits)

lemma global_ok_unpopulate:
  "unpopulate_json J obj g = ret g' \<Longrightarrow> global_ok g \<Longrightarrow> global_ok g'" "global_ok g \<Longrightarrow> global_ok (unpopulate_json_left J obj g)"
  by (erule global_ok_fewer [rotated -1];
      auto simp: unpopulate_json_def unpopulate_json_left_def unpopulate_clients_none unpopulate_hosts_left_keys after_eq_ret dest: unpopulate_hosts_keys)+

lemma global_ok_client: 
  assumes "populate_client J S g x = ret g'" "global_ok g"
  shows "global_ok g'"
  using populate_client_adds [OF assms(1)]
proof
  assume "\<exists>c. g' = g\<lparr>localclients := localclients g @ [c], static_local_id := static_local_id g + 1\<rparr> \<and> bc_id c = static_local_id g + 1"
  then obtain c where c: "g' = g\<lparr>localclients := localclients g @ [c], static_local_id := static_local_id g + 1\<rparr>" "bc_id c = static_local_id g + 1"
    by blast
  have "distinct (listener_ports g')"
    using populate_client_ports [OF assms(1)] assms(2) by (simp add: global_ok_def)
  then show ?thesis
    using c assms(2) by (force simp: global_ok_def list_all_iff)
qed (use assms(2) in simp)

lemma populate_client_keeps: "populate_client J S g x = ret g' \<Longrightarrow> min_tls_protocol g' = min_tls_protocol g"
  by (auto dest: populate_client_adds)

lemma global_ok_client_left: "global_ok g \<Longrightarrow> global_ok (populate_client_left J g x)"
  by (erule global_ok_fewer [rotated -1]) (simp_all add: populate_client_left_def)

lemma global_ok_clients_left: "global_ok g \<Longrightarrow> global_ok (populate_clients_left J S items g)"
  by (induction J S items g rule: populate_clients_left.induct)
     (auto simp: global_ok_client_left dest: global_ok_client [unfolded ret_def] split: option.splits sum.splits)

lemma global_ok_clients:
  "populate_clients J S items g = ret g' \<Longrightarrow> global_ok g \<Longrightarrow> global_ok g' \<and> min_tls_protocol g' = min_tls_protocol g"
  by (induction J S items g rule: populate_clients.induct) (fastforce simp: after_eq_ret dest: global_ok_client populate_client_keeps)+

lemma update_hosts_keys: "update_hosts J item hs = ret (found, hs') \<Longrightarrow> map host_key hs' = map host_key hs"
  by (induction hs arbitrary: found hs')
     (auto simp: after_eq_ret host_key_def remove_remotes_def add_remotes_def split: if_splits)

lemma update_hosts_left_keys: "map host_key (update_hosts_left J item hs) = map host_key hs"
  by (induction hs) (auto simp: host_key_def remove_remotes_def add_remotes_def split: option.splits sum.splits)

text \<open>A host gets the TLS version of the moment, which is the one of \<^verbatim>\<open>reset\<close>.\<close>

lemma global_ok_host:
  assumes "populate_host J S g x = ret g'" "global_ok g" "min_tls_protocol g = 12"
  shows "global_ok g' \<and> min_tls_protocol g' = 12"
proof -
  obtain found hosts where u: "update_hosts J x (remotehosts g) = ret (found, hosts)"
      and g': "g' = g\<lparr>remotehosts := hosts\<rparr> \<or> (\<exists>p rs ls pl. ls \<noteq> [] \<and> g' = g\<lparr>remotehosts := hosts @ [RemoteProxyHost_ctor (static_remote_count g + 1) (min_tls_protocol g) p rs ls pl],
        static_remote_count := static_remote_count g + 1\<rparr>)"
    using populate_host_adds [OF assms(1)] by blast
  have ok: "global_ok (g\<lparr>remotehosts := hosts\<rparr>)"
    using global_ok_hosts_keys update_hosts_keys [OF u] assms(2) by simp
  from g' show ?thesis
  proof
    assume "\<exists>p rs ls pl. ls \<noteq> [] \<and> g' = g\<lparr>remotehosts := hosts @ [RemoteProxyHost_ctor (static_remote_count g + 1) (min_tls_protocol g) p rs ls pl],
        static_remote_count := static_remote_count g + 1\<rparr>"
    then obtain h where "g' = g\<lparr>remotehosts := hosts @ [h], static_remote_count := static_remote_count g + 1\<rparr>"
        "rh_id h = static_remote_count g + 1" "rh_local_ep h \<noteq> []" "rh_tls h = 12"
      using assms(3) by (auto simp: RemoteProxyHost_ctor_def)
    then show ?thesis
      using ok assms(3) by (force simp: global_ok_def list_all_iff listener_ports_def)
  qed (use ok assms(3) in simp)
qed

lemma global_ok_hosts:
  "populate_hosts J S items g = ret g' \<Longrightarrow> global_ok g \<Longrightarrow> min_tls_protocol g = 12 \<Longrightarrow> global_ok g' \<and> min_tls_protocol g' = 12"
  by (induction J S items g rule: populate_hosts.induct) (auto simp: after_eq_ret dest: global_ok_host)

lemma global_ok_host_left: "global_ok g \<Longrightarrow> global_ok (populate_host_left J g x)"
  by (auto simp: populate_host_left_def update_hosts_left_keys global_ok_hosts_keys dest!: update_hosts_keys [unfolded ret_def]
      split: option.splits sum.splits)

lemma global_ok_hosts_left: "global_ok g \<Longrightarrow> min_tls_protocol g = 12 \<Longrightarrow> global_ok (populate_hosts_left J S items g)"
  by (induction J S items g rule: populate_hosts_left.induct)
     (auto simp: global_ok_host_left dest: global_ok_host [unfolded ret_def] split: option.splits sum.splits)

lemma global_ok_settings: "localclients g' = localclients g \<Longrightarrow> remotehosts g' = remotehosts g \<Longrightarrow> static_local_id g' = static_local_id g
  \<Longrightarrow> static_remote_count g' = static_remote_count g \<Longrightarrow> global_ok g \<Longrightarrow> global_ok g'"
  by (simp add: global_ok_def listener_ports_def)

lemma populate_config_counts: "populate_config J S obj g = ret g' \<Longrightarrow> static_local_id g' = static_local_id g \<and> static_remote_count g' = static_remote_count g"
  by (auto simp: populate_config_def after_eq_ret Let_def split: if_splits option.splits prod.splits)

lemma global_ok_config: "populate_config J S obj g = ret g' \<Longrightarrow> global_ok g \<Longrightarrow> global_ok g'"
  by (rule global_ok_settings) (simp_all add: populate_config_clients populate_config_hosts populate_config_counts)

text \<open>The case distinctions of the definitions in \<open>Interrupted\<close>.\<close>

lemma left_cases: "(\<And>v. x = ret v \<Longrightarrow> P (f v)) \<Longrightarrow> P b \<Longrightarrow> P (case x of Some (Inr v) \<Rightarrow> f v | _ \<Rightarrow> b)"
  by (simp add: ret_def split: option.split sum.split)

lemma left_pair: "(\<And>u v. x = ret (u, v) \<Longrightarrow> P (f u v)) \<Longrightarrow> P b \<Longrightarrow> P (case x of Some (Inr (u, v)) \<Rightarrow> f u v | _ \<Rightarrow> b)"
  by (simp add: ret_def split: option.split sum.split)

lemma left_some: "(\<And>u v. x = ret (u, Some v) \<Longrightarrow> P (f u v)) \<Longrightarrow> P b \<Longrightarrow> P (case x of Some (Inr (u, Some v)) \<Rightarrow> f u v | _ \<Rightarrow> b)"
  by (simp add: ret_def split: option.split sum.split)

abbreviation members :: "proxy_global \<Rightarrow> base_client list \<times> remote_host list \<times> int \<times> int" where
  "members g \<equiv> (localclients g, remotehosts g, static_local_id g, static_remote_count g)"

lemma populate_config_left_members: "members (populate_config_left J S obj g) = members g"
  unfolding populate_config_left_def Let_def
  by (rule left_pair, rule left_cases, rule left_pair, rule left_some, rule left_pair) simp_all

lemma global_ok_config_left: "global_ok g \<Longrightarrow> global_ok (populate_config_left J S obj g)"
  using populate_config_left_members [of J S obj g] by (auto intro: global_ok_settings)

lemma global_ok_reset: "global_ok g \<Longrightarrow> global_ok (reset g) \<and> min_tls_protocol (reset g) = 12"
  by (auto simp: reset_def intro: global_ok_settings)

lemma global_ok_populate: "populate_json J S acl obj g = ret g' \<Longrightarrow> global_ok g \<Longrightarrow> global_ok g'"
proof -
  assume p: "populate_json J S acl obj g = ret g'" and "global_ok g"
  then have 0: "global_ok (reset g)" "min_tls_protocol (reset g) = 12"
    by (simp_all add: global_ok_reset)
  obtain g1 g2 g3 where
    g1: "(if bit acl 1 then populate_clients J S (array_of J obj ''clients'') (reset g) else ret (reset g)) = ret g1" and
    g2: "(if bit acl 0 then populate_hosts J S (array_of J obj ''hosts'') g1 else ret g1) = ret g2" and
    g3: "(if bit acl 2 \<and> jtype J (jfind J obj ''web'') = is_object
          then after (check_port J (jfind J obj ''web'') ''port'' (m_web_port g2)) (\<lambda>(_, p). ret (g2\<lparr>m_web_port := p\<rparr>))
          else ret g2) = ret g3" and
    g4: "(if bit acl 3 \<and> jtype J (jfind J obj ''config'') = is_object
          then populate_config J S (jfind J obj ''config'') g3 else ret g3) = ret g'"
    using p unfolding populate_json_def Let_def after_eq_ret by blast
  have 1: "global_ok g1" "min_tls_protocol g1 = 12"
    using g1 0 by (auto dest: global_ok_clients split: if_splits)
  have 2: "global_ok g2"
    using g2 1 by (auto dest: global_ok_hosts split: if_splits)
  have 3: "global_ok g3"
    using g3 2 by (auto simp: after_eq_ret split: if_splits intro: global_ok_settings)
  show ?thesis
    using g4 3 global_ok_config by (auto split: if_splits)
qed

lemma global_ok_populate_left: "global_ok g \<Longrightarrow> global_ok (populate_json_left J S acl obj g)"
proof -
  assume "global_ok g"
  then have 0: "global_ok (reset g)" "min_tls_protocol (reset g) = 12"
    by (simp_all add: global_ok_reset)
  have 1: "global_ok g1 \<and> min_tls_protocol g1 = 12"
    if "(if bit acl 1 then populate_clients J S (array_of J obj ''clients'') (reset g) else ret (reset g)) = ret g1" for g1
    using that 0 by (auto dest: global_ok_clients split: if_splits)
  have 2: "global_ok g2" if "global_ok g1 \<and> min_tls_protocol g1 = 12"
      "(if bit acl 0 then populate_hosts J S (array_of J obj ''hosts'') g1 else ret g1) = ret g2" for g1 g2
    using that by (auto dest: global_ok_hosts split: if_splits)
  have 3: "global_ok g3" if "global_ok g2" "(if bit acl 2 \<and> jtype J (jfind J obj ''web'') = is_object
          then after (check_port J (jfind J obj ''web'') ''port'' (m_web_port g2)) (\<lambda>(_, p). ret (g2\<lparr>m_web_port := p\<rparr>))
          else ret g2) = ret g3" for g2 g3
    using that by (auto simp: after_eq_ret split: if_splits intro: global_ok_settings)
  show ?thesis
    unfolding populate_json_left_def Let_def
  proof (rule left_cases, rule left_cases, rule left_cases)
    fix g1 g2 g3
    assume g1: "(if bit acl 1 then populate_clients J S (array_of J obj ''clients'') (reset g) else ret (reset g)) = ret g1"
    show "global_ok (populate_hosts_left J S (array_of J obj ''hosts'') g1)"
      using 1 [OF g1] by (blast intro: global_ok_hosts_left)
    assume g2: "(if bit acl 0 then populate_hosts J S (array_of J obj ''hosts'') g1 else ret g1) = ret g2"
    show "global_ok g2"
      by (rule 2 [OF 1 [OF g1] g2])
    assume g3: "(if bit acl 2 \<and> jtype J (jfind J obj ''web'') = is_object
        then after (check_port J (jfind J obj ''web'') ''port'' (m_web_port g2)) (\<lambda>(_, p). ret (g2\<lparr>m_web_port := p\<rparr>))
        else ret g2) = ret g3"
    show "global_ok (populate_config_left J S (jfind J obj ''config'') g3)"
      by (rule global_ok_config_left, rule 3 [OF 2 [OF 1 [OF g1] g2] g3])
  qed (rule global_ok_clients_left [OF 0(1)])
qed

lemma global_ok_change_left: "global_ok g \<Longrightarrow> global_ok (change_left J S obj g)"
  by (auto simp: change_left_def ret_def global_ok_unpopulate(2) intro!: global_ok_populate_left
      intro: global_ok_unpopulate(1) [unfolded ret_def] split: option.splits sum.splits)

lemma global_ok_lock_left: "global_ok (global_lock_left bound g) = global_ok g"
proof -
  have "map host_key (start_hosts_left bound hs) = map host_key hs" for hs
    by (induction hs) (auto simp: ret_def dest!: host_start_key [unfolded ret_def] split: option.splits sum.splits)
  then show ?thesis
    by (intro global_ok_keys) (simp_all add: global_lock_left_def)
qed

lemma global_ok_lock: "global_lock bound g = ret g' \<Longrightarrow> global_ok g \<Longrightarrow> global_ok g'"
proof -
  assume l: "global_lock bound g = ret g'" and ok: "global_ok g"
  obtain hs where hs: "start_hosts bound (remotehosts g) = ret hs"
      "g' = g\<lparr>remotehosts := hs, localclients := map (\<lambda>c. if bc_active c then client_run c else c) (localclients g)\<rparr>"
    using l by (auto simp: global_lock_def after_eq_ret)
  have "map client_key (map (\<lambda>c. if bc_active c then client_run c else c) (localclients g)) = map client_key (localclients g)"
    by (simp add: client_steps_key)
  then show ?thesis
    using global_ok_keys [of g' g] start_hosts_keys [OF hs(1)] ok hs(2) by simp
qed

section \<open>Requests keep the state well formed\<close>

lemma global_ok_activation: "global_ok (g\<lparr>m_activate := l\<rparr>) = global_ok g"
  by (simp add: global_ok_def listener_ports_def)

lemma client_activate_ok:
  assumes "client_activate S param sid g = Some (b, g')"
  shows "global_ok g' = global_ok g"
proof (cases "localclients g = []")
  case False
  then obtain ident where i: "from_string sid None = Some ident"
    using assms by (auto simp: client_activate_def split: option.splits)
  define f where "f = (\<lambda>c. if bc_id c = ident then client_activate_name (se_now S) param c else (False, c))"
  have "map client_key (snd (first_client f (localclients g))) = map client_key (localclients g)"
    by (rule first_client_keys) (simp add: f_def client_steps_key)
  moreover have "g' = g\<lparr>localclients := snd (first_client f (localclients g))\<rparr>"
    using assms False i by (cases "first_client f (localclients g)") (simp add: client_activate_def f_def)
  ultimately show ?thesis
    using global_ok_clients_keys by metis
qed (use assms in \<open>simp add: client_activate_def\<close>)

lemma apply_configuration_ok:
  assumes "apply_configuration J S bound obj a = Some (Inr (r, a'))" "global_ok (ap_global a)"
  shows "global_ok (ap_global a')"
proof -
  have "global_ok g'" if "after (unpopulate_json J obj (ap_global a)) (populate_json J S 15 obj) = Some (Inr g')" for g'
    using that assms(2) by (auto simp: ret_def [symmetric] after_eq_ret intro: global_ok_unpopulate global_ok_populate)
  then show ?thesis
    using assms unfolding apply_configuration_def Let_def
    by (auto simp: global_ok_change_left global_ok_lock_left dest: global_ok_lock [unfolded ret_def] split: option.splits sum.splits bool.splits)
qed

lemma upload_body_ok:
  "upload_body J S parse bound c1 c2 a = Some (r, a') \<Longrightarrow> global_ok (ap_global a) \<Longrightarrow> global_ok (ap_global a')"
  by (auto simp: upload_body_def dest!: copy_file_global apply_configuration_ok split: option.splits sum.splits if_splits prod.splits)

lemma config_upload_ok:
  assumes "config_upload J S parse bound c1 c2 up a = Some (r, a')" "global_ok (ap_global a)"
  shows "global_ok (ap_global a')"
proof -
  obtain e a1 where sv: "save_upload up a = (e, a1)"
    by fastforce
  have "global_ok (ap_global a1)"
    using save_upload_simps [OF sv] assms(2) by simp
  then show ?thesis
    using assms sv by (auto simp: config_upload_def dest!: upload_body_ok split: if_splits option.splits sum.splits)
qed

lemma host_active_ok:
  "app_host_active bound now sid checked a = Some (r, a') \<Longrightarrow> global_ok (ap_global a') = global_ok (ap_global a)"
  by (auto simp: app_host_active_def host_set_active_def after_def ret_def host_active_keys global_ok_hosts_keys
      dest!: host_active_keys(1) [unfolded ret_def] split: option.splits if_splits sum.splits)

lemma certificate_delete_global: "ap_global (snd (certificate_delete X name a)) = ap_global a"
  by (auto simp: certificate_delete_def add_log_def Let_def split: prod.splits bool.splits)

lemma web_handle_ok:
  assumes "web_handle E rq h args a = Some (r, a')" "global_ok (ap_global a)"
  shows "global_ok (ap_global a')"
proof (cases h)
  case Client_activate
  then show ?thesis
    using assms by (auto simp: web_handle_def app_client_activate_def client_activate_ok split: option.splits)
next
  case Client_active
  have "map client_key (snd (first_client (client_set_active_id i b) cs)) = map client_key cs" for i b cs
    by (rule first_client_keys) (simp add: client_steps_key)
  then show ?thesis
    using assms Client_active
    by (auto simp: web_handle_def app_client_active_def client_set_active_def global_ok_clients_keys split: option.splits if_splits)
next
  case Host_activate
  then show ?thesis
    using assms by (auto simp: web_handle_def app_host_activate_def host_activate_def global_ok_activation)
next
  case Host_active
  then show ?thesis
    using assms host_active_ok [of "we_bound E (rq_time rq)" "rq_time rq" "args ! 1" "args ! 2" a r a'] by (simp add: web_handle_def Let_def)
next
  case Certificate_delete
  then show ?thesis
    using assms certificate_delete_global [of "we_x509 E" "args ! 0" a] by (auto simp: web_handle_def)
next
  case Config_upload
  then show ?thesis
    using assms config_upload_ok [OF _ assms(2)] by (simp add: web_handle_def Let_def)
qed (use assms in \<open>auto simp: web_handle_def log_file_def\<close>)

lemma web_main_ok:
  assumes "web_main E rq w = Some w'" "global_ok (ap_global (wb_app w))"
  shows "global_ok (ap_global (wb_app w'))"
proof -
  define url where "url = (case check_remove_substr (rq_url rq) ''/json'' [] of (True, param) \<Rightarrow> param | (False, _) \<Rightarrow> rq_url rq)"
  show ?thesis
    using assms web_handle_ok unfolding web_main_def Let_def url_def [symmetric]
    by (fastforce split: option.splits if_splits prod.splits)
qed

section \<open>A start keeps the state well formed\<close>

lemma own_certificate_global: "own_certificate E a = (name, good, a') \<Longrightarrow> ap_global a' = ap_global a"
  by (cases "load_certificates_file (su_x509 E) (cs_disk (ap_certs a)) my_public_cert_name []")
     (auto simp: own_certificate_def add_log_def Let_def split: if_splits)

lemma make_certificate_global: "make_certificate E a n = (r, a', n') \<Longrightarrow> ap_global a' = ap_global a"
  by (auto simp: make_certificate_def add_log_def Let_def split: prod.splits bool.splits if_splits)

lemma load_all_global_ok:
  assumes "load_all E name a = Some (r, a')" "global_ok (ap_global a)"
  shows "global_ok (ap_global a')"
proof -
  define b where "b = (if disk_file my_certs_name a = None then write_file my_certs_name [] a else a)"
  have "ap_global b = ap_global a"
    by (simp add: b_def)
  then show ?thesis
    using assms unfolding load_all_def b_def [symmetric] Let_def
    by (auto intro: global_ok_populate_left dest: global_ok_populate [unfolded ret_def] split: option.splits sum.splits if_splits)
qed

lemma load_configuration_ok:
  assumes "load_configuration E a n = Some (r, a', n')" "global_ok (ap_global a)"
  shows "global_ok (ap_global a')"
proof (cases "\<exists>content obj g. disk_file config_filename a = Some content \<and> su_parse E content = Some obj
    \<and> populate_json (su_json E) (su_setting E) 12 obj (ap_global a) = ret g")
  case False
  then show ?thesis
    using assms by (auto simp: load_configuration_def bind_eq_Some_conv ret_def global_ok_populate_left split: option.splits sum.splits)
next
  case True
  then obtain content obj g where c: "disk_file config_filename a = Some content" "su_parse E content = Some obj"
      and g: "populate_json (su_json E) (su_setting E) 12 obj (ap_global a) = ret g"
    by blast
  have ok: "global_ok g"
    by (rule global_ok_populate [OF g assms(2)])
  obtain name good a1 where own: "own_certificate E (a\<lparr>ap_global := g\<rparr>) = (name, good, a1)"
    by (metis prod.exhaust)
  obtain reload a2 n2 where mk: "make_certificate E a1 n = (reload, a2, n2)"
    by (metis prod.exhaust)
  have gl: "ap_global a1 = g" "ap_global a2 = g"
    using own_certificate_global [OF own] make_certificate_global [OF mk] by simp_all
  then have "global_ok (ap_global x)" if "load_all E name a1 = Some (q, x) \<or> load_all E name a2 = Some (q, x)" for q x
    using that ok load_all_global_ok by metis
  then show ?thesis
    using assms(1) c g own mk gl ok by (auto simp: load_configuration_def ret_def Let_def split: if_splits)
qed

lemma boot_ok: "boot E a n = Some (ok, a', n') \<Longrightarrow> global_ok (ap_global a) \<Longrightarrow> global_ok (ap_global a')"
proof (induction E a n rule: boot.induct)
  case (1 E a n)
  let ?a = "a\<lparr>ap_log := [''UniProxy starting'']\<rparr>"
  obtain r a1 n1 where l: "load_configuration E ?a n = Some (r, a1, n1)"
    using 1(2) by (subst (asm) boot.simps) (auto split: option.splits)
  have g: "global_ok (ap_global a1)"
    using load_configuration_ok [OF l] 1(3) by simp
  show ?case
  proof (cases r)
    case Reload
    then have "boot E a1 n1 = Some (ok, a', n')"
      using 1(2) l by (subst (asm) boot.simps) simp
    then show ?thesis
      using 1(1) [OF l] Reload g by simp
  next
    case (Loaded b)
    then have "boot E a n = Some (b, if b then a1 else add_log ''Failed to load configuration'' a1, n1)"
      using l by (subst boot.simps) simp
    then show ?thesis
      using g 1(2) by (auto split: if_splits)
  qed
qed

section \<open>The life of the program\<close>

text \<open>
  The program is between two turns of the outer loop, with the counter of the OpenSSL runs, in the
  web service, or at its end with an exit code.
\<close>

datatype program = Down app nat | Up web nat | Ended int app

text \<open>
  Any requests are served in any order with the signals and the timer, behind a failed load as well,
  and requests can still be served when the service has been told to stop.
\<close>

inductive program_step :: "('j, 'c) startup \<Rightarrow> ('j, 'c) web_env \<Rightarrow> program \<Rightarrow> program \<Rightarrow> bool" for S E where
  started: "boot S a n = Some (ok, a1, n1) \<Longrightarrow> global_lock bound (ap_global a1) = ret g \<Longrightarrow>
     program_step S E (Down a n) (Up (web_start (a1\<lparr>ap_global := g\<rparr>)) n1)"
| unbound: "boot S a n = Some (ok, a1, n1) \<Longrightarrow> global_lock bound (ap_global a1) = raise e \<Longrightarrow>
     program_step S E (Down a n) (Ended 1 (stopped (add_log (what e) a1)))"
| faulty: "boot S a n = Some (ok, a1, n1) \<Longrightarrow> global_lock bound (ap_global a1) = ret g \<Longrightarrow>
     program_step S E (Down a n) (Ended 1 (stopped (add_log (what e) (a1\<lparr>ap_global := g\<rparr>))))"
| served: "web_main E rq w = Some w' \<Longrightarrow> program_step S E (Up w n) (Up w' n)"
| signalled: "program_step S E (Up w n) (Up (signal_handler sighup w) n)"
| timed: "program_step S E (Up w n) (Up (timeout_handle now w) n)"
| reloaded: "wb_shutdown w \<Longrightarrow> web_finish w = (True, a) \<Longrightarrow> program_step S E (Up w n) (Down a n)"
| finished: "wb_shutdown w \<Longrightarrow> web_finish w = (False, a) \<Longrightarrow> program_step S E (Up w n) (Ended 0 (stopped a))"

text \<open>The function for the main loop makes steps of the relation only.\<close>

lemma served_all: "web_run E rqs w = Some w' \<Longrightarrow> (program_step S E)\<^sup>*\<^sup>* (Up w n) (Up w' n)"
  by (induction E rqs w rule: web_run.induct)
     (auto intro: converse_rtranclp_into_rtranclp program_step.served split: option.splits)

lemma ended_turn: "(program_step S E)\<^sup>*\<^sup>* (Up w n) (Up (web_end e w) n)"
  by (cases e) (auto intro: program_step.intros)

lemma main_loop_steps: "main_loop S E tus a n = Some (code, a') \<Longrightarrow> (program_step S E)\<^sup>*\<^sup>* (Down a n) (Ended code a')"
proof (induction S E tus a n rule: main_loop.induct)
  case (2 S E tu tus a n)
  obtain ok a1 n1 where b: "boot S a n = Some (ok, a1, n1)"
    using 2(2) by (auto split: option.splits)
  show ?case
  proof (cases "\<exists>g. global_lock (tu_bound tu) (ap_global a1) = ret g \<and> tu_fault tu = None")
    case False
    then show ?thesis
      using 2(2) b by (auto simp: ret_def raise_def intro!: r_into_rtranclp split: option.splits sum.splits
          intro: program_step.unbound [OF b, unfolded raise_def] program_step.faulty [OF b, unfolded ret_def])
  next
    case True
    then obtain g where g: "global_lock (tu_bound tu) (ap_global a1) = ret g" "tu_fault tu = None"
      by blast
    then obtain reload a2 where s: "serve E tu (a1\<lparr>ap_global := g\<rparr>) = Some (reload, a2)"
      using 2(2) b by (auto simp: ret_def split: option.splits)
    then obtain w where w: "web_run E (tu_requests tu) (web_start (a1\<lparr>ap_global := g\<rparr>)) = Some w"
        "wb_shutdown (web_end (tu_ending tu) w)" "web_finish (web_end (tu_ending tu) w) = (reload, a2)"
      by (auto simp: serve_def Let_def split: option.splits if_splits)
    have up: "(program_step S E)\<^sup>*\<^sup>* (Down a n) (Up (web_end (tu_ending tu) w) n1)"
      using program_step.started [OF b g(1)] rtranclp_trans [OF served_all [OF w(1)] ended_turn] by (rule converse_rtranclp_into_rtranclp)
    show ?thesis
    proof (cases reload)
      case True
      then have "(program_step S E)\<^sup>*\<^sup>* (Down a2 n1) (Ended code a')"
        using 2 b g s by (auto simp: ret_def)
      then show ?thesis
        using up program_step.reloaded [OF w(2), of a2 S E n1] w(3) True by (auto intro: rtranclp_trans converse_rtranclp_into_rtranclp)
    next
      case False
      then show ?thesis
        using 2(2) b g s up program_step.finished [OF w(2), of a2 S E n1] w(3) by (auto simp: ret_def intro: rtranclp.rtrancl_into_rtrancl)
    qed
  qed
qed simp

text \<open>The invariant: between the turns and at the end nothing runs, and in between the state is well formed.\<close>

abbreviation idle_global :: "proxy_global \<Rightarrow> bool" where
  "idle_global g \<equiv> localclients g = [] \<and> remotehosts g = []"

fun program_ok :: "program \<Rightarrow> bool" where
  "program_ok (Down a n) \<longleftrightarrow> idle_global (ap_global a)"
| "program_ok (Up w n) \<longleftrightarrow> global_ok (ap_global (wb_app w))"
| "program_ok (Ended code a) \<longleftrightarrow> code \<in> {0, 1} \<and> idle_global (ap_global a)"

lemma idle_ok: "idle_global g \<Longrightarrow> global_ok g"
  by (simp add: global_ok_def listener_ports_def)

lemma program_step_ok: "program_step S E p p' \<Longrightarrow> program_ok p \<Longrightarrow> program_ok p'"
proof (induction rule: program_step.induct)
  case (started a n ok a1 n1 bound g)
  then show ?case
    using boot_ok [OF started(1)] global_ok_lock [OF started(2)] idle_ok by (simp add: web_start_def)
next
  case (served rq w w' n)
  then show ?case
    using web_main_ok by simp
next
  case (timed w n now)
  then show ?case
    by (simp add: timeout_handle_def split: option.split)
qed (auto simp: stopped_idle signal_handler_def web_finish_def stopall_def)

interpretation life: kept_invariant "program_step S E" program_ok for S :: "('j, 'c) startup" and E
  by unfold_locales (rule program_step_ok)

section \<open>Properties\<close>

text \<open>
  C12: the state of the program is well formed at every moment of its life. However it was started and
  whatever failed, whatever is requested, uploaded, rejected half way, timed out or signalled, in any
  order and over any number of reloads: while the web service runs, the listeners of the clients
  have distinct ports, the identifiers by which the commands select clients and hosts are unique, and
  every host has a local end point and a TLS context for version 1.2; between two turns of the outer
  loop, and when the program ends, no client and no host is left, and the exit code is 0 or 1.
\<close>

theorem state_stays_well_formed:
  assumes "idle_global (ap_global a)" and "(program_step S E)\<^sup>*\<^sup>* (Down a 0) p"
  shows "case p of Down b n \<Rightarrow> idle_global (ap_global b) | Up w n \<Rightarrow> global_ok (ap_global (wb_app w))
    | Ended code b \<Rightarrow> code \<in> {0, 1} \<and> idle_global (ap_global b)"
  using life.reach_keeps [OF assms(2)] assms(1) by (cases p) simp_all

section \<open>Instances\<close>

definition reload_request :: request where
  "reload_request = \<lparr>rq_url = ''/command/config/reload/'', rq_time = 5, rq_upload = NoPost\<rparr>"

lemma reload_main: "web_main sample_web reload_request w = Some (w\<lparr>wb_timer := Some 1005\<rparr>)"
proof -
  have "dispatch_url plain_matcher ''/command/config/reload/'' = Some (Config_reload, [])"
    by code_simp
  then show ?thesis
    by (simp add: web_main_def reload_request_def check_remove_substr_def substr_def sample_web_def web_handle_def)
qed

text \<open>A start, a command, and a reload when the timer has run down.\<close>

theorem state_stays_well_formed_witness:
  "\<exists>w b. (program_step sample_startup sample_web)\<^sup>*\<^sup>* (Down ready_app 0) (Up w 0) \<and> global_ok (ap_global (wb_app w))
     \<and> (program_step sample_startup sample_web)\<^sup>*\<^sup>* (Up w 0) (Down b 0) \<and> idle_global (ap_global b)"
proof -
  let ?step = "program_step sample_startup sample_web"
  obtain a1 where a1: "boot sample_startup ready_app 0 = Some (True, a1, 0)"
    using ready_boots by blast
  obtain g where g: "global_lock (\<lambda>_. None) (ap_global a1) = ret g"
    using start_hosts_unbound [of "remotehosts (ap_global a1)"] by (auto simp: global_lock_def after_eq_ret)
  define w where "w = web_start (a1\<lparr>ap_global := g\<rparr>)"
  define w1 where "w1 = w\<lparr>wb_app := app_host_activate sample_setting ''b'' (wb_app w)\<rparr>"
  define w2 where "w2 = timeout_handle 2000 (w1\<lparr>wb_timer := Some 1005\<rparr>)"
  have up: "?step\<^sup>*\<^sup>* (Down ready_app 0) (Up w1 0)"
    using program_step.started [OF a1 g, of sample_web] program_step.served [OF sample_main, of sample_startup w 0]
    unfolding w_def w1_def by (blast intro: converse_rtranclp_into_rtranclp)
  obtain b where b: "web_finish w2 = (True, b)" "wb_shutdown w2"
    by (simp add: w2_def timeout_handle_def web_finish_def)
  have "?step (Up w1 0) (Up (w1\<lparr>wb_timer := Some 1005\<rparr>) 0)" "?step (Up (w1\<lparr>wb_timer := Some 1005\<rparr>) 0) (Up w2 0)" "?step (Up w2 0) (Down b 0)"
    unfolding w2_def by (rule program_step.served [OF reload_main], rule program_step.timed, rule program_step.reloaded [OF b(2,1), unfolded w2_def])
  then have down: "?step\<^sup>*\<^sup>* (Up w1 0) (Down b 0)"
    by (blast intro: converse_rtranclp_into_rtranclp)
  have "idle_global (ap_global ready_app)"
    by (simp add: ready_app_def fresh_app_def sample_global_def)
  from state_stays_well_formed [OF this up] state_stays_well_formed [OF this rtranclp_trans [OF up down]] up down show ?thesis
    by auto
qed

end
