(* ===== verification/Tunnel.thy ===== *)
theory Tunnel
  imports LocalHost RemoteHost
begin

text \<open>
  The two ends of a tunnel together: the session of a client, \<^verbatim>\<open>localclient.cpp\<close>, on one site and a
  connection of a host, \<^verbatim>\<open>remoteclient.cpp\<close>, on the other.
\<close>

section \<open>Properties\<close>


section \<open>Instances\<close>

definition whole_pass :: "string \<Rightarrow> iteration" where
  "whole_pass data = \<lparr>it_stop = False, it_read = Some data, it_write = (\<lambda>b. Inr (length b)), it_steady = 0\<rparr>"

definition tunnel_events :: "(surroundings \<times> async_op \<times> result) list" where
  "tunnel_events = [(calm, Handshake, Completed), (calm, LocalRead Raw first_socket, Received ''ABC''), (calm, RemoteWrite 1 3, Completed),
     (calm, RemoteRead, Received ''xy''), (calm, LocalWrite 0 2, Completed)]"

lemma whole_pass_relayed: "data \<noteq> [] \<Longrightarrow> relayed [whole_pass data] = data"
  by (simp add: relayed_def busy_def whole_pass_def)


end
