(* ===== verification/SocketUtil.thy ===== *)
theory SocketUtil
  imports Certificates
begin

text \<open>
  The socket helpers of \<^verbatim>\<open>src/src/applutil.cpp\<close> and \<^verbatim>\<open>src/src/applutil.h\<close>: connecting to the first address
  that answers, the keep-alive options, the read with a timeout that receives a certificate, and the
  TLS context of \<^verbatim>\<open>src/src/proxy_global.cpp\<close>. The resolver, the sockets and OpenSSL are parameters.
\<close>

section \<open>Connecting\<close>

text \<open>A socket that is open or not, with the address it is connected to.\<close>

record tcp_socket =
  so_open :: bool
  so_peer :: "string option"

definition socket_close :: "tcp_socket \<Rightarrow> tcp_socket" where
  "socket_close sk = sk\<lparr>so_open := False, so_peer := None\<rparr>"

text \<open>\<^verbatim>\<open>connect(ep, error)\<close> opens the socket; the argument gives the error of an address.\<close>

definition try_connect :: "(string \<Rightarrow> string option) \<Rightarrow> string \<Rightarrow> tcp_socket \<Rightarrow> string option \<times> tcp_socket" where
  "try_connect dial ep sk =
     (case dial ep of
        None \<Rightarrow> (None, sk\<lparr>so_open := True, so_peer := Some ep\<rparr>)
      | Some e \<Rightarrow> (Some e, sk\<lparr>so_open := True, so_peer := None\<rparr>))"

abbreviation host_not_found :: string where "host_not_found \<equiv> ''Host not found (authoritative)''"

fun connect_loop :: "(string \<Rightarrow> string option) \<Rightarrow> string option \<Rightarrow> string list \<Rightarrow> tcp_socket \<Rightarrow> string option \<times> tcp_socket" where
  "connect_loop dial error [] sk = (error, sk)"
| "connect_loop dial error (ep # eps) sk =
     (if error = None then (error, sk)
      else case try_connect dial ep (socket_close sk) of (error, sk) \<Rightarrow> connect_loop dial error eps sk)"

definition socket_connect :: "(string \<Rightarrow> exn + string list) \<Rightarrow> (string \<Rightarrow> string option) \<Rightarrow> string \<Rightarrow> tcp_socket \<Rightarrow> (exn + unit) \<times> tcp_socket" where
  "socket_connect resolve dial query sk =
     (case resolve query of
        Inl e \<Rightarrow> (Inl e, sk)
      | Inr eps \<Rightarrow>
          (case connect_loop dial (Some host_not_found) eps sk of
             (Some e, sk) \<Rightarrow> (Inl (asio_error e), sk)
           | (None, sk) \<Rightarrow> (Inr (), sk)))"

definition is_connected :: "tcp_socket \<Rightarrow> bool" where
  "is_connected sk = (if so_open sk then so_peer sk \<noteq> None else False)"

lemma connect_loop_reaches:
  assumes "error \<noteq> None"
  shows "connect_loop dial error eps sk =
    (case find (\<lambda>ep. dial ep = None) eps of
       Some ep \<Rightarrow> (None, \<lparr>so_open = True, so_peer = Some ep, \<dots> = tcp_socket.more sk\<rparr>)
     | None \<Rightarrow> if eps = [] then (error, sk) else (dial (last eps), \<lparr>so_open = True, so_peer = None, \<dots> = tcp_socket.more sk\<rparr>))"
  using assms
proof (induction eps arbitrary: error sk)
  case (Cons ep eps)
  show ?case
  proof (cases "dial ep")
    case None
    then show ?thesis
      using Cons.prems by (cases eps; cases sk) (auto simp: try_connect_def socket_close_def)
  next
    case (Some e)
    then show ?thesis
      using Cons.prems Cons.IH [of "Some e"] by (cases sk) (auto simp: try_connect_def socket_close_def split: option.splits)
  qed
qed simp

section \<open>Keep alive\<close>

text \<open>The calls of \<^verbatim>\<open>setsockopt\<close> on Linux, in order; the value is written as 32 bits.\<close>

datatype sock_opt = TCP_KEEPIDLE | TCP_KEEPCNT | TCP_KEEPINTVL | SO_KEEPALIVE

definition socket_set_keepalive_to :: "int \<Rightarrow> (sock_opt \<times> 32 word) list" where
  "socket_set_keepalive_to timeout =
     (if 0 < timeout
      then [(TCP_KEEPIDLE, of_int timeout), (TCP_KEEPCNT, 3), (TCP_KEEPINTVL, 10), (SO_KEEPALIVE, 1)]
      else [(SO_KEEPALIVE, 0)])"

section \<open>A read with a timeout\<close>

text \<open>
  What the service can complete first: bytes have come, the peer has closed, the time is up. \<^verbatim>\<open>async_read\<close>
  is composed of reads of what has come, and \<^verbatim>\<open>run_one\<close> runs one handler: a first part that does not fill
  the buffer completes neither the read nor the timer, and the function returns with that part.
\<close>

datatype io_event = Arrived string | Closed | Expired

datatype cancelled = Timer_cancelled | Read_cancelled | None_cancelled

definition read_with_timeout :: "nat \<Rightarrow> io_event list \<Rightarrow> string \<times> cancelled" where
  "read_with_timeout buffer_size events =
     (case events of
        [] \<Rightarrow> ([], None_cancelled)
      | Arrived s # _ \<Rightarrow>
          (take buffer_size s, if buffer_size \<le> length s then Timer_cancelled else None_cancelled)
      | Closed # _ \<Rightarrow> ([], Timer_cancelled)
      | Expired # _ \<Rightarrow> ([], Read_cancelled))"

text \<open>\<^verbatim>\<open>SetupCertificatesServer\<close> with the socket it reads from.\<close>

definition receive_certificate :: "'c x509 \<Rightarrow> string \<Rightarrow> io_event list \<Rightarrow> string list \<Rightarrow> cert_state \<Rightarrow> (string \<times> cert_state) option" where
  "receive_certificate X tmpname events certnames st =
     SetupCertificatesServer X tmpname (fst (read_with_timeout 4000 events)) certnames st"

section \<open>The TLS context\<close>

datatype protocol = SSLv2 | SSLv3 | TLSv1 | TLSv1_1 | TLSv1_2 | TLSv1_3

text \<open>The versions in their order.\<close>

fun protocol_rank :: "protocol \<Rightarrow> nat" where
  "protocol_rank SSLv2 = 0"
| "protocol_rank SSLv3 = 1"
| "protocol_rank TLSv1 = 2"
| "protocol_rank TLSv1_1 = 3"
| "protocol_rank TLSv1_2 = 4"
| "protocol_rank TLSv1_3 = 5"

instantiation protocol :: linorder
begin

definition less_eq_protocol :: "protocol \<Rightarrow> protocol \<Rightarrow> bool" where
  "p \<le> q \<longleftrightarrow> protocol_rank p \<le> protocol_rank q"

definition less_protocol :: "protocol \<Rightarrow> protocol \<Rightarrow> bool" where
  "p < q \<longleftrightarrow> protocol_rank p < protocol_rank q"

instance
proof
  show "p = q" if "p \<le> q" "q \<le> p" for p q :: protocol
    using that by (cases p; cases q) (simp_all add: less_eq_protocol_def)
qed (auto simp: less_eq_protocol_def less_protocol_def)

end

datatype ssl_option = No protocol | Default_workarounds | Single_dh_use

record ssl_context =
  sc_options :: "ssl_option list"
  sc_password :: string
  sc_verify_peer :: bool
  sc_trusted :: "string option"
  sc_chain :: "string option"
  sc_key :: "string option"

definition get_password :: string where "get_password = ''1234''"

definition context_options :: "int \<Rightarrow> ssl_option list" where
  "context_options min_tls_protocol =
     (if min_tls_protocol = 12
      then [Default_workarounds, No SSLv2, No SSLv3, No TLSv1, No TLSv1_1, Single_dh_use]
      else [Default_workarounds, No SSLv2, No SSLv3, No TLSv1, No TLSv1_1, No TLSv1_2, Single_dh_use])"

text \<open>A file that is missing or empty is not loaded; one that is no list of certificates raises.\<close>

definition load_verify_file :: "(string \<Rightarrow> exn option) \<Rightarrow> disk \<Rightarrow> string \<Rightarrow> ssl_context \<Rightarrow> ssl_context outcome" where
  "load_verify_file rejects d name ctx =
     (case files d name of
        None \<Rightarrow> ret ctx
      | Some s \<Rightarrow> if length s = 0 then ret ctx else case rejects s of Some e \<Rightarrow> raise e | None \<Rightarrow> ret (ctx\<lparr>sc_trusted := Some s\<rparr>))"

definition use_file :: "(string \<Rightarrow> exn option) \<Rightarrow> disk \<Rightarrow> string \<Rightarrow> string outcome" where
  "use_file rejects d name =
     (case files d name of
        None \<Rightarrow> raise (asio_error ''No such file or directory'')
      | Some s \<Rightarrow> case rejects s of Some e \<Rightarrow> raise e | None \<Rightarrow> ret s)"

definition set_ssl_context :: "(string \<Rightarrow> exn option) \<Rightarrow> int \<Rightarrow> disk \<Rightarrow> ssl_context \<Rightarrow> ssl_context outcome" where
  "set_ssl_context rejects min_tls_protocol d ctx =
     (let ctx = ctx\<lparr>sc_options := sc_options ctx @ context_options min_tls_protocol, sc_password := get_password, sc_verify_peer := True\<rparr> in
      after (load_verify_file rejects d my_certs_name ctx) (\<lambda>ctx.
      after (use_file rejects d my_public_cert_name) (\<lambda>chain.
      after (use_file rejects d my_private_key_name) (\<lambda>key.
      ret (ctx\<lparr>sc_chain := Some chain, sc_key := Some key\<rparr>)))))"

text \<open>
  A handshake with the context: the version is not switched off, and every certificate of the chain
  passes the verify callback, of which there is at least one. The callback reads the setting for short
  keys at the time of the handshake. \<open>chain\<close> gives for each certificate whether OpenSSL trusts it and
  whether a short key is the reason that it does not.
\<close>

definition handshake_accepts :: "bool \<Rightarrow> ssl_context \<Rightarrow> protocol \<Rightarrow> (bool \<times> bool) list \<Rightarrow> bool" where
  "handshake_accepts accept_short_certs ctx version chain \<longleftrightarrow>
     No version \<notin> set (sc_options ctx)
     \<and> (sc_verify_peer ctx \<longrightarrow> chain \<noteq> [] \<and> list_all (\<lambda>(trusted, too_small). verify_callback accept_short_certs trusted too_small) chain)"

lemma set_ssl_context_simps:
  assumes "set_ssl_context rejects min_tls_protocol d ctx = ret ctx'"
  shows "sc_options ctx' = sc_options ctx @ context_options min_tls_protocol" "sc_verify_peer ctx'"
    "sc_chain ctx' = files d my_public_cert_name" "sc_key ctx' = files d my_private_key_name"
  using assms
  by (auto simp: set_ssl_context_def load_verify_file_def use_file_def after_eq_ret Let_def split: option.splits if_splits)

lemma context_options_version:
  "No version \<notin> set (context_options min_tls_protocol) \<longleftrightarrow> (if min_tls_protocol = 12 then TLSv1_2 else TLSv1_3) \<le> version"
  by (cases version) (simp_all add: context_options_def less_eq_protocol_def)

lemma verify_callback_iff: "verify_callback accept_short trusted too_small \<longleftrightarrow> trusted \<or> too_small \<and> accept_short"
  by (simp add: verify_callback_def)

text \<open>A context that was new accepts exactly the versions from the configured one on.\<close>

lemma new_context_accepts:
  assumes "set_ssl_context rejects min_tls_protocol d ctx = ret ctx'" "sc_options ctx = []"
  shows "handshake_accepts accept_short ctx' version chain \<longleftrightarrow> (if min_tls_protocol = 12 then TLSv1_2 else TLSv1_3) \<le> version
    \<and> chain \<noteq> [] \<and> list_all (\<lambda>(trusted, too_small). trusted \<or> too_small \<and> accept_short) chain"
  using set_ssl_context_simps [OF assms(1)] assms(2)
  by (simp only: handshake_accepts_def verify_callback_iff context_options_version append.simps simp_thms)

section \<open>Properties\<close>

text \<open>
  C33: connecting tries the addresses of a host in order until one answers. When an address can be
  reached, the socket ends up connected to the first such one and no exception is raised; when the
  host has none or none can be reached, the exception of the last attempt is raised and the socket is
  not connected.
\<close>

theorem connects_to_first_reachable:
  assumes "resolve query = Inr eps" and "\<not> is_connected sk"
  shows "case find (\<lambda>ep. dial ep = None) eps of
      Some ep \<Rightarrow> fst (socket_connect resolve dial query sk) = Inr () \<and> is_connected (snd (socket_connect resolve dial query sk))
                 \<and> so_peer (snd (socket_connect resolve dial query sk)) = Some ep
    | None \<Rightarrow> fst (socket_connect resolve dial query sk) = Inl (asio_error (if eps = [] then host_not_found else the (dial (last eps))))
              \<and> \<not> is_connected (snd (socket_connect resolve dial query sk))"
proof (cases "find (\<lambda>ep. dial ep = None) eps")
  case None
  then have "eps \<noteq> [] \<Longrightarrow> \<exists>e. dial (last eps) = Some e"
    by (auto simp: find_None_iff)
  then show ?thesis
    using assms None connect_loop_reaches [of "Some host_not_found" dial eps sk]
    by (auto simp: socket_connect_def is_connected_def)
next
  case (Some ep)
  then show ?thesis
    using assms connect_loop_reaches [of "Some host_not_found" dial eps sk]
    by (simp add: socket_connect_def is_connected_def)
qed


text \<open>
  A certificate that comes in two parts is not received: whatever follows the first part stays unread,
  and neither operation of the service is cancelled.
\<close>

theorem second_part_unread:
  assumes "length s < 4000"
  shows "receive_certificate X tmp (Arrived s # events) certnames st = SetupCertificatesServer X tmp s certnames st
    \<and> snd (read_with_timeout 4000 (Arrived s # events)) = None_cancelled"
  using assms by (simp add: receive_certificate_def read_with_timeout_def)

section \<open>Instances\<close>

theorem connects_to_first_reachable_witness:
  "let dial = (\<lambda>ep. if ep = ''10.0.0.1:80'' then Some ''Connection refused'' else None);
       r = socket_connect (\<lambda>_. Inr [''10.0.0.1:80'', ''10.0.0.2:80'', ''10.0.0.3:80'']) dial ''host'' \<lparr>so_open = False, so_peer = None\<rparr>
   in fst r = Inr () \<and> so_peer (snd r) = Some ''10.0.0.2:80''"
proof -
  let ?dial = "\<lambda>ep. if ep = ''10.0.0.1:80'' then Some ''Connection refused'' else None"
  let ?eps = "[''10.0.0.1:80'', ''10.0.0.2:80'', ''10.0.0.3:80'']"
  have "\<not> is_connected \<lparr>so_open = False, so_peer = None\<rparr>"
    by (simp add: is_connected_def)
  from connects_to_first_reachable [of "\<lambda>_. Inr ?eps" "''host''" ?eps, OF refl this, of ?dial] show ?thesis
    by (simp add: Let_def)
qed

definition bare_context :: ssl_context where
  "bare_context = \<lparr>sc_options = [], sc_password = [], sc_verify_peer = False, sc_trusted = None, sc_chain = None, sc_key = None\<rparr>"


end
