(* ===== verification/ProcessUtil.thy ===== *)
theory ProcessUtil
  imports StrUtil
begin

text \<open>
  Running a command: \<^verbatim>\<open>process::execute_process\<close> of \<^verbatim>\<open>src/src/applutil.cpp\<close> and the call of OpenSSL in
  \<^verbatim>\<open>src/src/proxy_global.cpp\<close>. The command and the proxy run side by side and share two pipes of bounded
  size, so the model is a step relation over their interleavings. The proxy reads all of the standard
  output before the errors, and each only up to an empty line.
\<close>

section \<open>The command line\<close>

definition process_command :: "string \<Rightarrow> string \<Rightarrow> string" where
  "process_command command param = ''/bin/bash'' @ '' -c '' @ [CHR 0x22] @ command @ '' '' @ param @ [CHR 0x22]"

definition openssl_param :: "string \<Rightarrow> string" where
  "openssl_param name = '' req '' @ ''-x509 -nodes -days 100000 -subj /C=DK/ST=Denmark/L=GateHouse/CN='' @ name
     @ '' -newkey rsa:3072 -keyout my_private_key.pem -out my_public_cert.pem ''"

section \<open>The pipes\<close>

datatype chan = Out | Err

datatype phase = Reading chan | Waiting | Exited int

text \<open>
  The bytes the command has still to write, the bytes in the pipes, what the proxy does, the part of a
  line \<^verbatim>\<open>std::getline\<close> has read, and the lines handed to the callbacks.
\<close>

record proc =
  pr_child :: "(chan \<times> char) list"
  pr_pipe :: "chan \<Rightarrow> string"
  pr_phase :: phase
  pr_line :: string
  pr_got :: "chan \<Rightarrow> string list"

definition proc_start :: "(chan \<times> char) list \<Rightarrow> proc" where
  "proc_start script = \<lparr>pr_child = script, pr_pipe = (\<lambda>_. []), pr_phase = Reading Out, pr_line = [], pr_got = (\<lambda>_. [])\<rparr>"

abbreviation newline :: char where "newline \<equiv> CHR 0x0A"

fun next_phase :: "chan \<Rightarrow> phase" where
  "next_phase Out = Reading Err"
| "next_phase Err = Waiting"

definition got_line :: "chan \<Rightarrow> proc \<Rightarrow> proc" where
  "got_line ch st = st\<lparr>pr_got := (pr_got st)(ch := pr_got st ch @ [pr_line st]), pr_line := []\<rparr>"

text \<open>One character of \<^verbatim>\<open>getline\<close>, with the test \<^verbatim>\<open>!line.empty()\<close> at the end of a line.\<close>

definition take_char :: "chan \<Rightarrow> char \<Rightarrow> proc \<Rightarrow> proc" where
  "take_char ch c st =
     (if c \<noteq> newline then st\<lparr>pr_line := pr_line st @ [c]\<rparr>
      else if pr_line st = [] then st\<lparr>pr_phase := next_phase ch\<rparr>
      else got_line ch st)"

text \<open>The end of the stream: a line without its newline is a line, and the next call fails.\<close>

definition take_end :: "chan \<Rightarrow> proc \<Rightarrow> proc" where
  "take_end ch st = (if pr_line st = [] then st else got_line ch st)\<lparr>pr_phase := next_phase ch\<rparr>"

text \<open>
  The steps for a pipe of \<open>cap\<close> bytes and a command with the exit code \<open>code\<close>: a write waits for room, a
  read for a byte or the end of the command, and \<^verbatim>\<open>c.wait()\<close> for the end of the command.
\<close>

inductive proc_step :: "nat \<Rightarrow> int \<Rightarrow> proc \<Rightarrow> proc \<Rightarrow> bool" for cap code where
  writes: "pr_child st = (ch, c) # rest \<Longrightarrow> length (pr_pipe st ch) < cap \<Longrightarrow>
     proc_step cap code st (st\<lparr>pr_child := rest, pr_pipe := (pr_pipe st)(ch := pr_pipe st ch @ [c])\<rparr>)"
| reads: "pr_phase st = Reading ch \<Longrightarrow> pr_pipe st ch = c # rest \<Longrightarrow>
     proc_step cap code st (take_char ch c (st\<lparr>pr_pipe := (pr_pipe st)(ch := rest)\<rparr>))"
| ends: "pr_phase st = Reading ch \<Longrightarrow> pr_pipe st ch = [] \<Longrightarrow> pr_child st = [] \<Longrightarrow> proc_step cap code st (take_end ch st)"
| waits: "pr_phase st = Waiting \<Longrightarrow> pr_child st = [] \<Longrightarrow> proc_step cap code st (st\<lparr>pr_phase := Exited code\<rparr>)"

text \<open>\<^verbatim>\<open>execute_openssl\<close> is true when the exit code is zero.\<close>

definition execute_openssl :: "proc \<Rightarrow> bool" where
  "execute_openssl st = (pr_phase st = Exited 0)"

text \<open>What a command writes to one of its streams, and what the proxy makes of it.\<close>

definition bytes_of :: "chan \<Rightarrow> (chan \<times> char) list \<Rightarrow> string" where
  "bytes_of ch script = map snd (filter (\<lambda>x. fst x = ch) script)"

definition lines_read :: "string \<Rightarrow> string list" where
  "lines_read s = takeWhile (\<lambda>l. l \<noteq> []) (split s newline)"

section \<open>Every run ends\<close>

fun phase_rank :: "phase \<Rightarrow> nat" where
  "phase_rank (Reading Out) = 3"
| "phase_rank (Reading Err) = 2"
| "phase_rank Waiting = 1"
| "phase_rank (Exited code) = 0"

definition work_left :: "proc \<Rightarrow> nat" where
  "work_left st = 2 * length (pr_child st) + length (pr_pipe st Out) + length (pr_pipe st Err) + phase_rank (pr_phase st)"

lemma proc_step_work: "proc_step cap code st st' \<Longrightarrow> work_left st' < work_left st"
proof (induction rule: proc_step.induct)
  case (writes st ch c rest)
  then show ?case
    by (cases ch) (simp_all add: work_left_def)
next
  case (reads st ch c rest)
  then show ?case
    by (cases ch) (simp_all add: work_left_def take_char_def got_line_def)
next
  case (ends st ch)
  then show ?case
    by (cases ch) (simp_all add: work_left_def take_end_def got_line_def)
next
  case (waits st)
  then show ?case
    by (simp add: work_left_def)
qed

lemma proc_run_length: "(proc_step cap code ^^ n) st st' \<Longrightarrow> n + work_left st' \<le> work_left st"
proof (induction n arbitrary: st')
  case (Suc n)
  then obtain st1 where "(proc_step cap code ^^ n) st st1" "proc_step cap code st1 st'"
    by auto
  then show ?case
    using Suc.IH proc_step_work [of cap code st1 st'] by fastforce
qed simp

section \<open>What the callbacks get\<close>

text \<open>A stream of which some lines, a part of a line and no empty line have been read.\<close>

definition reading :: "string \<Rightarrow> string list \<Rightarrow> string \<Rightarrow> string \<Rightarrow> bool" where
  "reading whole lines line rest \<longleftrightarrow>
     whole = concat (map (\<lambda>l. l @ [newline]) lines) @ line @ rest \<and> newline \<notin> set line \<and> list_all (\<lambda>l. l \<noteq> [] \<and> newline \<notin> set l) lines"

lemma split_lines: "list_all (\<lambda>l. newline \<notin> set l) ls \<Longrightarrow> split (concat (map (\<lambda>l. l @ [newline]) ls) @ rest) newline = ls @ split rest newline"
  by (induction ls) (simp_all add: split_item)

lemma split_none: "split [] d = []"
  by (subst split.simps) simp

lemma reading_split: "reading whole lines line rest \<Longrightarrow> split whole newline = lines @ split (line @ rest) newline \<and> list_all (\<lambda>l. l \<noteq> []) lines"
  using split_lines [of lines "line @ rest"] by (auto simp: reading_def list_all_iff)

lemma reading_start [simp]: "reading s [] [] s"
  by (simp add: reading_def)

lemma reading_char: "reading whole lines line (c # rest) \<Longrightarrow> c \<noteq> newline \<Longrightarrow> reading whole lines (line @ [c]) rest"
  by (simp add: reading_def)

lemma reading_line: "reading whole lines line (newline # rest) \<Longrightarrow> line \<noteq> [] \<Longrightarrow> reading whole (lines @ [line]) [] rest"
  by (simp add: reading_def)

lemma reading_stops:
  assumes "reading whole lines [] (newline # rest)"
  shows "lines = lines_read whole \<and> [] \<in> set (split whole newline) \<and> length rest \<le> length whole"
proof -
  have "split whole newline = lines @ [] # split rest newline" "list_all (\<lambda>l. l \<noteq> []) lines"
    using reading_split [OF assms] split_item [of newline "[]" rest] by simp_all
  then show ?thesis
    using assms by (auto simp: lines_read_def takeWhile_append list_all_iff reading_def)
qed

lemma reading_ends:
  assumes "reading whole lines line []"
  shows "lines_read whole = lines @ (if line = [] then [] else [line])"
proof -
  have "split line newline = (if line = [] then [] else [line])"
    using assms split_last [of newline line] by (auto simp: reading_def split_none)
  then show ?thesis
    using reading_split [OF assms] by (auto simp: lines_read_def list_all_iff)
qed

section \<open>The invariant\<close>

definition unread :: "chan \<Rightarrow> proc \<Rightarrow> string" where
  "unread ch st = pr_pipe st ch @ bytes_of ch (pr_child st)"

text \<open>
  In each phase: what the streams that are read have given, and that no more is left in a pipe and to
  be written than was there at first. Without an empty line the command has ended behind its output.
\<close>

fun proc_inv :: "string \<Rightarrow> string \<Rightarrow> proc \<Rightarrow> phase \<Rightarrow> bool" where
  "proc_inv all_out all_err st (Reading Out) \<longleftrightarrow>
     reading all_out (pr_got st Out) (pr_line st) (unread Out st) \<and> pr_got st Err = [] \<and> unread Err st = all_err"
| "proc_inv all_out all_err st (Reading Err) \<longleftrightarrow>
     pr_got st Out = lines_read all_out \<and> reading all_err (pr_got st Err) (pr_line st) (unread Err st)
     \<and> length (unread Out st) \<le> length all_out \<and> ([] \<in> set (split all_out newline) \<or> pr_child st = [])"
| "proc_inv all_out all_err st _ \<longleftrightarrow>
     pr_got st Out = lines_read all_out \<and> pr_got st Err = lines_read all_err
     \<and> length (unread Out st) \<le> length all_out \<and> length (unread Err st) \<le> length all_err
     \<and> ([] \<in> set (split all_out newline) \<or> pr_child st = [])"

lemma reading_short: "reading whole lines line rest \<Longrightarrow> length rest \<le> length whole"
  by (simp add: reading_def)

lemma bytes_of_simps [simp]:
  "bytes_of ch [] = []" "bytes_of ch ((ch', c) # s) = (if ch' = ch then c # bytes_of ch s else bytes_of ch s)"
  by (simp_all add: bytes_of_def)

lemma writes_unread:
  "pr_child st = (ch, c) # rest \<Longrightarrow> unread ch' (st\<lparr>pr_child := rest, pr_pipe := (pr_pipe st)(ch := pr_pipe st ch @ [c])\<rparr>) = unread ch' st"
  by (simp add: unread_def)

lemma got_line_simps [simp]:
  "pr_phase (got_line ch st) = pr_phase st" "pr_pipe (got_line ch st) = pr_pipe st" "pr_child (got_line ch st) = pr_child st" "unread ch' (got_line ch st) = unread ch' st"
  "pr_line (got_line ch st) = []" "pr_got (got_line ch st) = (pr_got st)(ch := pr_got st ch @ [pr_line st])"
  by (simp_all add: got_line_def unread_def)

lemma phase_simps [simp]: "unread ch (st\<lparr>pr_phase := ph\<rparr>) = unread ch st" "unread ch (st\<lparr>pr_line := l\<rparr>) = unread ch st"
  by (simp_all add: unread_def)

lemma proc_inv_phase [simp]: "proc_inv o1 e1 (st\<lparr>pr_phase := ph\<rparr>) ph' = proc_inv o1 e1 st ph'"
  by (cases "(o1, e1, st, ph')" rule: proc_inv.cases) simp_all

lemma proc_step_inv: "proc_step cap code st st' \<Longrightarrow> proc_inv o1 e1 st (pr_phase st) \<Longrightarrow> proc_inv o1 e1 st' (pr_phase st')"
proof (induction rule: proc_step.induct)
  case (writes st ch c rest)
  show ?case
    using writes(3) writes_unread [OF writes(1)] writes(1)
    by (cases "(o1, e1, st, pr_phase st)" rule: proc_inv.cases) auto
next
  case (reads st ch c rest)
  define s1 where "s1 = st\<lparr>pr_pipe := (pr_pipe st)(ch := rest)\<rparr>"
  have u: "unread ch st = c # unread ch s1" "ch' \<noteq> ch \<Longrightarrow> unread ch' st = unread ch' s1" for ch'
    using reads(2) by (simp_all add: s1_def unread_def)
  have s: "pr_phase s1 = Reading ch" "pr_line s1 = pr_line st" "pr_got s1 = pr_got st" "pr_child s1 = pr_child st"
    using reads(1) by (simp_all add: s1_def)
  have "proc_inv o1 e1 (take_char ch c s1) (pr_phase (take_char ch c s1))"
  proof (cases ch)
    case Out
    then show ?thesis
      using reads(1,3) u s
      by (auto simp: take_char_def reading_char reading_line dest!: reading_stops split: if_splits)
  next
    case Err
    then show ?thesis
      using reads(1,3) u s
      by (auto simp: take_char_def reading_char reading_line dest!: reading_stops split: if_splits)
  qed
  then show ?case
    by (simp add: s1_def)
next
  case (ends st ch)
  then show ?case
    by (cases ch) (auto simp: take_end_def unread_def reading_ends dest: reading_short)
next
  case (waits st)
  then show ?case
    by simp
qed

interpretation process: kept_invariant "proc_step cap code" "\<lambda>st. proc_inv o1 e1 st (pr_phase st)" for cap code o1 e1
  by unfold_locales (rule proc_step_inv)

lemma proc_run_inv:
  "(proc_step cap code ^^ n) (proc_start script) st \<Longrightarrow> proc_inv (bytes_of Out script) (bytes_of Err script) st (pr_phase st)"
  by (erule process.run_keeps) (simp add: proc_start_def unread_def)

text \<open>The only exit code is that of the command.\<close>

lemma proc_step_exit: "proc_step cap code st st' \<Longrightarrow> pr_phase st \<noteq> Exited e \<Longrightarrow> e \<noteq> code \<Longrightarrow> pr_phase st' \<noteq> Exited e"
proof (induction rule: proc_step.induct)
  case (reads st ch c rest)
  then show ?case
    by (cases ch) (simp_all add: take_char_def)
next
  case (ends st ch)
  then show ?case
    by (cases ch) (simp_all add: take_end_def)
qed simp_all

interpretation process_exit: kept_invariant "proc_step cap code" "\<lambda>st. e \<noteq> code \<longrightarrow> pr_phase st \<noteq> Exited e" for cap code e
  by unfold_locales (blast dest: proc_step_exit)

lemma proc_run_exit: "(proc_step cap code ^^ n) (proc_start script) st \<Longrightarrow> pr_phase st = Exited e \<Longrightarrow> e = code"
  using process_exit.run_keeps [of n cap code "proc_start script" st e] by (auto simp: proc_start_def)

section \<open>Who waits for whom\<close>

lemma proc_inv_unread:
  "proc_inv o1 e1 st ph \<Longrightarrow> length (unread Out st) \<le> length o1 \<and> length (unread Err st) \<le> length e1"
  by (cases "(o1, e1, st, ph)" rule: proc_inv.cases) (auto dest: reading_short)

lemma writer_has_room:
  assumes "pr_child st = (ch, c) # rest" "length (unread ch st) \<le> cap"
  shows "length (pr_pipe st ch) < cap"
  using assms by (simp add: unread_def)

text \<open>
  A state can go on when the errors fit into the pipe, and the output fits or has no empty line.
\<close>

lemma proc_progress:
  assumes "0 < cap" "length e1 \<le> cap" "length o1 \<le> cap \<or> [] \<notin> set (split o1 newline)"
    and inv: "proc_inv o1 e1 st (pr_phase st)" and "\<nexists>st'. proc_step cap code st st'"
  shows "\<exists>e. pr_phase st = Exited e"
proof -
  note steps = assms(5) [simplified]
  have reading: "pr_pipe st ch = []" if "pr_phase st = Reading ch" for ch
    using steps reads [of st ch] that by (cases "pr_pipe st ch") auto
  have child: "pr_child st = []"
  proof (rule ccontr)
    assume "pr_child st \<noteq> []"
    then obtain ch c rest where w: "pr_child st = (ch, c) # rest"
      by (cases "pr_child st") auto
    then have full: "cap \<le> length (pr_pipe st ch)"
      using steps writes [of st ch c rest cap code] by force
    then have "\<not> length (unread ch st) \<le> cap"
      using writer_has_room [OF w] by (meson not_le)
    then have "ch = Out" "\<not> length o1 \<le> cap"
      using proc_inv_unread [OF inv] assms(2) by (cases ch; simp)+
    then show False
      using inv assms(1,3) w full reading [of Out]
      by (cases "(o1, e1, st, pr_phase st)" rule: proc_inv.cases) auto
  qed
  show ?thesis
    using steps child reading ends [of st] waits [of st] by (cases "pr_phase st") force+
qed

section \<open>Properties\<close>


text \<open>
  The bound on the errors is needed: a command that writes more errors than the pipe holds, while its
  output is open, and the proxy wait for each other for ever.
\<close>

lemma errors_fill_the_pipe:
  "k \<le> cap \<Longrightarrow> k \<le> n \<Longrightarrow> (proc_step cap code ^^ k) (proc_start (replicate n (Err, c)))
     ((proc_start (replicate (n - k) (Err, c)))\<lparr>pr_pipe := (\<lambda>_. [])(Err := replicate k c)\<rparr>)"
proof (induction k)
  case 0
  then show ?case
    by (simp add: proc_start_def)
next
  case (Suc k)
  let ?st = "(proc_start (replicate (n - k) (Err, c)))\<lparr>pr_pipe := (\<lambda>_. [])(Err := replicate k c)\<rparr>"
  have "proc_step cap code ?st (?st\<lparr>pr_child := replicate (n - Suc k) (Err, c), pr_pipe := (pr_pipe ?st)(Err := pr_pipe ?st Err @ [c])\<rparr>)"
    using Suc.prems by (intro writes) (simp_all add: proc_start_def Suc_diff_Suc flip: replicate_Suc)
  moreover have "?st\<lparr>pr_child := replicate (n - Suc k) (Err, c), pr_pipe := (pr_pipe ?st)(Err := pr_pipe ?st Err @ [c])\<rparr>
      = (proc_start (replicate (n - Suc k) (Err, c)))\<lparr>pr_pipe := (\<lambda>_. [])(Err := replicate (Suc k) c)\<rparr>"
    by (simp add: proc_start_def replicate_append_same)
  moreover have "(proc_step cap code ^^ k) (proc_start (replicate n (Err, c))) ?st"
    by (rule Suc.IH) (use Suc.prems in simp_all)
  ultimately show ?case
    using relpowp_Suc_I by metis
qed

inductive_cases proc_step_elim: "proc_step cap code st st'"

theorem process_deadlocks:
  assumes "cap < n"
  shows "\<exists>st. (proc_step cap code ^^ cap) (proc_start (replicate n (Err, c))) st \<and> pr_phase st = Reading Out \<and> (\<nexists>st'. proc_step cap code st st')"
proof -
  let ?st = "(proc_start (replicate (n - cap) (Err, c)))\<lparr>pr_pipe := (\<lambda>_. [])(Err := replicate cap c)\<rparr>"
  have "ch = Err" if "replicate (n - cap) (Err, c) = (ch, ca) # rest" for ch ca rest
    using that by (cases "n - cap") simp_all
  then have "\<not> proc_step cap code ?st st'" for st'
    using assms by (fastforce simp: proc_start_def elim!: proc_step_elim)
  then show ?thesis
    using errors_fill_the_pipe [of cap cap n] assms by (intro exI [of _ ?st]) (simp add: proc_start_def)
qed

section \<open>Instances\<close>

lemma letter_run: "\<exists>st. (proc_step 1 7 ^^ 5) (proc_start [(Out, CHR ''a'')]) st"
proof -
  let ?s0 = "proc_start [(Out, CHR ''a'')]"
  let ?s1 = "?s0\<lparr>pr_child := [], pr_pipe := (pr_pipe ?s0)(Out := pr_pipe ?s0 Out @ ''a'')\<rparr>"
  let ?s2 = "take_char Out (CHR ''a'') (?s1\<lparr>pr_pipe := (pr_pipe ?s1)(Out := [])\<rparr>)"
  let ?s3 = "take_end Out ?s2"
  let ?s4 = "take_end Err ?s3"
  note defs = proc_start_def take_char_def take_end_def
  have "proc_step 1 7 ?s0 ?s1"
    by (rule writes) (simp_all add: defs)
  moreover have "proc_step 1 7 ?s1 ?s2"
    by (rule reads) (simp_all add: defs)
  moreover have "proc_step 1 7 ?s2 ?s3"
    by (rule ends) (simp_all add: defs)
  moreover have "proc_step 1 7 ?s3 ?s4"
    by (rule ends) (simp_all add: defs)
  moreover have "proc_step 1 7 ?s4 (?s4\<lparr>pr_phase := Exited 7\<rparr>)"
    by (rule waits) (simp_all add: defs)
  ultimately show ?thesis
    by (auto simp: numeral_eq_Suc simp del: relpowp.simps(2) intro!: relpowp_Suc_I2 exI)
qed


end
