(* ===== verification/Firewall.thy ===== *)
theory Firewall
  imports Prelude
begin

text \<open>
  The rule of the Windows firewall, \<^verbatim>\<open>src/src/win_util.cpp\<close>, which \<^verbatim>\<open>main\<close> enables before anything else. The COM
  interfaces of the firewall are a parameter; what the code adds to them is the order of the calls, the
  error paths and the release of every reference, which the model counts.
\<close>

section \<open>The firewall and its interfaces\<close>

type_synonym hresult = "32 word"

definition FAILED :: "hresult \<Rightarrow> bool" where
  "FAILED hr \<longleftrightarrow> sint hr < 0"

abbreviation SUCCEEDED :: "hresult \<Rightarrow> bool" where "SUCCEEDED hr \<equiv> \<not> FAILED hr"
abbreviation S_OK :: hresult where "S_OK \<equiv> 0"
abbreviation E_OUTOFMEMORY :: hresult where "E_OUTOFMEMORY \<equiv> 0x8007000E"
abbreviation RPC_E_CHANGED_MODE :: hresult where "RPC_E_CHANGED_MODE \<equiv> 0x80010106"

text \<open>The references and texts the code holds, and the calls it makes.\<close>

datatype com_ref = Manager | Policy | Profile | Apps | App | Bstr

datatype com_call =
    Co_initialize | Create_manager | Get_policy | Get_profile | Get_apps | Item string | Get_enabled string
  | Create_app | Put_file string | Put_name string | Add string

text \<open>
  The state: the authorised applications with their switch, the number of references held of each
  kind, the balance of the initialisations of COM, and the number of calls so far.
\<close>

record firewall =
  fw_apps :: "string \<rightharpoonup> bool"
  fw_held :: "com_ref \<Rightarrow> int"
  fw_com :: int
  fw_calls :: nat

text \<open>
  What the system answers: the result of a call, whether a text can be allocated, the switch
  \<^verbatim>\<open>get_Enabled\<close> reports, and the applications after an \<^verbatim>\<open>Add\<close>.
\<close>

record firewall_world =
  fw_hr :: "com_call \<Rightarrow> firewall \<Rightarrow> hresult"
  fw_alloc :: "firewall \<Rightarrow> bool"
  fw_enabled :: "string \<Rightarrow> firewall \<Rightarrow> bool"
  fw_added :: "string \<Rightarrow> firewall \<Rightarrow> string \<rightharpoonup> bool"

text \<open>The documented behaviour: an item is found exactly when it is there, and \<^verbatim>\<open>Add\<close> enables it.\<close>

definition firewall_laws :: "firewall_world \<Rightarrow> bool" where
  "firewall_laws w \<longleftrightarrow>
     (\<forall>f s. SUCCEEDED (fw_hr w (Item f) s) \<longrightarrow> fw_apps s f \<noteq> None)
     \<and> (\<forall>f s b. fw_apps s f = Some b \<longrightarrow> fw_enabled w f s = b)
     \<and> (\<forall>f s. fw_added w f s = (fw_apps s)(f \<mapsto> True))"

definition invoke :: "firewall_world \<Rightarrow> com_call \<Rightarrow> firewall \<Rightarrow> hresult \<times> firewall" where
  "invoke w call s = (fw_hr w call s, s\<lparr>fw_calls := fw_calls s + 1\<rparr>)"

definition acquire :: "com_ref \<Rightarrow> firewall \<Rightarrow> firewall" where
  "acquire r s = s\<lparr>fw_held := (fw_held s)(r := fw_held s r + 1)\<rparr>"

text \<open>\<^verbatim>\<open>if (p != NULL) p->Release();\<close> and \<^verbatim>\<open>SysFreeString\<close>, which ignores the null pointer.\<close>

definition com_release :: "bool \<Rightarrow> com_ref \<Rightarrow> firewall \<Rightarrow> firewall" where
  "com_release p r s = (if p then s\<lparr>fw_held := (fw_held s)(r := fw_held s r - 1)\<rparr> else s)"

section \<open>The functions\<close>

text \<open>
  A function of the source ends at its label \<^verbatim>\<open>error\<close>. The inner part gives the result, the pointers that
  are not null there, and the state; the outer part is the code behind the label.
\<close>

definition WindowsFirewallInitialize :: "firewall_world \<Rightarrow> firewall \<Rightarrow> hresult \<times> bool \<times> firewall" where
  "WindowsFirewallInitialize w s =
     (case
        (case invoke w Create_manager s of (hr, s) \<Rightarrow>
           if FAILED hr then (hr, False, False, False, s)
           else case invoke w Get_policy (acquire Manager s) of (hr, s) \<Rightarrow>
             if FAILED hr then (hr, True, False, False, s)
             else case invoke w Get_profile (acquire Policy s) of (hr, s) \<Rightarrow>
               if FAILED hr then (hr, True, True, False, s)
               else (hr, True, True, True, acquire Profile s))
      of (hr, fwMgr, fwPolicy, fwProfile, s) \<Rightarrow>
        (hr, fwProfile, com_release fwMgr Manager (com_release fwPolicy Policy s)))"

definition WindowsFirewallCleanup :: "bool \<Rightarrow> firewall \<Rightarrow> firewall" where
  "WindowsFirewallCleanup fwProfile s = com_release fwProfile Profile s"

definition WindowsFirewallAppIsEnabled :: "firewall_world \<Rightarrow> string \<Rightarrow> firewall \<Rightarrow> hresult \<times> bool \<times> firewall" where
  "WindowsFirewallAppIsEnabled w file_name s =
     (case
        (case invoke w Get_apps s of (hr, s) \<Rightarrow>
           if FAILED hr then (hr, False, False, False, False, s)
           else
             let s = acquire Apps s in
             if \<not> fw_alloc w s then (E_OUTOFMEMORY, False, False, False, True, s)
             else case invoke w (Item file_name) (acquire Bstr s) of (hr, s) \<Rightarrow>
               if SUCCEEDED hr then
                 (case invoke w (Get_enabled file_name) (acquire App s) of (hr, s) \<Rightarrow>
                    if FAILED hr then (hr, False, True, True, True, s)
                    else (hr, fw_enabled w file_name s, True, True, True, s))
               else (S_OK, False, True, False, True, s))
      of (hr, fwAppEnabled, bstr, fwApp, fwApps, s) \<Rightarrow>
        (hr, fwAppEnabled, com_release fwApps Apps (com_release fwApp App (com_release bstr Bstr s))))"

definition WindowsFirewallAddApp :: "firewall_world \<Rightarrow> string \<Rightarrow> string \<Rightarrow> firewall \<Rightarrow> hresult \<times> firewall" where
  "WindowsFirewallAddApp w file_name name s =
     (case
        (case WindowsFirewallAppIsEnabled w file_name s of (hr, fwAppEnabled, s) \<Rightarrow>
           if FAILED hr \<or> fwAppEnabled then (hr, False, False, False, False, s)
           else case invoke w Get_apps s of (hr, s) \<Rightarrow>
             if FAILED hr then (hr, False, False, False, False, s)
             else case invoke w Create_app (acquire Apps s) of (hr, s) \<Rightarrow>
               if FAILED hr then (hr, False, False, False, True, s)
               else
                 let s = acquire App s in
                 if \<not> fw_alloc w s then (E_OUTOFMEMORY, False, False, True, True, s)
                 else case invoke w (Put_file file_name) (acquire Bstr s) of (hr, s) \<Rightarrow>
                   if FAILED hr then (hr, False, True, True, True, s)
                   else
                     let allocated = fw_alloc w s; s = (if allocated then acquire Bstr s else s) in
                     if \<not> allocated \<or> length name = 0 then (E_OUTOFMEMORY, allocated, True, True, True, s)
                     else case invoke w (Put_name name) s of (hr, s) \<Rightarrow>
                       if FAILED hr then (hr, True, True, True, True, s)
                       else case invoke w (Add file_name) s of (hr, s) \<Rightarrow>
                         if FAILED hr then (hr, True, True, True, True, s)
                         else (hr, True, True, True, True, s\<lparr>fw_apps := fw_added w file_name s\<rparr>))
      of (hr, bstr_name, bstr_file, fwApp, fwApps, s) \<Rightarrow>
        (hr, com_release fwApps Apps (com_release fwApp App (com_release bstr_file Bstr (com_release bstr_name Bstr s)))))"

abbreviation uniproxy_image :: string where "uniproxy_image \<equiv> ''%ProgramFiles%'' @ [CHR 0x5C] @ ''uniproxy'' @ [CHR 0x5C] @ ''uniproxy.exe''"

definition EnableFirewallRule :: "firewall_world \<Rightarrow> firewall \<Rightarrow> bool \<times> firewall" where
  "EnableFirewallRule w s =
     (case invoke w Co_initialize s of (comInit, s) \<Rightarrow>
        if comInit \<noteq> RPC_E_CHANGED_MODE \<and> FAILED comInit then (False, s)
        else
          let s = (if SUCCEEDED comInit then s\<lparr>fw_com := fw_com s + 1\<rparr> else s) in
          case WindowsFirewallInitialize w s of (hr, fwProfile, s) \<Rightarrow>
            if FAILED hr then (False, s)
            else case WindowsFirewallAddApp w uniproxy_image ''Uniproxy'' s of (hr, s) \<Rightarrow>
              if FAILED hr then (False, s)
              else
                let s = WindowsFirewallCleanup fwProfile s in
                (True, if SUCCEEDED comInit then s\<lparr>fw_com := fw_com s - 1\<rparr> else s))"

section \<open>References are balanced\<close>

lemmas com_simps = invoke_def acquire_def com_release_def Let_def

lemma failed_consts [simp]: "FAILED E_OUTOFMEMORY" "\<not> FAILED S_OK" "FAILED RPC_E_CHANGED_MODE"
  by (simp_all add: FAILED_def)

lemma initialize_balance:
  "WindowsFirewallInitialize w s = (hr, p, s') \<Longrightarrow> fw_apps s' = fw_apps s \<and> fw_com s' = fw_com s \<and> p = SUCCEEDED hr
     \<and> fw_held s' = (if p then (fw_held s)(Profile := fw_held s Profile + 1) else fw_held s)"
  by (auto simp: WindowsFirewallInitialize_def com_simps fun_eq_iff split: if_splits)

lemma is_enabled_balance:
  "WindowsFirewallAppIsEnabled w f s = (hr, en, s') \<Longrightarrow> fw_apps s' = fw_apps s \<and> fw_com s' = fw_com s \<and> fw_held s' = fw_held s"
  by (auto simp: WindowsFirewallAppIsEnabled_def com_simps fun_eq_iff split: if_splits)

lemma is_enabled_correct:
  assumes "firewall_laws w" "WindowsFirewallAppIsEnabled w f s = (hr, en, s')"
  shows "en \<longrightarrow> SUCCEEDED hr \<and> fw_apps s f = Some True"
proof -
  have item: "fw_apps s f = Some True"
    if "SUCCEEDED (fw_hr w (Item f) t)" "fw_enabled w f u" "fw_apps t = fw_apps s" "fw_apps u = fw_apps s" for t u
    using assms(1) that unfolding firewall_laws_def by (metis (full_types) option.exhaust)
  show ?thesis
    using assms(2) by (auto simp: WindowsFirewallAppIsEnabled_def com_simps split: if_splits) (rule item, assumption, assumption, simp_all)
qed


lemma add_app_balance:
  "WindowsFirewallAddApp w f name s = (hr, s') \<Longrightarrow> fw_com s' = fw_com s \<and> fw_held s' = fw_held s"
proof -
  assume a: "WindowsFirewallAddApp w f name s = (hr, s')"
  obtain hr1 en s1 where e: "WindowsFirewallAppIsEnabled w f s = (hr1, en, s1)"
    by (metis prod.exhaust)
  have "fw_com s' = fw_com s1 \<and> fw_held s' = fw_held s1"
    using a e by (auto simp: WindowsFirewallAddApp_def com_simps fun_eq_iff split: if_splits)
  then show ?thesis
    using is_enabled_balance [OF e] by simp
qed

lemma add_app_correct:
  assumes "firewall_laws w" "WindowsFirewallAddApp w f name s = (hr, s')"
  shows "SUCCEEDED hr \<longrightarrow> fw_apps s' = (fw_apps s)(f \<mapsto> True)"
proof -
  obtain hr1 en s1 where e: "WindowsFirewallAppIsEnabled w f s = (hr1, en, s1)"
    by (metis prod.exhaust)
  note kept = is_enabled_balance [OF e] is_enabled_correct [OF assms(1) e]
  show ?thesis
  proof (cases "FAILED hr1 \<or> en")
    case True
    then have "hr = hr1" "fw_apps s' = fw_apps s"
      using assms(2) e kept(1) by (auto simp: WindowsFirewallAddApp_def com_simps)
    then show ?thesis
      using True kept by (auto simp: fun_upd_triv)
  next
    case False
    then have "SUCCEEDED hr \<longrightarrow> (\<exists>t. fw_apps t = fw_apps s1 \<and> fw_apps s' = fw_added w f t)"
      using assms(2) e by (auto simp: WindowsFirewallAddApp_def com_simps split: if_splits) (rule exI, rule conjI [rotated], rule refl, simp)+
    then show ?thesis
      using assms(1) kept(1) by (auto simp: firewall_laws_def)
  qed
qed

section \<open>Properties\<close>

text \<open>
  C37: enabling the rule of the firewall does what it says and holds nothing back. When the function
  succeeds, the program is enabled in the firewall and every other application is as before, and every
  reference and every initialisation of COM is given back.
\<close>

theorem firewall_rule_enabled:
  assumes "firewall_laws w" and "EnableFirewallRule w s = (True, s')"
  shows "fw_apps s' = (fw_apps s)(uniproxy_image \<mapsto> True) \<and> fw_held s' = fw_held s \<and> fw_com s' = fw_com s"
proof -
  let ?hr = "fw_hr w Co_initialize s"
  define s0 where "s0 = s\<lparr>fw_calls := fw_calls s + 1, fw_com := fw_com s + (if SUCCEEDED ?hr then 1 else 0)\<rparr>"
  obtain hr1 p s1 where i: "WindowsFirewallInitialize w s0 = (hr1, p, s1)"
    by (metis prod.exhaust)
  obtain hr2 s2 where a: "WindowsFirewallAddApp w uniproxy_image ''Uniproxy'' s1 = (hr2, s2)"
    by (metis prod.exhaust)
  have s0: "s0 = (if SUCCEEDED ?hr then s\<lparr>fw_calls := fw_calls s + 1, fw_com := fw_com s + 1\<rparr> else s\<lparr>fw_calls := fw_calls s + 1\<rparr>)"
    by (simp add: s0_def)
  have "SUCCEEDED hr1" "SUCCEEDED hr2"
    and s': "s' = (let t = WindowsFirewallCleanup p s2 in if SUCCEEDED ?hr then t\<lparr>fw_com := fw_com t - 1\<rparr> else t)"
    using assms(2) i a unfolding EnableFirewallRule_def invoke_def s0 by (auto simp: Let_def split: if_splits)
  then show ?thesis
    using initialize_balance [OF i] add_app_balance [OF a] add_app_correct [OF assms(1) a]
    by (auto simp: WindowsFirewallCleanup_def com_release_def s0_def Let_def fun_eq_iff)
qed

text \<open>
  A failure keeps references: when the application cannot be added, the function returns without the
  clean-up, and the profile and the initialisation of COM are kept for good.
\<close>

theorem firewall_failure_leaks:
  assumes "EnableFirewallRule w s = (False, s')" and "SUCCEEDED (fw_hr w Co_initialize s)"
  shows "fw_com s' = fw_com s + 1 \<and> (fw_held s' = fw_held s \<or> fw_held s' = (fw_held s)(Profile := fw_held s Profile + 1))"
proof -
  define s0 where "s0 = s\<lparr>fw_calls := fw_calls s + 1, fw_com := fw_com s + 1\<rparr>"
  obtain hr1 p s1 where i: "WindowsFirewallInitialize w s0 = (hr1, p, s1)"
    by (metis prod.exhaust)
  obtain hr2 s2 where a: "WindowsFirewallAddApp w uniproxy_image ''Uniproxy'' s1 = (hr2, s2)"
    by (metis prod.exhaust)
  have "s' = (if FAILED hr1 then s1 else s2)"
    using assms i a unfolding EnableFirewallRule_def invoke_def s0_def by (auto simp: Let_def split: if_splits)
  then show ?thesis
    using initialize_balance [OF i] add_app_balance [OF a] by (auto simp: s0_def split: if_splits)
qed

text \<open>A system on which every call succeeds.\<close>

definition sample_firewall :: firewall where
  "sample_firewall = \<lparr>fw_apps = Map.empty, fw_held = (\<lambda>_. 0), fw_com = 0, fw_calls = 0\<rparr>"

definition sample_system :: firewall_world where
  "sample_system =
     \<lparr>fw_hr = (\<lambda>c s. case c of Item f \<Rightarrow> if fw_apps s f = None then 0x80070002 else 0 | _ \<Rightarrow> 0), fw_alloc = (\<lambda>_. True),
      fw_enabled = (\<lambda>f s. fw_apps s f = Some True), fw_added = (\<lambda>f s. (fw_apps s)(f \<mapsto> True))\<rparr>"

theorem firewall_rule_enabled_witness:
  "fst (EnableFirewallRule sample_system sample_firewall)
   \<and> fw_apps (snd (EnableFirewallRule sample_system sample_firewall)) = [uniproxy_image \<mapsto> True]"
proof -
  have "firewall_laws sample_system"
    by (auto simp: firewall_laws_def sample_system_def FAILED_def)
  moreover have "fst (EnableFirewallRule sample_system sample_firewall)"
    by (simp add: EnableFirewallRule_def WindowsFirewallInitialize_def WindowsFirewallAddApp_def WindowsFirewallAppIsEnabled_def
        com_simps sample_system_def sample_firewall_def FAILED_def)
  ultimately show ?thesis
    using firewall_rule_enabled [of sample_system sample_firewall "snd (EnableFirewallRule sample_system sample_firewall)"]
    by (simp add: prod_eq_iff) (simp add: sample_firewall_def)
qed

end
