(* ===== verification/NmeaFields.thy ===== *)
theory NmeaFields
  imports Nmea
begin

text \<open>
  The rest of the NMEA message class of \<^verbatim>\<open>src/libs/gatehouse/pghpnmeamsg.h\<close>: the checksum as text, the field
  reader for it, the setters with their mark, and the assignment.
\<close>

section \<open>Hexadecimal numbers\<close>

text \<open>
  \<^verbatim>\<open>sscanf("%X")\<close> as glibc has it: blanks, a sign, the prefix \<^verbatim>\<open>0x\<close>, then the digits. The number is read with
  64 bits, the largest one for what does not fit, and cut to 32 bits. \<open>None\<close> leaves the variable alone.
\<close>

definition hex_number :: "string \<Rightarrow> nat" where
  "hex_number ds = foldl (\<lambda>v c. 16 * v + nat (the (hex_value c))) 0 ds"

definition scan_X :: "string \<Rightarrow> u32 option" where
  "scan_X text =
     (let s = dropWhile is_space (takeWhile (\<lambda>c. c \<noteq> CHR 0x00) text);
          negative = (s \<noteq> [] \<and> hd s = CHR ''-'');
          s = (if s \<noteq> [] \<and> hd s \<in> {CHR ''+'', CHR ''-''} then tl s else s);
          s = (if take 2 s \<in> {''0x'', ''0X''} then CHR ''0'' # drop 2 s else s);
          ds = takeWhile (\<lambda>c. hex_value c \<noteq> None) s
      in if ds = [] then None
         else let v = (if 2 ^ 64 \<le> hex_number ds then 2 ^ 64 - 1 else int (hex_number ds))
              in Some (of_int (if negative \<and> hex_number ds < 2 ^ 64 then - v else v)))"

section \<open>The checksum\<close>

definition marked :: "bool \<Rightarrow> nmea \<Rightarrow> nmea" where
  "marked mark m = (if mark then m\<lparr>m_fReceivedMessageModified := True\<rparr> else m)"

definition SetChecksum_text :: "nmea \<Rightarrow> string \<Rightarrow> bool \<Rightarrow> nmea" where
  "SetChecksum_text m t mark =
     (let m = marked mark m in case scan_X t of None \<Rightarrow> m | Some v \<Rightarrow> m\<lparr>m_iCheckSum := v\<rparr>)"

definition SetChecksum :: "nmea \<Rightarrow> u32 \<Rightarrow> bool \<Rightarrow> nmea" where
  "SetChecksum m v mark = (marked mark m)\<lparr>m_iCheckSum := v\<rparr>"

text \<open>The text is written to a buffer of five bytes; a longer one overruns it (\<open>None\<close>).\<close>

definition GetChecksumAsString :: "nmea \<Rightarrow> string option" where
  "GetChecksumAsString m = (let s = FormatNmeaCheckSum (m_iCheckSum m) in if length s + 1 \<le> 5 then Some s else None)"

text \<open>The reader of a checksum field, with the old value of the variable.\<close>

definition GetCheckSumWord :: "u32 \<Rightarrow> string \<Rightarrow> nat \<Rightarrow> bool \<times> u32 \<times> nat" where
  "GetCheckSumWord iData s iStart =
     (case scan_to (\<lambda>i ch. ch = CHR '','' \<or> ch = CHR ''*'' \<or> i - iStart = 2) s iStart of
        None \<Rightarrow> (True, iData, iStart)
      | Some i \<Rightarrow>
          (True, if 0 < i - iStart then (case scan_X (substr s iStart (i - iStart)) of None \<Rightarrow> iData | Some v \<Rightarrow> v) else iData, i + 1))"

section \<open>The other members\<close>

definition SetTotalNumberOfMessages :: "nmea \<Rightarrow> int \<Rightarrow> bool \<Rightarrow> nmea" where
  "SetTotalNumberOfMessages m n mark = (marked mark m)\<lparr>m_iTotalNumberOfMessages := n\<rparr>"

definition SetSentenceNumber :: "nmea \<Rightarrow> int \<Rightarrow> bool \<Rightarrow> nmea" where
  "SetSentenceNumber m n mark = (marked mark m)\<lparr>m_iSentenceNumber := n\<rparr>"

definition SetSequentialMessageIdentifier :: "nmea \<Rightarrow> int \<Rightarrow> bool \<Rightarrow> nmea" where
  "SetSequentialMessageIdentifier m n mark = (marked mark m)\<lparr>m_iSequentialMessageIdentifier := n\<rparr>"

definition SetSentenceType :: "nmea \<Rightarrow> AISNMEAType \<Rightarrow> bool \<Rightarrow> nmea" where
  "SetSentenceType m t mark = (marked mark m)\<lparr>m_enSentenceType := t\<rparr>"

definition AppendPayload :: "nmea \<Rightarrow> string \<Rightarrow> nmea" where
  "AppendPayload m p = m\<lparr>m_aszPayload := m_aszPayload m @ p\<rparr>"

text \<open>\<^verbatim>\<open>operator=\<close> copies nine members; the type of the sentence and the mark of an error stay.\<close>

definition nmea_assign :: "nmea \<Rightarrow> nmea \<Rightarrow> nmea" where
  "nmea_assign m source =
     m\<lparr>m_iTotalNumberOfMessages := m_iTotalNumberOfMessages source, m_iSentenceNumber := m_iSentenceNumber source,
       m_iSequentialMessageIdentifier := m_iSequentialMessageIdentifier source, m_aszPayload := m_aszPayload source,
       m_clReceivedMessage := m_clReceivedMessage source, m_fReceivedMessageModified := m_fReceivedMessageModified source,
       m_iMaxContent := m_iMaxContent source, m_iCheckSum := m_iCheckSum source, m_fSeqMesIdIsNull := m_fSeqMesIdIsNull source\<rparr>"

text \<open>\<^verbatim>\<open>GetDoubleAsString\<close>; how a stream writes a number that is not zero is the argument.\<close>

definition GetDoubleAsString :: "('d::zero \<Rightarrow> string) \<Rightarrow> 'd \<Rightarrow> string" where
  "GetDoubleAsString print v = (if v \<noteq> 0 then print v else [])"

section \<open>The checksum as text\<close>

abbreviation hex_text :: "string \<Rightarrow> bool" where
  "hex_text ds \<equiv> list_all (\<lambda>c. hex_value c \<noteq> None) ds"

lemma hex_value_plain:
  assumes "hex_value c \<noteq> None"
  shows "\<not> is_space c \<and> c \<noteq> CHR 0x00 \<and> c \<notin> {CHR ''+'', CHR ''-'', CHR ''x'', CHR ''X''}"
proof -
  have "(of_char c :: int) = int (of_char c)"
    by (simp add: of_nat_of_char)
  then show ?thesis
    using assms by (auto simp: hex_value_def is_space_def Let_def split: if_splits)
qed

lemma scan_X_digits:
  assumes "hex_text ds" "ds \<noteq> []" "hex_number ds < 2 ^ 64"
  shows "scan_X ds = Some (of_nat (hex_number ds))"
proof -
  obtain c cs where ds: "ds = c # cs"
    using assms(2) by (cases ds) auto
  have plain: "d \<in> set ds \<Longrightarrow> \<not> is_space d \<and> d \<noteq> CHR 0x00 \<and> d \<notin> {CHR ''+'', CHR ''-'', CHR ''x'', CHR ''X''}" for d
    using assms(1) hex_value_plain by (auto simp: list_all_iff)
  have tw: "takeWhile (\<lambda>c. c \<noteq> CHR 0x00) ds = ds" "takeWhile (\<lambda>c. hex_value c \<noteq> None) ds = ds" "dropWhile is_space ds = ds"
    using plain assms(1) ds by (auto simp: takeWhile_eq_all_conv list_all_iff)
  have "take 2 ds \<notin> {''0x'', ''0X''}" "hd ds \<notin> {CHR ''+'', CHR ''-''}"
    using plain [of c] plain [of "hd cs"] ds by (cases cs; auto)+
  then show ?thesis
    using assms(2,3) unfolding scan_X_def Let_def tw by (simp add: tw del: not_None_eq takeWhile_eq_all_conv)
qed

lemma show_hex_text: "hex_text (show_hex n) \<and> show_hex n \<noteq> [] \<and> hex_number (show_hex n) = n"
proof (induction n rule: show_hex.induct)
  case (1 n)
  show ?case
  proof (cases "n < 16")
    case True
    then show ?thesis
      using hex_digit_value [of n] by (subst (1 2 3) show_hex.simps) (simp add: hex_number_def)
  next
    case False
    then show ?thesis
      using 1 hex_digit_value [of "n mod 16"] by (subst (1 2 3) show_hex.simps) (simp add: hex_number_def)
  qed
qed

lemma show_hex_length: "n < 16 ^ k \<Longrightarrow> 0 < k \<Longrightarrow> length (show_hex n) \<le> k"
proof (induction k arbitrary: n)
  case (Suc k)
  show ?case
  proof (cases "n < 16")
    case False
    then have "n div 16 < 16 ^ k" "0 < k"
      using Suc.prems by (auto simp: less_mult_imp_div_less mult.commute intro: ccontr)
    then show ?thesis
      using Suc.IH [of "n div 16"] False by (subst show_hex.simps) simp
  qed (subst show_hex.simps, simp)
qed simp

lemma hex_number_bound: "hex_text ds \<Longrightarrow> hex_number ds < 16 ^ length ds"
proof (induction ds rule: rev_induct)
  case (snoc c ds)
  then obtain v where "hex_value c = Some v"
    by auto
  moreover have "nat v < 16"
    using calculation by (auto simp: hex_value_def Let_def split: if_splits)
  ultimately show ?case
    using snoc by (simp add: hex_number_def)
qed (simp add: hex_number_def)

lemma format_text:
  "hex_text (FormatNmeaCheckSum c) \<and> FormatNmeaCheckSum c \<noteq> [] \<and> hex_number (FormatNmeaCheckSum c) = unat c"
proof -
  have "hex_value (CHR ''0'') = Some 0"
    using hex_digit_value [of 0] by (simp add: hex_digit_def)
  moreover have "foldl (\<lambda>v c. 16 * v + nat (the (hex_value c))) 0 (replicate k (CHR ''0'')) = 0" for k
    using calculation by (induction k) simp_all
  ultimately show ?thesis
    using show_hex_text [of "unat c"] by (auto simp: FormatNmeaCheckSum_def hex_number_def Let_def list_all_iff)
qed

text \<open>
  A checksum of up to sixteen bits comes back from its text; a longer one overruns the buffer of the
  text.
\<close>

theorem checksum_text_roundtrip:
  "(case GetChecksumAsString m of
      Some t \<Rightarrow> unat (m_iCheckSum m) < 2 ^ 16 \<and> m_iCheckSum (SetChecksum_text m' t mark) = m_iCheckSum m
    | None \<Rightarrow> 2 ^ 16 \<le> unat (m_iCheckSum m))"
proof -
  let ?c = "m_iCheckSum m"
  have small: "unat ?c < 2 ^ 64"
    using unsigned_less [of ?c, where ?'a = nat] by simp
  have "scan_X (FormatNmeaCheckSum ?c) = Some ?c"
    using scan_X_digits [of "FormatNmeaCheckSum ?c"] format_text [of ?c] small by simp
  moreover have "length (FormatNmeaCheckSum ?c) \<le> 4 \<longleftrightarrow> unat ?c < 2 ^ 16"
    using format_text [of ?c] hex_number_bound [of "FormatNmeaCheckSum ?c"] show_hex_length [of "unat ?c" 4]
      power_increasing [of "length (FormatNmeaCheckSum ?c)" 4 "16::nat"]
    by (auto simp: FormatNmeaCheckSum_def Let_def)
  ultimately show ?thesis
    by (auto simp: GetChecksumAsString_def SetChecksum_text_def Let_def)
qed

end
