(* ===== verification/TimeText.thy ===== *)
theory TimeText
  imports StrUtil
begin

text \<open>
  Times and threads as text, of \<^verbatim>\<open>src/src/applutil.cpp\<close>: the stamp of a log line, a point in time on the
  status page, and the last digits of a thread's number.
\<close>

section \<open>Definitions\<close>

text \<open>A \<^verbatim>\<open>ptime\<close>: a point in time by its fields, the two infinities, or no time.\<close>

datatype ptime = Time nat nat nat nat nat nat | Pos_infinity | Neg_infinity | Not_a_time

text \<open>\<^verbatim>\<open>%0<w>i\<close> of a number that is not negative.\<close>

definition zero_padded :: "nat \<Rightarrow> nat \<Rightarrow> string" where
  "zero_padded w n = (let s = show_nat n in replicate (w - length s) (CHR ''0'') @ s)"

definition clock_text :: "nat \<Rightarrow> nat \<Rightarrow> nat \<Rightarrow> string" where
  "clock_text h mi s = zero_padded 2 h @ '':'' @ zero_padded 2 mi @ '':'' @ zero_padded 2 s"

text \<open>The text goes through a buffer of forty bytes; a longer one overruns it (\<open>None\<close>).\<close>

definition ptime_to_string :: "ptime \<Rightarrow> string option" where
  "ptime_to_string p =
     (case p of
        Time y mo d h mi s \<Rightarrow>
          (let t = zero_padded 4 y @ ''-'' @ zero_padded 2 mo @ ''-'' @ zero_padded 2 d @ '' '' @ clock_text h mi s
           in if length t + 1 \<le> 40 then Some t else None)
      | Pos_infinity \<Rightarrow> Some ''infinity''
      | Neg_infinity \<Rightarrow> Some ''infinity''
      | Not_a_time \<Rightarrow> Some [])"

text \<open>\<^verbatim>\<open>time_stamp\<close>: the date in the ISO form and the time of day without its fraction.\<close>

definition time_stamp :: "nat \<Rightarrow> nat \<Rightarrow> nat \<Rightarrow> nat \<Rightarrow> nat \<Rightarrow> nat \<Rightarrow> string" where
  "time_stamp y mo d h mi s = zero_padded 4 y @ zero_padded 2 mo @ zero_padded 2 d @ '' '' @ clock_text h mi s"

definition mask_text :: "string \<Rightarrow> string" where
  "mask_text sz = (if length sz > 4 then drop (length sz - 4) sz else sz)"

section \<open>The form of the texts\<close>

lemma show_nat_length: "n < 10 ^ k \<Longrightarrow> 0 < k \<Longrightarrow> length (show_nat n) \<le> k"
proof (induction k arbitrary: n)
  case (Suc k)
  show ?case
  proof (cases "n < 10")
    case False
    then have "n div 10 < 10 ^ k" "0 < k"
      using Suc.prems by (auto simp: less_mult_imp_div_less mult.commute intro: ccontr)
    then show ?thesis
      using Suc.IH [of "n div 10"] False by (subst show_nat.simps) simp
  qed (subst show_nat.simps, simp)
qed simp

lemma zero_padded_length: "n < 10 ^ w \<Longrightarrow> 0 < w \<Longrightarrow> length (zero_padded w n) = w"
  using show_nat_length [of n w] by (simp add: zero_padded_def Let_def)

lemma zero_padded_value: "read_digits (zero_padded w n) = n"
proof -
  have "foldl (\<lambda>v c. 10 * v + digit_value c) 0 (replicate k (CHR ''0'')) = 0" for k
    by (induction k) (simp_all add: digit_value_def)
  then show ?thesis
    using read_show_nat [of n] by (simp add: zero_padded_def read_digits_def Let_def)
qed

lemma zero_padded_inject:
  "n < 10 ^ w \<Longrightarrow> n' < 10 ^ w \<Longrightarrow> 0 < w \<Longrightarrow> zero_padded w n @ r = zero_padded w n' @ r' \<longleftrightarrow> n = n' \<and> r = r'"
  using zero_padded_length [of n w] zero_padded_length [of n' w] zero_padded_value [of w] by (metis append_eq_append_conv)

lemma two_digits_inject: "n < 100 \<Longrightarrow> n' < 100 \<Longrightarrow> zero_padded 2 n @ r = zero_padded 2 n' @ r' \<longleftrightarrow> n = n' \<and> r = r'"
  using zero_padded_inject [of n 2 n'] by simp

lemma zero_padded_eq: "zero_padded w n = zero_padded w n' \<longleftrightarrow> n = n'"
  by (metis zero_padded_value)

definition calendar :: "ptime \<Rightarrow> bool" where
  "calendar p = (case p of Time y mo d h mi s \<Rightarrow> y < 10000 \<and> mo < 100 \<and> d < 100 \<and> h < 100 \<and> mi < 100 \<and> s < 100 | _ \<Rightarrow> False)"

lemma ptime_text_fits:
  assumes "calendar p"
  shows "\<exists>t. ptime_to_string p = Some t \<and> length t = 19"
  using assms by (cases p) (auto simp: calendar_def ptime_to_string_def clock_text_def zero_padded_length Let_def)

text \<open>
  A time with a year of four digits has a text of nineteen characters, which fits the buffer, and two
  such times with the same text are the same. The two infinities have the same text.
\<close>

theorem ptime_text_unique:
  assumes "calendar p" "calendar q" "ptime_to_string p = ptime_to_string q"
  shows "p = q"
proof -
  obtain y mo d h mi s y' mo' d' h' mi' s' where pq: "p = Time y mo d h mi s" "q = Time y' mo' d' h' mi' s'"
    using assms(1,2) by (cases p; cases q) (auto simp: calendar_def)
  have "y < 10 ^ 4" "y' < 10 ^ 4"
    using assms(1,2) pq by (simp_all add: calendar_def)
  moreover have "zero_padded 4 y @ ''-'' @ zero_padded 2 mo @ ''-'' @ zero_padded 2 d @ '' '' @ clock_text h mi s
      = zero_padded 4 y' @ ''-'' @ zero_padded 2 mo' @ ''-'' @ zero_padded 2 d' @ '' '' @ clock_text h' mi' s'"
    using assms(3) ptime_text_fits [OF assms(1)] ptime_text_fits [OF assms(2)]
    by (simp add: pq ptime_to_string_def Let_def split: if_splits)
  ultimately show ?thesis
    using assms(1,2) by (simp add: pq calendar_def zero_padded_inject two_digits_inject zero_padded_eq clock_text_def)
qed

end
