(* ===== verification/Spec2Isabelle.thy ===== *)
theory Spec2Isabelle
  imports GhpPlugin ProxyLog ProviderThread CertThreads Program Tunnel SocketUtil ProcessUtil Firewall NmeaFields TimeText
begin

text \<open>
  \<^bold>\<open>A verification development of the Universal Proxy.\<close>

  \<^bold>\<open>The program.\<close> UniProxy connects programs over TLS. A \<^emph>\<open>local client\<close> (\<^verbatim>\<open>localclient.cpp\<close>) listens on a
  local port; when a program attaches, it connects to the proxy of another site and copies bytes both
  ways. A \<^emph>\<open>remote host\<close> (\<^verbatim>\<open>remoteclient.cpp\<close>) is the other end: it accepts a TLS connection, looks up the
  name in the peer's certificate, connects to one of its local end points, lets a plugin log on there
  (\<^verbatim>\<open>libs/gatehouse\<close>), and copies bytes. A \<^emph>\<open>provider\<close> (\<^verbatim>\<open>providerclient.cpp\<close>) connects to a local program
  instead of waiting for it. \<^verbatim>\<open>proxy_global.cpp\<close> holds the lists of these, loads and replaces the
  configuration, and exchanges certificates with other proxies: on a connection for a name that an
  operator has activated, and periodically over HTTP (\<^verbatim>\<open>httpclient.cpp\<close>). \<^verbatim>\<open>main.cpp\<close> is the web
  interface and the outer loop of the program. Every long running activity is a \<^verbatim>\<open>mylib::thread\<close> that is
  stopped by a flag and a function that shuts its sockets.

  \<^bold>\<open>Theories and sources.\<close>
  \<^item> \<open>Prelude\<close>: words, lists, text searches, the collections \<open>str_simps\<close> and others that the components share, and
    the locale \<open>kept_invariant\<close> of step relations.
  \<^item> \<open>Errors\<close>: \<^verbatim>\<open>error_codes.h\<close>, the error category, and the outcome of an operation that may raise: an
    option for undefined behaviour around a sum with the exception on the left.
  \<^item> \<open>StrUtil\<close>, \<open>TimeText\<close>, \<open>XmlUtil\<close>: texts, numbers and times of \<^verbatim>\<open>applutil\<close> and the vector texts of \<^verbatim>\<open>pghpxmlutil\<close>.
  \<^item> \<open>AsnCodec\<close>, \<open>GhpMessages\<close>, \<open>Nmea\<close>, \<open>NmeaFields\<close>, \<open>GhpPlugin\<close>: \<^verbatim>\<open>libs/gatehouse\<close>, from the byte codec to the logon
    handshake of the plugin.
  \<^item> \<open>JsonUtil\<close>, \<open>Endpoint\<close>: \<^verbatim>\<open>cppcms_util.h\<close> and the end points; the JSON library is the parameter \<open>json_api\<close> with
    the laws \<open>json_laws\<close>, which the trees \<open>tree_api\<close> satisfy.
  \<^item> \<open>DataFlow\<close>: the throughput counter. \<open>ProxyLog\<close>: the log and the page that polls it.
  \<^item> \<open>Certificates\<close>, \<open>ActivateHost\<close>: certificate files, the exchange on a connection, the activation list.
  \<^item> \<open>LocalHost\<close>: the handlers of a client's session as functions on a state with the set of started
    operations, and their interleavings as a step relation.
  \<^item> \<open>RemoteHost\<close>: a connection of a host with its two loops, and the host with its list of connections.
    \<open>Tunnel\<close>: a client and a connection of a host as the two ends of a pipe.
  \<^item> \<open>Thread\<close>, \<open>HostThreads\<close>: \<^verbatim>\<open>mylib::thread\<close> with time, the loop of a worker and the locale \<open>prompt_round\<close> that
    shows it ends; the threads of clients and hosts.
  \<^item> \<open>Provider\<close>, \<open>ProviderThread\<close>: the buffer between reader and writer, and the reader.
  \<^item> \<open>ProxyGlobal\<close>, \<open>StatusJson\<close>: the configuration and the commands; the status and the saved configuration.
    \<open>Interrupted\<close>: the state that an exception leaves in the middle of loading, removing or starting.
  \<^item> \<open>HttpClient\<close>, \<open>CertThreads\<close>: the HTTP client, the periodic exchange built on it, and the thread of the
    activation list.
  \<^item> \<open>ProxyApp\<close>: the commands of the web interface, the upload of a configuration, and the start.
  \<^item> \<open>WebServer\<close>: the routes, the reload timer, the signals and the outer loop of \<^verbatim>\<open>main.cpp\<close> and \<^verbatim>\<open>main.h\<close>.
  \<^item> \<open>Program\<close>: the life of the program as the step relation \<open>program_step\<close>, which the function for the outer loop
    follows, and its invariant \<open>program_ok\<close>.
  \<^item> \<open>SocketUtil\<close>: connecting, keep alive and the read with a timeout of \<^verbatim>\<open>applutil\<close>, and the TLS context.
  \<^item> \<open>ProcessUtil\<close>: running a command, as a step relation over the command, the proxy and their two pipes.
  \<^item> \<open>Firewall\<close>: the rule of the Windows firewall, \<^verbatim>\<open>win_util.cpp\<close>.
  \<^item> This theory: an activation between two proxies, from both ends, and the TLS version of the hosts.

  \<^bold>\<open>How code is modelled.\<close> An object is a record of its members, with ghost fields for what was sent and
  received. A method is a function from the state to its result and the new state. Integers keep their
  width where the code depends on it. A \<^verbatim>\<open>while\<close> loop is a recursive function with a measure, or, where it
  may run for ever, a \<open>partial_function (option)\<close> whose value is then \<open>None\<close>; there is no fuel. What the
  operating system, asio, OpenSSL, cppcms and the clock deliver is an argument. The time of a thread
  is in milliseconds; another thread's stop is the time at which it sets the flag.

  \<^bold>\<open>What is shown.\<close>
  \<^item> \<^emph>\<open>Data.\<close> A client delivers what the remote sent to every attached program, in order and once, for every
    interleaving of its handlers; with one program the other direction is exact too, with two the shared
    buffer can mix them. The loops of a connection relay in order, so that
    a client and a host together are a pipe in both directions. A provider forwards exactly what it
    reads until its count passes the limit.
  \<^item> \<^emph>\<open>Security.\<close> Bytes move only after a TLS handshake with a configured name and an accepted logon; a
    certificate is stored only for an activated name; a TLS context accepts nothing below the configured
    version and no chain that is not trusted; the status page has no credentials; a request that is no
    command changes nothing.
  \<^item> \<^emph>\<open>State.\<close> In every reachable state of the program, behind failed loads and half applied configurations as
    well, ports and identifiers are unique and every host has a local end point; between the turns of
    the outer loop and at the end nothing runs.
  \<^item> \<^emph>\<open>Configuration.\<close> Loading a configuration again, uploading it, or loading a saved one leaves the running hosts
    alone; changes to the remotes are applied exactly; an upload never leaves a broken file.
  \<^item> \<^emph>\<open>Certificates.\<close> An activation leaves each of two proxies with the certificate of the other. Two proxies
    that ask each other end with the same names, through the HTTP client and for
    every segmentation of its answers.
  \<^item> \<^emph>\<open>Ending.\<close> The threads of clients, providers, the exchange and the activation list return after their
    stop within a stated time; the start of the program ends; running a command ends for every
    interleaving when its errors fit into the pipe. A hypothesis \<open>prompt_call\<close>, \<open>within\<close>, \<open>timely\<close> or
    \<open>responsive\<close> bounds each blocking call, which the interrupt functions are there for.
  \<^item> \<^emph>\<open>Codecs and texts.\<close> Round trips of the GateHouse messages and sentences, memory safety of the parsers for
    lengths of up to three bytes and its failure beyond, and the utility functions against references.
  \<^item> \<^emph>\<open>Flaws.\<close> A configured minimum of TLS 1.3 never reaches the hosts, a restarted host accepts nothing, a buffered provider never resumes, provider blocks are
    dropped early, a failed write leaves a dangling pointer, a certificate in two segments is cut, a
    command with many errors is waited for without end, a failed firewall call keeps its references.

  \<^bold>\<open>Not modelled.\<close> \<^verbatim>\<open>platform.h\<close> and the vendored boost.process headers have no behaviour of the program; the HTML
  views and scripts are output; debug output is left out, and so is the code that is commented out. The
  matching of regular expressions is cppcms's, with the law \<open>anchored\<close>. Requests are served one after the
  other; two threads of the web service that change the lists at once are not.
\<close>

section \<open>An activation between two proxies\<close>

text \<open>What one side hands to its socket when the whole certificate can be written.\<close>

definition cert_sent :: "string \<Rightarrow> cert_state \<Rightarrow> string" where
  "cert_sent name st = (case SetupCertificatesClient (\<lambda>s. Inr (length s)) name st of (_, Some cert, _) \<Rightarrow> cert | _ \<Rightarrow> [])"

text \<open>What the other side gets of it when it comes in one part.\<close>

definition delivered :: "string \<Rightarrow> string" where
  "delivered s = fst (read_with_timeout 4000 [Arrived s])"

text \<open>A side with its certificate \<open>c\<close> and the store \<open>certs\<close>, on a disk that can be written.\<close>

definition prepared :: "'c x509 \<Rightarrow> 'c \<Rightarrow> 'c list \<Rightarrow> string \<Rightarrow> cert_state \<Rightarrow> bool" where
  "prepared X c certs tmp st \<longleftrightarrow>
     files (cs_disk st) my_public_cert_name = Some (pem_write X c) \<and> files (cs_disk st) my_certs_name = Some (concat (map (pem_write X) certs))
     \<and> writable (cs_disk st) my_certs_name \<and> files (cs_disk st) tmp = None \<and> writable (cs_disk st) tmp
     \<and> CHR 0x00 \<notin> set (pem_write X c) \<and> 0 < length (pem_write X c) \<and> length (pem_write X c) < 4000 \<and> get_common_name X c \<noteq> []"

lemma prepared_sends:
  assumes "prepared X c certs tmp st" "name \<noteq> []"
  shows "SetupCertificatesClient (\<lambda>s. Inr (length s)) name st = (True, Some (pem_write X c), st)" "cert_sent name st = pem_write X c"
    "delivered (cert_sent name st) = pem_write X c"
proof -
  show s: "SetupCertificatesClient (\<lambda>s. Inr (length s)) name st = (True, Some (pem_write X c), st)"
    using assms by (simp add: prepared_def SetupCertificatesClient_def Let_def)
  then show "cert_sent name st = pem_write X c" "delivered (cert_sent name st) = pem_write X c"
    using assms by (simp_all add: cert_sent_def delivered_def read_with_timeout_def prepared_def)
qed

lemma prepared_keeps:
  assumes "prepared X c certs tmp st" "\<forall>f. f \<noteq> my_certs_name \<longrightarrow> files (cs_disk st') f = files (cs_disk st) f"
  shows "files (cs_disk st') my_public_cert_name = Some (pem_write X c)"
  using assms by (simp add: prepared_def)


section \<open>The TLS version of the hosts\<close>


section \<open>Instances\<close>

definition sample_side :: "nat \<Rightarrow> cert_state" where
  "sample_side n =
     \<lparr>cs_disk = \<lparr>files = [my_certs_name \<mapsto> [], my_public_cert_name \<mapsto> pem_write sample_x509 n], writable = (\<lambda>_. True)\<rparr>,
      m_cert_names = [], cs_logged = []\<rparr>"

definition sample_activation :: base_client where
  "sample_activation =
     \<lparr>bc_id = 1, bc_active = True, bc_local_port = 8100, bc_activate_port = 25500, bc_proxy_endpoints = [sample_ep ''aaa''], bc_proxy_index = 0,
      bc_max_connections = 1, bc_activate_stamp = 30, bc_activating = Some 0, bc_running = True, bc_kind = LocalKind 0 False\<rparr>"

lemma sample_side_prepared: "0 < n \<Longrightarrow> n < 3000 \<Longrightarrow> prepared sample_x509 n [] ''tmp'' (sample_side n)"
  by (simp add: prepared_def sample_side_def sample_x509_def get_common_name_def)


text \<open>A configuration with one host that asks for TLS 1.3.\<close>

definition strict_config :: tree where
  "strict_config = Object [(''name'', String ''me''), (''min_tls_protocol'', Number 13)]"

definition strict_object :: tree where
  "strict_object = Object [(''config'', strict_config), (''hosts'', Array [sample_item [sample_ep ''b'', sample_ep ''c'']])]"

definition strict_startup :: "(tree, unit) startup" where
  "strict_startup = sample_startup\<lparr>su_parse := \<lambda>_. Some strict_object\<rparr>"

lemma populate_strict_config:
  "\<exists>g'. populate_config tree_api S strict_config g = ret g' \<and> m_own_name g' = ''me'' \<and> min_tls_protocol g' = 13
     \<and> remotehosts g' = remotehosts g"
  by (simp add: strict_config_def populate_config_def check_string_ref_def check_bool_ref_def check_int_ref_def check_port_def array_of_def
      json_simps reset_def Let_def)

lemma populate_strict_names: "\<exists>g'. populate_json tree_api S 12 strict_object g = ret g' \<and> m_own_name g' = ''me'' \<and> remotehosts g' = remotehosts g"
  using populate_strict_config [of S "reset g"]
  by (auto simp: populate_json_def strict_object_def strict_config_def array_of_def json_simps bit_0 reset_def)

lemma populate_strict:
  assumes "remotehosts g = []"
  shows "\<exists>g' h. populate_json tree_api sample_setting 15 strict_object g = ret g' \<and> min_tls_protocol g' = 13 \<and> remotehosts g' = [h]"
proof -
  let ?items = "[sample_item [sample_ep ''b'', sample_ep ''c'']]" and ?cfgs = "[sample_config [sample_ep ''b'', sample_ep ''c'']]"
  have "known_type sample_setting (sample_config eps)" for eps
    by (simp add: sample_config_def known_type_def)
  then have "list_all2 (describes tree_api) ?items ?cfgs" "list_all well_formed ?cfgs" "list_all (known_type sample_setting) ?cfgs"
    "distinct (map hc_port ([] @ ?cfgs))" "list_all2 matches (remotehosts (reset g)) []" "se_context sample_setting = None"
    using assms by (simp_all add: sample_describes sample_well_formed sample_setting_def reset_def)
  then obtain g1 where g1: "populate_hosts tree_api sample_setting ?items (reset g) = ret g1" "list_all2 matches (remotehosts g1) ?cfgs"
    using populate_hosts_new [OF tree_api_laws] by (metis append_Nil)
  then obtain h where h: "remotehosts g1 = [h]"
    by (auto simp: list_all2_Cons2)
  have "array_of tree_api strict_object ''hosts'' = ?items" "array_of tree_api strict_object ''clients'' = []"
    "jfind tree_api strict_object ''web'' = Undefined" "jfind tree_api strict_object ''config'' = strict_config"
    by (simp_all add: strict_object_def array_of_def json_simps)
  then show ?thesis
    using populate_strict_config [of sample_setting g1] g1(1) h
    by (auto simp: populate_json_def json_simps bit_0 strict_config_def)
qed

lemma strict_boots: "\<exists>a1 h. boot strict_startup ready_app 0 = Some (True, a1, 0) \<and> min_tls_protocol (ap_global a1) = 13 \<and> remotehosts (ap_global a1) = [h]"
proof -
  let ?a = "ready_app\<lparr>ap_log := [''UniProxy starting'']\<rparr>"
  have s: "su_json strict_startup = tree_api" "su_setting strict_startup = sample_setting"
    by (simp_all add: strict_startup_def sample_startup_def)
  have "remotehosts (ap_global ?a) = []"
    by (simp add: ready_app_def fresh_app_def sample_global_def)
  then obtain g2 where g2: "populate_json (su_json strict_startup) (su_setting strict_startup) 12 strict_object (ap_global ?a) = ret g2"
      "m_own_name g2 = ''me''" "remotehosts g2 = []"
    using populate_strict_names [of sample_setting "ap_global ?a"] s by auto
  obtain g3 h where g3: "populate_json (su_json strict_startup) (su_setting strict_startup) 15 strict_object g2 = ret g3"
      "min_tls_protocol g3 = 13" "remotehosts g3 = [h]"
    using populate_strict [OF g2(3)] s by auto
  have "disk_file config_filename ?a = Some sample_text" "su_parse strict_startup sample_text = Some strict_object" "m_own_name g2 \<noteq> []"
    "disk_file my_private_key_name ?a \<noteq> None" "su_key_ok strict_startup (ap_certs ?a)"
    "load_certificates_file (su_x509 strict_startup) (cs_disk (ap_certs ?a)) my_public_cert_name [] = (True, [()])"
    "get_common_name (su_x509 strict_startup) () = m_own_name g2"
    using g2(2) by (simp_all add: ready_app_def fresh_app_def sample_app_def sample_state_def disk_file_def strict_startup_def sample_startup_def
        load_certificates_file_def own_x509_def get_common_name_def)
  from load_configuration_good [OF this(1,2) g2(1) this(3-7) g3(1), of 0] show ?thesis
    using g3(2,3) by (subst boot.simps) auto
qed


end
